(* ===== verification/Ax_Prelude.thy ===== *)
theory Ax_Prelude
  imports Main "HOL-Library.Word" "HOL-Library.Multiset"
begin

text \<open>
  Shared vocabulary of the AxiomRT development: the machine integer types of the Rust
  sources, the \<open>Result\<close> type, the checked arithmetic of the Rust standard library that
  the kernel relies on, little-endian byte encodings, decimal rendering, and generic
  lemmas on lists and words that the component theories share.

  Conventions used everywhere:
  \<^item> \<open>u8\<close>, \<open>u16\<close>, \<open>u32\<close>, \<open>u64\<close> are words of that width; \<open>usize\<close> values that the code
    uses as lengths and indexes are \<open>nat\<close> (\<open>unat\<close> of the 64-bit register they come from);
  \<^item> \<open>Result<T, E>\<close> is \<open>('e, 'a) result\<close>; a function that may panic returns an option,
    \<open>None\<close> being the panic;
  \<^item> a method on \<open>&mut self\<close> returns the new value of \<open>self\<close> beside its result.
\<close>

unbundle bit_operations_syntax

section \<open>Types\<close>

type_synonym u8 = "8 word"
type_synonym u16 = "16 word"
type_synonym u32 = "32 word"
type_synonym u64 = "64 word"

datatype ('e, 'a) result = Ok 'a | Err 'e

fun is_ok :: "('e, 'a) result \<Rightarrow> bool" where
  "is_ok (Ok _) = True"
| "is_ok (Err _) = False"

named_theorems ax_defs \<open>unfolding rules for the operations of a component\<close>
named_theorems ax_const \<open>values of the source's constants\<close>

section \<open>Checked arithmetic of the Rust standard library\<close>

definition checked_add :: "'w::len word \<Rightarrow> 'w word \<Rightarrow> 'w word option" where
  "checked_add a b = (if unat a + unat b < 2 ^ LENGTH('w) then Some (a + b) else None)"

definition checked_sub :: "'w::len word \<Rightarrow> 'w word \<Rightarrow> 'w word option" where
  "checked_sub a b = (if b \<le> a then Some (a - b) else None)"

definition saturating_mul :: "'w::len word \<Rightarrow> 'w word \<Rightarrow> 'w word" where
  "saturating_mul a b = (if unat a * unat b < 2 ^ LENGTH('w) then a * b else - 1)"

definition is_multiple_of :: "'w::len word \<Rightarrow> 'w word \<Rightarrow> bool" where
  "is_multiple_of a b \<longleftrightarrow> (if b = 0 then a = 0 else a mod b = 0)"

lemma checked_add_Some_iff:
  fixes a b c :: "'w::len word"
  shows "checked_add a b = Some c \<longleftrightarrow> unat c = unat a + unat b"
proof
  assume "checked_add a b = Some c"
  then show "unat c = unat a + unat b"
    by (auto simp: checked_add_def unat_word_ariths split: if_splits)
next
  assume c: "unat c = unat a + unat b"
  then have lt: "unat a + unat b < 2 ^ LENGTH('w)"
    by (metis unsigned_less)
  then have "unat (a + b) = unat c"
    by (simp add: c unat_word_ariths)
  then have "a + b = c" by (simp add: word_unat_eq_iff)
  with lt show "checked_add a b = Some c"
    by (simp add: checked_add_def)
qed

lemma checked_add_None_iff:
  fixes a b :: "'w::len word"
  shows "checked_add a b = None \<longleftrightarrow> 2 ^ LENGTH('w) \<le> unat a + unat b"
  by (auto simp: checked_add_def)

lemma checked_sub_Some_iff:
  fixes a b c :: "'w::len word"
  shows "checked_sub a b = Some c \<longleftrightarrow> b \<le> a \<and> unat c = unat a - unat b"
  by (auto simp: checked_sub_def unat_sub word_unat_eq_iff)

lemma is_multiple_of_dvd:
  fixes a b :: "'w::len word"
  assumes "b \<noteq> 0"
  shows "is_multiple_of a b \<longleftrightarrow> unat b dvd unat a"
proof -
  have "a mod b = 0 \<longleftrightarrow> unat (a mod b) = 0" by (simp add: unat_eq_0)
  then show ?thesis using assms by (simp add: is_multiple_of_def unat_mod dvd_eq_mod_eq_0)
qed

section \<open>Lists\<close>

lemma list_update_neq: "i \<noteq> j \<Longrightarrow> xs[i := v] ! j = xs ! j"
  by simp

lemma nth_list_update_if:
  "j < length xs \<Longrightarrow> xs[i := v] ! j = (if i = j then v else xs ! j)"
  by (simp add: nth_list_update)

lemma set_list_update_subset: "set (xs[i := v]) \<subseteq> insert v (set xs)"
  by (rule set_update_subset_insert)

lemma list_all_update:
  "list_all P xs \<Longrightarrow> P v \<Longrightarrow> list_all P (xs[i := v])"
  using set_update_subset_insert [of xs i v] by (auto simp: list_all_iff)

lemma list_all_nth: "list_all P xs \<Longrightarrow> i < length xs \<Longrightarrow> P (xs ! i)"
  by (simp add: list_all_length)

text \<open>\<open>iter().position\<close> and \<open>iter_mut().find\<close>: the first index whose element satisfies the
  predicate; \<open>iter().flatten()\<close> over options.\<close>

fun find_index :: "('a \<Rightarrow> bool) \<Rightarrow> 'a list \<Rightarrow> nat option" where
  "find_index P [] = None"
| "find_index P (x # xs) = (if P x then Some 0 else map_option Suc (find_index P xs))"

fun flatten :: "'a option list \<Rightarrow> 'a list" where
  "flatten [] = []"
| "flatten (None # xs) = flatten xs"
| "flatten (Some x # xs) = x # flatten xs"

lemma find_index_Some:
  "find_index P xs = Some i \<Longrightarrow> i < length xs \<and> P (xs ! i) \<and> (\<forall>j<i. \<not> P (xs ! j))"
  by (induction xs arbitrary: i) (auto simp: nth_Cons' split: if_splits)

lemma find_index_None: "find_index P xs = None \<longleftrightarrow> (\<forall>x\<in>set xs. \<not> P x)"
  by (induction xs) auto

lemma set_flatten: "set (flatten xs) = {x. Some x \<in> set xs}"
  by (induction xs rule: flatten.induct) auto

lemma mset_flatten_update:
  "i < length xs \<Longrightarrow> xs ! i = None \<Longrightarrow> mset (flatten (xs[i := Some x])) = add_mset x (mset (flatten xs))"
  by (induction xs arbitrary: i rule: flatten.induct) (auto simp: nth_Cons' split: nat.splits if_splits)

lemma mset_flatten_clear:
  "i < length xs \<Longrightarrow> xs ! i = Some x \<Longrightarrow> mset (flatten xs) = add_mset x (mset (flatten (xs[i := None])))"
  by (induction xs arbitrary: i rule: flatten.induct) (auto simp: nth_Cons' split: nat.splits if_splits)

lemma find_flatten_update:
  "i < length xs \<Longrightarrow> xs ! i = None \<Longrightarrow> \<not> P x \<Longrightarrow> find P (flatten (xs[i := Some x])) = find P (flatten xs)"
  by (induction xs arbitrary: i rule: flatten.induct) (auto simp: nth_Cons' split: nat.splits if_splits)

lemma find_flatten_clear:
  "i < length xs \<Longrightarrow> xs ! i = Some x \<Longrightarrow> \<not> P x \<Longrightarrow> find P (flatten (xs[i := None])) = find P (flatten xs)"
  by (induction xs arbitrary: i rule: flatten.induct) (auto simp: nth_Cons' split: nat.splits if_splits)

lemma find_flatten_insert:
  "i < length xs \<Longrightarrow> xs ! i = None \<Longrightarrow> find P (flatten xs) = None \<Longrightarrow> P x
     \<Longrightarrow> find P (flatten (xs[i := Some x])) = Some x"
  by (induction xs arbitrary: i rule: flatten.induct) (auto simp: nth_Cons' split: nat.splits if_splits)

lemma mset_concat_update:
  "i < length xss \<Longrightarrow> mset (concat (xss[i := ys])) + mset (xss ! i) = mset (concat xss) + mset ys"
  by (induction xss arbitrary: i) (auto simp: nth_Cons' add.assoc add.left_commute split: nat.splits)

section \<open>Little-endian byte encodings\<close>

definition le_bytes :: "nat \<Rightarrow> 'w::len word \<Rightarrow> u8 list" where
  "le_bytes n w = map (\<lambda>i. ucast (drop_bit (8 * i) w)) [0..<n]"

fun from_le_bytes :: "u8 list \<Rightarrow> 'w::len word" where
  "from_le_bytes [] = 0"
| "from_le_bytes (b # bs) = ucast b OR push_bit 8 (from_le_bytes bs)"

lemma length_le_bytes [simp]: "length (le_bytes n w) = n"
  by (simp add: le_bytes_def)

lemma le_bytes_Suc:
  "le_bytes (Suc n) w = ucast w # le_bytes n (drop_bit 8 w)"
proof -
  have "[0..<Suc n] = 0 # map Suc [0..<n]"
    by (simp add: upt_conv_Cons map_Suc_upt del: upt_Suc)
  then show ?thesis
    by (simp add: le_bytes_def comp_def add.commute del: upt_Suc)
qed

lemma bit_from_le_bytes_le_bytes:
  fixes w :: "'w::len word"
  shows "bit (from_le_bytes (le_bytes n w) :: 'w word) k \<longleftrightarrow> k < 8 * n \<and> bit w k"
proof (induction n arbitrary: w k)
  case 0
  then show ?case by (simp add: le_bytes_def)
next
  case (Suc n)
  have "bit (from_le_bytes (le_bytes (Suc n) w) :: 'w word) k \<longleftrightarrow>
      k < LENGTH('w) \<and> (k < 8 \<and> bit w k \<or> 8 \<le> k \<and> k - 8 < 8 * n \<and> bit w (8 + (k - 8)))"
    by (auto simp: le_bytes_Suc bit_or_iff bit_push_bit_iff bit_unsigned_iff bit_drop_bit_eq Suc.IH
        dest: bit_imp_le_length)
  then show ?case
    by (auto dest: bit_imp_le_length)
qed

lemma from_le_bytes_le_bytes:
  fixes w :: "'w::len word"
  assumes "LENGTH('w) \<le> 8 * n"
  shows "from_le_bytes (le_bytes n w) = w"
  using assms by (auto intro!: bit_word_eqI simp: bit_from_le_bytes_le_bytes)

lemma bit_from_le_bytes:
  fixes bs :: "u8 list"
  shows "bit (from_le_bytes bs :: 'w::len word) k \<longleftrightarrow>
    k < LENGTH('w) \<and> k div 8 < length bs \<and> bit (bs ! (k div 8)) (k mod 8)"
proof (induction bs arbitrary: k)
  case (Cons b bs)
  show ?case
  proof (cases "k < 8")
    case True
    then show ?thesis by (auto simp: bit_or_iff bit_push_bit_iff bit_unsigned_iff)
  next
    case False
    then have "k div 8 = Suc ((k - 8) div 8)" "(k - 8) mod 8 = k mod 8"
      by (simp_all add: le_div_geq le_mod_geq)
    with False show ?thesis
      using bit_imp_le_length [of b k]
      by (auto simp: bit_or_iff bit_push_bit_iff bit_unsigned_iff Cons.IH)
  qed
qed simp

lemma le_bytes_from_le_bytes:
  assumes "8 * length bs \<le> LENGTH('w::len)"
  shows "le_bytes (length bs) (from_le_bytes bs :: 'w word) = bs"
proof (rule nth_equalityI)
  fix i assume "i < length (le_bytes (length bs) (from_le_bytes bs :: 'w word))"
  then have i: "i < length bs" by simp
  have "bit (ucast (drop_bit (8 * i) (from_le_bytes bs :: 'w word)) :: u8) j \<longleftrightarrow> bit (bs ! i) j" if "j < 8" for j
  proof -
    have "8 * i + j < LENGTH('w)" using i that assms by linarith
    then show ?thesis using that i by (simp add: bit_unsigned_iff bit_drop_bit_eq bit_from_le_bytes)
  qed
  then show "le_bytes (length bs) (from_le_bytes bs :: 'w word) ! i = bs ! i"
    using i by (auto simp: le_bytes_def intro: bit_word_eqI)
qed simp

section \<open>Bytes of strings\<close>

definition bytes :: "string \<Rightarrow> u8 list" where
  "bytes s = map (\<lambda>c. of_nat (of_char c)) s"

lemma length_bytes [simp]: "length (bytes s) = length s"
  by (simp add: bytes_def)

section \<open>Decimal rendering of unsigned integers\<close>

text \<open>The digits of \<open>core::fmt\<close>'s \<open>Display\<close> for unsigned integers, and of the kernel's own
  \<open>put_dec\<close> loops: repeated division by ten, most significant digit first.\<close>

definition digit_char :: "nat \<Rightarrow> char" where
  "digit_char d = char_of (48 + d)"

function dec_string :: "nat \<Rightarrow> string" where
  "dec_string n = (if n < 10 then [digit_char n] else dec_string (n div 10) @ [digit_char (n mod 10)])"
  by pat_completeness auto
termination by (relation "measure id") auto

declare dec_string.simps [simp del]

lemma dec_string_nonempty [simp]: "dec_string n \<noteq> []"
  by (subst dec_string.simps) simp

lemma length_dec_string_le: "n < 10 ^ k \<Longrightarrow> 0 < k \<Longrightarrow> length (dec_string n) \<le> k"
proof (induction k arbitrary: n)
  case 0
  then show ?case by simp
next
  case (Suc k)
  show ?case
  proof (cases "n < 10")
    case True
    then show ?thesis by (subst dec_string.simps) simp
  next
    case False
    with Suc.prems have "n div 10 < 10 ^ k"
      by (simp add: div_less_iff_less_mult mult.commute)
    moreover from False Suc.prems have "0 < k"
      by (cases k) auto
    ultimately have "length (dec_string (n div 10)) \<le> k" by (rule Suc.IH)
    with False show ?thesis by (subst dec_string.simps) simp
  qed
qed

end
