(* ===== verification/Caps.thy ===== *)
theory Caps
  imports Ax_Prelude
begin

text \<open>
  Capability-based access control (\<open>kernel/src/caps\<close>): rights sets (\<open>rights.rs\<close>),
  capabilities (\<open>capability.rs\<close>) and the per-task lookup table that is the single
  enforcement point (\<open>table.rs\<close>).

  Two interfaces are stated as locales. \<open>rights_algebra\<close> is the contract of the three
  bitmask newtypes of the sources (task, device and network rights): subset test, union
  and diminish. \<open>cap_store\<close> is the contract of a capability table: what insert, revoke
  and lookup do to the authority a task holds. Its client lemma is provenance: authority
  that a lookup confirms was inserted and not revoked since.
\<close>

section \<open>Rights\<close>

datatype rights = Rights u16

definition NONE :: rights where "NONE = Rights 0"
definition READ :: rights where "READ = Rights (push_bit 0 1)"
definition WRITE :: rights where "WRITE = Rights (push_bit 1 1)"
definition EXECUTE :: rights where "EXECUTE = Rights (push_bit 2 1)"
definition SEND :: rights where "SEND = Rights (push_bit 3 1)"
definition RECEIVE :: rights where "RECEIVE = Rights (push_bit 4 1)"
definition GRANT :: rights where "GRANT = Rights (push_bit 5 1)"
definition MAP :: rights where "MAP = Rights (push_bit 6 1)"
definition CONTROL :: rights where "CONTROL = Rights (push_bit 7 1)"

lemmas rights_consts [ax_const] =
  NONE_def READ_def WRITE_def EXECUTE_def SEND_def RECEIVE_def GRANT_def MAP_def CONTROL_def

fun rights_bits :: "rights \<Rightarrow> u16" where
  "rights_bits (Rights b) = b"

definition rights_union :: "rights \<Rightarrow> rights \<Rightarrow> rights" where
  "rights_union a b = Rights (rights_bits a OR rights_bits b)"

definition rights_contains :: "rights \<Rightarrow> rights \<Rightarrow> bool" where
  "rights_contains a required \<longleftrightarrow> rights_bits a AND rights_bits required = rights_bits required"

definition rights_diminish :: "rights \<Rightarrow> rights \<Rightarrow> rights" where
  "rights_diminish a removed = Rights (rights_bits a AND NOT (rights_bits removed))"

subsection \<open>The algebra of a rights bitmask\<close>

lemma word_and_eq_iff_subset:
  fixes a b :: "'w::len word"
  shows "a AND b = b \<longleftrightarrow> (\<forall>n. bit b n \<longrightarrow> bit a n)"
  by (auto simp: bit_eq_iff bit_and_iff dest: bit_imp_le_length)

locale rights_algebra =
  fixes bits :: "'r \<Rightarrow> 'w::len word"
    and none :: 'r
    and union :: "'r \<Rightarrow> 'r \<Rightarrow> 'r"
    and contains :: "'r \<Rightarrow> 'r \<Rightarrow> bool"
    and diminish :: "'r \<Rightarrow> 'r \<Rightarrow> 'r"
  assumes bits_inject: "bits a = bits b \<Longrightarrow> a = b"
    and bits_none: "bits none = 0"
    and bits_union: "bits (union a b) = bits a OR bits b"
    and contains_bits: "contains a b \<longleftrightarrow> bits a AND bits b = bits b"
    and bits_diminish: "bits (diminish a r) = bits a AND NOT (bits r)"
begin

lemma contains_iff: "contains a b \<longleftrightarrow> (\<forall>n. bit (bits b) n \<longrightarrow> bit (bits a) n)"
  by (simp add: contains_bits word_and_eq_iff_subset)

lemma contains_refl: "contains a a"
  by (simp add: contains_iff)

lemma contains_trans: "contains a b \<Longrightarrow> contains b c \<Longrightarrow> contains a c"
  by (simp add: contains_iff)

lemma contains_antisym: "contains a b \<Longrightarrow> contains b a \<Longrightarrow> a = b"
  by (rule bits_inject) (auto simp: contains_iff intro: bit_word_eqI)

lemma contains_none: "contains a none"
  by (simp add: contains_iff bits_none)

lemma none_contains_iff: "contains none a \<longleftrightarrow> a = none"
  using contains_antisym contains_none contains_refl by blast

lemma union_contains_iff: "contains a (union b c) \<longleftrightarrow> contains a b \<and> contains a c"
  by (auto simp: contains_iff bits_union bit_or_iff)

lemma contains_union_left: "contains (union a b) a"
  by (simp add: contains_iff bits_union bit_or_iff)

lemma contains_diminish_iff:
  "contains (diminish a r) b \<longleftrightarrow> contains a b \<and> bits b AND bits r = 0"
proof -
  have "bits b AND bits r = 0 \<longleftrightarrow> (\<forall>n. bit (bits b) n \<longrightarrow> \<not> bit (bits r) n)"
    by (auto simp: bit_eq_iff bit_and_iff dest: bit_imp_le_length)
  then show ?thesis
    by (auto simp: contains_iff bits_diminish bit_and_iff bit_not_iff dest: bit_imp_le_length)
qed

lemma diminish_no_amplify: "contains (diminish a r) b \<Longrightarrow> contains a b"
  by (simp add: contains_diminish_iff)

lemma diminish_removes: "contains (diminish a r) b \<Longrightarrow> contains r b \<Longrightarrow> b = none"
  by (rule bits_inject)
    (simp add: contains_diminish_iff contains_bits [of r] bits_none and.commute [of "bits b"])

lemma diminish_unheld: "bits a AND bits r = 0 \<Longrightarrow> diminish a r = a"
  by (rule contains_antisym) (auto simp: contains_diminish_iff contains_refl dest: diminish_no_amplify
      intro: diminish_no_amplify [OF contains_refl])

end

interpretation task_rights: rights_algebra rights_bits NONE rights_union rights_contains rights_diminish
proof unfold_locales
  show "rights_bits a = rights_bits b \<Longrightarrow> a = b" for a b
    by (cases a; cases b) simp
qed (simp_all add: NONE_def rights_union_def rights_contains_def rights_diminish_def)

section \<open>Capabilities\<close>

datatype object_type =
    Thread | Endpoint | AddressSpace | PhysicalFrame | Timer | SchedulingContext | FaultChannel

record object_ref =
  object_type :: object_type
  object_id :: u32

record capability =
  cap_object :: object_ref
  cap_rights :: rights

definition capability_new :: "object_ref \<Rightarrow> rights \<Rightarrow> capability" where
  "capability_new ob r = \<lparr>cap_object = ob, cap_rights = r\<rparr>"

definition derive_diminished :: "capability \<Rightarrow> rights \<Rightarrow> capability" where
  "derive_diminished c removed =
     \<lparr>cap_object = cap_object c, cap_rights = rights_diminish (cap_rights c) removed\<rparr>"

definition grants :: "capability \<Rightarrow> object_type \<Rightarrow> rights \<Rightarrow> bool" where
  "grants c ty required \<longleftrightarrow>
     object_type (cap_object c) = ty \<and> rights_contains (cap_rights c) required"

section \<open>The capability table\<close>

definition CAP_TABLE_SLOTS :: nat where "CAP_TABLE_SLOTS = 32"

datatype cap_error = InvalidIndex | EmptySlot | WrongObjectType | InsufficientRights | SlotOccupied

record cap_table =
  cap_slots :: "capability option list"

definition cap_table_new :: cap_table where
  "cap_table_new = \<lparr>cap_slots = replicate CAP_TABLE_SLOTS None\<rparr>"

definition cap_insert :: "cap_table \<Rightarrow> nat \<Rightarrow> capability \<Rightarrow> cap_table \<times> (cap_error, unit) result" where
  "cap_insert t index c =
     (if index \<ge> CAP_TABLE_SLOTS then (t, Err InvalidIndex)
      else if cap_slots t ! index \<noteq> None then (t, Err SlotOccupied)
      else (t\<lparr>cap_slots := (cap_slots t)[index := Some c]\<rparr>, Ok ()))"

definition cap_revoke :: "cap_table \<Rightarrow> nat \<Rightarrow> cap_table \<times> (cap_error, unit) result" where
  "cap_revoke t index =
     (if index \<ge> CAP_TABLE_SLOTS then (t, Err InvalidIndex)
      else let taken = cap_slots t ! index;
               t' = t\<lparr>cap_slots := (cap_slots t)[index := None]\<rparr>
           in if taken = None then (t', Err EmptySlot) else (t', Ok ()))"

definition cap_lookup ::
  "cap_table \<Rightarrow> nat \<Rightarrow> object_type \<Rightarrow> rights \<Rightarrow> (cap_error, object_ref) result" where
  "cap_lookup t index expected_type required =
     (if index \<ge> CAP_TABLE_SLOTS then Err InvalidIndex
      else case cap_slots t ! index of
        None \<Rightarrow> Err EmptySlot
      | Some c \<Rightarrow>
          if object_type (cap_object c) \<noteq> expected_type then Err WrongObjectType
          else if \<not> rights_contains (cap_rights c) required then Err InsufficientRights
          else Ok (cap_object c))"

definition cap_query :: "cap_table \<Rightarrow> nat \<Rightarrow> (cap_error, object_type \<times> rights) result" where
  "cap_query t index =
     (if index \<ge> CAP_TABLE_SLOTS then Err InvalidIndex
      else case cap_slots t ! index of
        Some c \<Rightarrow> Ok (object_type (cap_object c), cap_rights c)
      | None \<Rightarrow> Err EmptySlot)"

lemmas cap_table_defs [ax_defs] =
  cap_insert_def cap_revoke_def cap_lookup_def cap_query_def cap_table_new_def

subsection \<open>Representation: the table as a partial map\<close>

definition cap_table_inv :: "cap_table \<Rightarrow> bool" where
  "cap_table_inv t \<longleftrightarrow> length (cap_slots t) = CAP_TABLE_SLOTS"

definition held :: "cap_table \<Rightarrow> nat \<Rightarrow> capability option" where
  "held t index = (if index < CAP_TABLE_SLOTS then cap_slots t ! index else None)"

lemma cap_table_inv_new: "cap_table_inv cap_table_new"
  by (simp add: cap_table_inv_def cap_table_new_def)

lemma cap_table_inv_insert: "cap_table_inv t \<Longrightarrow> cap_table_inv (fst (cap_insert t i c))"
  by (simp add: cap_table_inv_def cap_insert_def)

lemma cap_table_inv_revoke: "cap_table_inv t \<Longrightarrow> cap_table_inv (fst (cap_revoke t i))"
  by (simp add: cap_table_inv_def cap_revoke_def Let_def)

lemma held_insert:
  assumes "cap_table_inv t"
  shows "held (fst (cap_insert t i c)) =
    (if i < CAP_TABLE_SLOTS \<and> held t i = None then (held t)(i \<mapsto> c) else held t)"
  using assms
  by (auto simp: fun_eq_iff held_def cap_insert_def cap_table_inv_def nth_list_update)

lemma held_revoke:
  assumes "cap_table_inv t"
  shows "held (fst (cap_revoke t i)) = (held t)(i := None)"
  using assms
  by (auto simp: fun_eq_iff held_def cap_revoke_def cap_table_inv_def nth_list_update Let_def)

lemma cap_lookup_Ok_iff:
  "cap_lookup t i ty r = Ok ob \<longleftrightarrow> (\<exists>c. held t i = Some c \<and> grants c ty r \<and> cap_object c = ob)"
  by (auto simp: cap_lookup_def held_def grants_def split: option.splits)

section \<open>The contract of a capability store\<close>

datatype cap_op = InsertOp nat capability | RevokeOp nat

fun cap_step ::
  "('t \<Rightarrow> nat \<Rightarrow> capability \<Rightarrow> 't \<times> 'a) \<Rightarrow> ('t \<Rightarrow> nat \<Rightarrow> 't \<times> 'b) \<Rightarrow> 't \<Rightarrow> cap_op \<Rightarrow> 't" where
  "cap_step ins rvk t (InsertOp i c) = fst (ins t i c)"
| "cap_step ins rvk t (RevokeOp i) = fst (rvk t i)"

definition cap_run ::
  "('t \<Rightarrow> nat \<Rightarrow> capability \<Rightarrow> 't \<times> 'a) \<Rightarrow> ('t \<Rightarrow> nat \<Rightarrow> 't \<times> 'b) \<Rightarrow> 't \<Rightarrow> cap_op list \<Rightarrow> 't" where
  "cap_run ins rvk t ops = foldl (cap_step ins rvk) t ops"

locale cap_store =
  fixes empty :: 't
    and insert :: "'t \<Rightarrow> nat \<Rightarrow> capability \<Rightarrow> 't \<times> 'a"
    and revoke :: "'t \<Rightarrow> nat \<Rightarrow> 't \<times> 'b"
    and lookup :: "'t \<Rightarrow> nat \<Rightarrow> object_type \<Rightarrow> rights \<Rightarrow> ('e, object_ref) result"
    and holds :: "'t \<Rightarrow> nat \<Rightarrow> capability option"
    and inv :: "'t \<Rightarrow> bool"
    and slots :: nat
  assumes inv_empty: "inv empty"
    and inv_insert: "inv t \<Longrightarrow> inv (fst (insert t i c))"
    and inv_revoke: "inv t \<Longrightarrow> inv (fst (revoke t i))"
    and holds_empty: "holds empty i = None"
    and holds_insert: "inv t \<Longrightarrow> holds (fst (insert t i c)) =
          (if i < slots \<and> holds t i = None then (holds t)(i \<mapsto> c) else holds t)"
    and holds_revoke: "inv t \<Longrightarrow> holds (fst (revoke t i)) = (holds t)(i := None)"
    and lookup_Ok: "lookup t i ty r = Ok ob \<longleftrightarrow>
          (\<exists>c. holds t i = Some c \<and> grants c ty r \<and> cap_object c = ob)"
begin

lemma inv_run: "inv (cap_run insert revoke empty ops)"
proof (induction ops rule: rev_induct)
  case Nil
  then show ?case by (simp add: cap_run_def inv_empty)
next
  case (snoc op ops)
  then show ?case by (cases op) (simp_all add: cap_run_def inv_insert inv_revoke)
qed

lemma holds_provenance:
  assumes "holds (cap_run insert revoke empty ops) i = Some c"
  shows "\<exists>pre post. ops = pre @ InsertOp i c # post \<and> RevokeOp i \<notin> set post"
  using assms
proof (induction ops rule: rev_induct)
  case Nil
  then show ?case by (simp add: cap_run_def holds_empty)
next
  case (snoc op ops)
  let ?t = "cap_run insert revoke empty ops"
  have run: "cap_run insert revoke empty (ops @ [op]) = cap_step insert revoke ?t op"
    by (simp add: cap_run_def)
  show ?case
  proof (cases "op = InsertOp i c")
    case True
    then show ?thesis by (intro exI [of _ ops] exI [of _ "[]"]) simp
  next
    case False
    have step: "holds (cap_step insert revoke ?t op) i = Some c"
      using snoc.prems by (simp only: run)
    have "holds ?t i = Some c \<and> op \<noteq> RevokeOp i"
    proof (cases op)
      case (InsertOp j d)
      with step False show ?thesis
        by (simp add: holds_insert [OF inv_run] split: if_splits)
    next
      case (RevokeOp j)
      with step show ?thesis
        by (simp add: holds_revoke [OF inv_run] split: if_splits)
    qed
    then have "holds ?t i = Some c" "op \<noteq> RevokeOp i" by simp_all
    with snoc.IH obtain pre post where "ops = pre @ InsertOp i c # post" "RevokeOp i \<notin> set post"
      by blast
    with \<open>op \<noteq> RevokeOp i\<close> show ?thesis
      by (intro exI [of _ pre] exI [of _ "post @ [op]"]) simp
  qed
qed

lemma lookup_provenance:
  assumes "lookup (cap_run insert revoke empty ops) i ty r = Ok ob"
  shows "\<exists>pre c post. ops = pre @ InsertOp i c # post \<and> RevokeOp i \<notin> set post
           \<and> grants c ty r \<and> cap_object c = ob"
  using assms holds_provenance unfolding lookup_Ok by blast

lemma lookup_after_insert:
  assumes "inv t" "i < slots" "holds t i = None" "grants c ty r"
  shows "lookup (fst (insert t i c)) i ty r = Ok (cap_object c)"
  using assms by (simp add: lookup_Ok holds_insert)

lemma lookup_after_revoke:
  assumes "inv t"
  shows "lookup (fst (revoke t i)) i ty r \<noteq> Ok ob"
  using assms by (simp add: lookup_Ok holds_revoke)

lemma lookup_frame:
  assumes "inv t" "i \<noteq> j"
  shows "lookup (fst (insert t i c)) j ty r = Ok ob \<longleftrightarrow> lookup t j ty r = Ok ob"
    and "lookup (fst (revoke t i)) j ty r = Ok ob \<longleftrightarrow> lookup t j ty r = Ok ob"
  using assms by (simp_all add: lookup_Ok holds_insert holds_revoke)

end

interpretation task_caps: cap_store cap_table_new cap_insert cap_revoke cap_lookup held
    cap_table_inv CAP_TABLE_SLOTS
  by unfold_locales
    (simp_all add: cap_table_inv_new cap_table_inv_insert cap_table_inv_revoke held_insert
      held_revoke cap_lookup_Ok_iff, simp add: held_def cap_table_new_def)

lemma grants_derive_diminished: "grants (derive_diminished c removed) ty r \<Longrightarrow> grants c ty r"
  by (auto simp: grants_def derive_diminished_def dest: task_rights.diminish_no_amplify)

section \<open>Properties\<close>

text \<open>C11. Provenance of authority: after any sequence of insertions and revocations on a fresh
  table, a successful lookup names the object of a capability that an insertion put into that
  very slot and that no later operation revoked, and that capability carries the requested type
  and every requested right. No lookup succeeds on authority nobody granted.\<close>

theorem cap_lookup_provenance:
  assumes "cap_lookup (cap_run cap_insert cap_revoke cap_table_new ops) i ty r = Ok ob"
  shows "\<exists>pre c post. ops = pre @ InsertOp i c # post \<and> RevokeOp i \<notin> set post
           \<and> object_type (cap_object c) = ty \<and> rights_contains (cap_rights c) r \<and> cap_object c = ob"
  using task_caps.lookup_provenance [OF assms] by (auto simp: grants_def)

theorem cap_lookup_provenance_witness:
  "\<exists>pre c post. [InsertOp 3 (capability_new \<lparr>object_type = Endpoint, object_id = 7\<rparr> SEND)]
       = pre @ InsertOp 3 c # post \<and> RevokeOp 3 \<notin> set post
     \<and> object_type (cap_object c) = Endpoint \<and> rights_contains (cap_rights c) SEND
     \<and> cap_object c = \<lparr>object_type = Endpoint, object_id = 7\<rparr>"
  by (rule cap_lookup_provenance)
    (simp add: cap_run_def cap_table_defs CAP_TABLE_SLOTS_def capability_new_def
      rights_contains_def)

text \<open>The enforcement point decides in the fixed order bounds, occupancy, object type,
  rights: the error of the first failing check is returned, and the object reference only when
  all four checks pass. Lookup after insertion finds the inserted object, lookup after
  revocation of the slot reports \<open>EmptySlot\<close>, and operations on one slot do not change what a
  lookup of another slot returns.\<close>

lemma cap_table_functional:
  assumes "cap_table_inv t" and "i < CAP_TABLE_SLOTS"
  shows "cap_lookup t i ty r =
      (case held t i of None \<Rightarrow> Err EmptySlot
       | Some c \<Rightarrow> if object_type (cap_object c) \<noteq> ty then Err WrongObjectType
                  else if \<not> rights_contains (cap_rights c) r then Err InsufficientRights
                  else Ok (cap_object c))
    \<and> held (fst (cap_insert t i c)) = (if held t i = None then (held t)(i \<mapsto> c) else held t)
    \<and> snd (cap_insert t i c) = (if held t i = None then Ok () else Err SlotOccupied)
    \<and> held (fst (cap_revoke t i)) = (held t)(i := None)
    \<and> cap_lookup (fst (cap_revoke t i)) i ty r = Err EmptySlot
    \<and> cap_lookup t (i + CAP_TABLE_SLOTS) ty r = Err InvalidIndex"
proof (intro conjI)
  show "held (fst (cap_insert t i c)) = (if held t i = None then (held t)(i \<mapsto> c) else held t)"
    and "held (fst (cap_revoke t i)) = (held t)(i := None)"
    using assms by (simp_all add: held_insert held_revoke)
qed (use assms in \<open>auto simp: cap_table_defs held_def cap_table_inv_def Let_def split: option.splits\<close>)

text \<open>Derivation never amplifies: a capability derived by \<open>derive_diminished\<close> names the same
  object, passes a check only where its parent passes it, and never passes a check for a
  non-empty set of removed rights.\<close>

theorem derive_diminished_never_amplifies:
  assumes "rights_contains (cap_rights (derive_diminished c removed)) r"
  shows "cap_object (derive_diminished c removed) = cap_object c
    \<and> rights_contains (cap_rights c) r
    \<and> (rights_contains removed r \<longrightarrow> r = NONE)"
  using assms
  by (auto simp: derive_diminished_def dest: task_rights.diminish_no_amplify
      task_rights.diminish_removes)

theorem derive_diminished_never_amplifies_witness:
  "rights_contains (cap_rights (capability_new \<lparr>object_type = Endpoint, object_id = 1\<rparr>
     (rights_union SEND RECEIVE))) SEND"
  by (rule derive_diminished_never_amplifies [where removed = RECEIVE, THEN conjunct2, THEN conjunct1])
    (simp add: derive_diminished_def capability_new_def rights_contains_def rights_diminish_def
      rights_union_def SEND_def RECEIVE_def)

end
