(* ===== verification/Threads.thy ===== *)
theory Threads
  imports Ax_Prelude
begin

text \<open>
  Thread objects (\<open>kernel/src/thread\<close>): identity, the lifecycle states with the complete
  legal transition relation, the guarded \<open>transition\<close> operation and the saved execution
  context. The lifecycle is also given as a step relation on threads, so that properties of
  whole executions (terminal states, what a faulted thread can do) are rule inductions.
\<close>

section \<open>Identity and states\<close>

datatype thread_id = ThreadId u32

fun as_u32 :: "thread_id \<Rightarrow> u32" where
  "as_u32 (ThreadId n) = n"

datatype address_space_id = AddressSpaceId u32

datatype thread_state = Ready | Running | Blocked | Faulted | Killed | Suspended

fun is_legal_transition :: "thread_state \<Rightarrow> thread_state \<Rightarrow> bool" where
  "is_legal_transition Ready Running = True"
| "is_legal_transition Running Ready = True"
| "is_legal_transition Running Blocked = True"
| "is_legal_transition Blocked Ready = True"
| "is_legal_transition Ready Faulted = True"
| "is_legal_transition Running Faulted = True"
| "is_legal_transition Blocked Faulted = True"
| "is_legal_transition Ready Killed = True"
| "is_legal_transition Running Killed = True"
| "is_legal_transition Blocked Killed = True"
| "is_legal_transition Faulted Killed = True"
| "is_legal_transition Suspended Killed = True"
| "is_legal_transition Ready Suspended = True"
| "is_legal_transition Running Suspended = True"
| "is_legal_transition Blocked Suspended = True"
| "is_legal_transition Faulted Suspended = True"
| "is_legal_transition Suspended Ready = True"
| "is_legal_transition _ _ = False"

section \<open>The thread object\<close>

record illegal_transition =
  it_from :: thread_state
  it_to :: thread_state

record thread =
  th_id :: thread_id
  th_state :: thread_state
  th_address_space :: address_space_id

definition thread_new :: "thread_id \<Rightarrow> address_space_id \<Rightarrow> thread" where
  "thread_new i a = \<lparr>th_id = i, th_state = Ready, th_address_space = a\<rparr>"

definition transition :: "thread \<Rightarrow> thread_state \<Rightarrow> thread \<times> (illegal_transition, unit) result" where
  "transition t to =
     (if is_legal_transition (th_state t) to then (t\<lparr>th_state := to\<rparr>, Ok ())
      else (t, Err \<lparr>it_from = th_state t, it_to = to\<rparr>))"

section \<open>Execution contexts\<close>

record arch_context =
  ctx_ra :: u64
  ctx_sp :: u64
  ctx_s :: "u64 list"

definition arch_context_zeroed :: arch_context where
  "arch_context_zeroed = \<lparr>ctx_ra = 0, ctx_sp = 0, ctx_s = replicate 12 0\<rparr>"

record thread_context =
  ctx_arch :: arch_context

definition thread_context_new :: "u64 \<Rightarrow> u64 \<Rightarrow> thread_context option" where
  "thread_context_new resume_at stack_top =
     (if resume_at = 0 \<or> stack_top = 0 then None
      else Some \<lparr>ctx_arch = arch_context_zeroed\<lparr>ctx_ra := resume_at, ctx_sp := stack_top\<rparr>\<rparr>)"

definition is_runnable :: "thread_context \<Rightarrow> bool" where
  "is_runnable c \<longleftrightarrow> ctx_ra (ctx_arch c) \<noteq> 0 \<and> ctx_sp (ctx_arch c) \<noteq> 0"

lemma thread_context_new_runnable:
  "thread_context_new ra sp = Some c \<Longrightarrow> is_runnable c \<and> ctx_ra (ctx_arch c) = ra \<and> ctx_sp (ctx_arch c) = sp"
  by (auto simp: thread_context_new_def is_runnable_def split: if_splits)

section \<open>Lifecycle as a step relation\<close>

inductive thread_step :: "thread \<Rightarrow> thread \<Rightarrow> bool" where
  step: "transition t to = (t', Ok ()) \<Longrightarrow> thread_step t t'"

inductive_cases thread_stepE: "thread_step t t'"

lemma transition_Ok_iff:
  "transition t to = (t', Ok ()) \<longleftrightarrow> is_legal_transition (th_state t) to \<and> t' = t\<lparr>th_state := to\<rparr>"
  by (auto simp: transition_def)

lemma thread_step_iff:
  "thread_step t t' \<longleftrightarrow>
     is_legal_transition (th_state t) (th_state t') \<and> t' = t\<lparr>th_state := th_state t'\<rparr>"
  by (auto simp: transition_Ok_iff elim!: thread_stepE intro: thread_step.step)

fun thread_run :: "thread \<Rightarrow> thread_state list \<Rightarrow> thread" where
  "thread_run t [] = t"
| "thread_run t (s # ss) = thread_run (fst (transition t s)) ss"

lemma thread_run_steps: "thread_step\<^sup>*\<^sup>* t (thread_run t ss)"
proof (induction ss arbitrary: t)
  case (Cons s ss)
  have "thread_step\<^sup>*\<^sup>* t (fst (transition t s))"
    by (auto simp: transition_def intro!: r_into_rtranclp thread_step.step)
  with Cons.IH show ?case by (metis rtranclp_trans thread_run.simps(2))
qed simp

lemma legal_from_Killed: "\<not> is_legal_transition Killed s"
  by (cases s) simp_all

lemma legal_to_Running: "is_legal_transition s Running \<longleftrightarrow> s = Ready"
  by (cases s) simp_all

lemma legal_from_Faulted: "is_legal_transition Faulted s \<longleftrightarrow> s \<in> {Killed, Suspended}"
  by (cases s) simp_all

lemma legal_from_Suspended: "is_legal_transition Suspended s \<longleftrightarrow> s \<in> {Killed, Ready}"
  by (cases s) simp_all

lemma steps_from_Killed: "thread_step\<^sup>*\<^sup>* t t' \<Longrightarrow> th_state t = Killed \<Longrightarrow> t' = t"
  by (induction rule: rtranclp_induct) (auto simp: thread_step_iff legal_from_Killed)

lemma steps_identity:
  "thread_step\<^sup>*\<^sup>* t t' \<Longrightarrow> th_id t' = th_id t \<and> th_address_space t' = th_address_space t"
proof (induction rule: rtranclp_induct)
  case (step t' t'')
  then have "t'' = t'\<lparr>th_state := th_state t''\<rparr>" by (simp add: thread_step_iff)
  then have "th_id t'' = th_id t'" "th_address_space t'' = th_address_space t'"
    by (metis thread.select_convs(1) thread.surjective thread.update_convs(2))
      (metis \<open>t'' = t'\<lparr>th_state := th_state t''\<rparr>\<close> thread.select_convs(3) thread.surjective thread.update_convs(2))
  with step.IH show ?case by simp
qed simp

section \<open>Properties\<close>

text \<open>C39. Lifecycle safety of \<open>Thread::transition\<close> over whole executions: a rejected
  request leaves the thread unchanged; identity and address space never change; a killed thread stays
  exactly as it is whatever is requested afterwards; and a thread is made Running only from Ready.\<close>

theorem thread_lifecycle_safety:
  "th_id (thread_run t ss) = th_id t \<and> th_address_space (thread_run t ss) = th_address_space t
   \<and> (th_state t = Killed \<longrightarrow> thread_run t ss = t)
   \<and> (th_state (thread_run t (ss @ [s])) = Running \<and> th_state (thread_run t ss) \<noteq> Running
        \<longrightarrow> s = Running \<and> th_state (thread_run t ss) = Ready)
   \<and> (\<not> is_legal_transition (th_state (thread_run t ss)) s \<longrightarrow> thread_run t (ss @ [s]) = thread_run t ss)"
proof -
  have app: "thread_run t (ss @ [s]) = fst (transition (thread_run t ss) s)"
    by (induction ss arbitrary: t) simp_all
  show ?thesis
    using steps_identity [OF thread_run_steps] steps_from_Killed [OF thread_run_steps]
    by (auto simp: app transition_def legal_to_Running split: if_splits)
qed

theorem thread_lifecycle_safety_witness:
  "thread_run (thread_new (ThreadId 1) (AddressSpaceId 1)) [Running, Killed, Ready, Running]
     = (thread_new (ThreadId 1) (AddressSpaceId 1))\<lparr>th_state := Killed\<rparr>"
proof -
  let ?t = "thread_run (thread_new (ThreadId 1) (AddressSpaceId 1)) [Running, Killed]"
  have "th_state ?t = Killed" by (simp add: thread_new_def transition_def)
  then have "thread_run ?t [Ready, Running] = ?t"
    using thread_lifecycle_safety [of ?t "[Ready, Running]" Ready] by blast
  then show ?thesis by (simp add: thread_new_def transition_def)
qed

text \<open>A faulted thread reaches execution again only through an explicit supervisor freeze
  and resume: every execution that leads from Faulted back to Running passes through Suspended
  and then Ready.\<close>

theorem faulted_runs_only_after_resume:
  assumes "thread_step\<^sup>*\<^sup>* t t'" and "th_state t = Faulted" and "th_state t' = Running"
  shows "\<exists>u v. thread_step\<^sup>*\<^sup>* t u \<and> th_state u = Suspended \<and> thread_step u v
           \<and> th_state v = Ready \<and> thread_step\<^sup>*\<^sup>* v t'"
proof -
  define passed where "passed w \<longleftrightarrow> (\<exists>u v. thread_step\<^sup>*\<^sup>* t u \<and> th_state u = Suspended \<and> thread_step u v
           \<and> th_state v = Ready \<and> thread_step\<^sup>*\<^sup>* v w)" for w
  have "th_state t' \<in> {Faulted, Suspended, Killed} \<or> passed t'"
    using assms(1)
  proof (induction rule: rtranclp_induct)
    case base
    then show ?case by (simp add: assms(2))
  next
    case (step w w')
    then have legal: "is_legal_transition (th_state w) (th_state w')" by (simp add: thread_step_iff)
    show ?case
    proof (cases "passed w")
      case True
      with step.hyps(2) show ?thesis unfolding passed_def by (meson rtranclp.rtrancl_into_rtrancl)
    next
      case False
      with step.IH consider "th_state w = Faulted" | "th_state w = Suspended" | "th_state w = Killed"
        by auto
      then show ?thesis
      proof cases
        case 2
        with legal consider "th_state w' = Killed" | "th_state w' = Ready"
          by (auto simp: legal_from_Suspended)
        then show ?thesis
          using step.hyps 2 unfolding passed_def by cases blast+
      qed (use legal in \<open>auto simp: legal_from_Faulted legal_from_Killed\<close>)
    qed
  qed
  with assms(3) show ?thesis by (simp add: passed_def)
qed

theorem faulted_runs_only_after_resume_witness:
  "\<exists>t t'. th_state t = Faulted \<and> th_state t' = Running \<and> (\<exists>u v. thread_step\<^sup>*\<^sup>* t u
     \<and> th_state u = Suspended \<and> thread_step u v \<and> th_state v = Ready \<and> thread_step\<^sup>*\<^sup>* v t')"
proof -
  let ?t = "(thread_new (ThreadId 1) (AddressSpaceId 1))\<lparr>th_state := Faulted\<rparr>"
  let ?t' = "thread_run ?t [Suspended, Ready, Running]"
  have "th_state ?t = Faulted" "th_state ?t' = Running"
    by (simp_all add: thread_new_def transition_def)
  with faulted_runs_only_after_resume [OF thread_run_steps [of ?t "[Suspended, Ready, Running]"]]
  show ?thesis by blast
qed

end
