(* ===== verification/Sched.thy ===== *)
theory Sched
  imports Threads "HOL-Library.Multiset"
begin

text \<open>
  The fixed-priority scheduler model (\<open>kernel/src/sched\<close>): validated priorities
  (\<open>priority.rs\<close>), the statically sized ring buffer per level and the ready queue
  (\<open>queue.rs\<close>), and the selection loop (\<open>mod.rs\<close>).

  The locale \<open>bounded_fifo\<close> is the contract of a bounded queue over a list abstraction; the
  ring buffer is an interpretation of it, so the ready queue and the scheduler are proved
  over lists and never look into a ring again.
\<close>

section \<open>Priorities\<close>

definition PRIORITY_LEVELS :: nat where "PRIORITY_LEVELS = 8"

datatype priority = Priority u8

definition priority_new :: "u8 \<Rightarrow> priority option" where
  "priority_new level = (if unat level < PRIORITY_LEVELS then Some (Priority level) else None)"

fun priority_level :: "priority \<Rightarrow> u8" where
  "priority_level (Priority l) = l"

definition priority_ok :: "priority \<Rightarrow> bool" where
  "priority_ok p \<longleftrightarrow> unat (priority_level p) < PRIORITY_LEVELS"

section \<open>The ring buffer of one level\<close>

definition QUEUE_CAPACITY :: nat where "QUEUE_CAPACITY = 16"

datatype queue_error = Full | AlreadyQueued

record fifo =
  slots :: "thread_id option list"
  head :: nat
  len :: nat

definition fifo_new :: fifo where
  "fifo_new = \<lparr>slots = replicate QUEUE_CAPACITY None, head = 0, len = 0\<rparr>"

definition push_back :: "fifo \<Rightarrow> thread_id \<Rightarrow> fifo \<times> (queue_error, unit) result" where
  "push_back f tid =
     (if len f = QUEUE_CAPACITY then (f, Err Full)
      else let tail = (head f + len f) mod QUEUE_CAPACITY
           in (f\<lparr>slots := (slots f)[tail := Some tid], len := len f + 1\<rparr>, Ok ()))"

definition pop_front :: "fifo \<Rightarrow> fifo \<times> thread_id option" where
  "pop_front f =
     (if len f = 0 then (f, None)
      else (f\<lparr>slots := (slots f)[head f := None], head := (head f + 1) mod QUEUE_CAPACITY,
              len := len f - 1\<rparr>, slots f ! head f))"

definition fifo_contains :: "fifo \<Rightarrow> thread_id \<Rightarrow> bool" where
  "fifo_contains f tid =
     list_ex (\<lambda>i. slots f ! ((head f + i) mod QUEUE_CAPACITY) = Some tid) [0..<len f]"

fun remove_loop ::
  "fifo \<Rightarrow> thread_id \<Rightarrow> nat list \<Rightarrow> bool \<Rightarrow> thread_id option list \<Rightarrow> nat
     \<Rightarrow> bool \<times> thread_id option list \<times> nat" where
  "remove_loop f tid [] found kept kept_len = (found, kept, kept_len)"
| "remove_loop f tid (i # is) found kept kept_len =
     (let slot = slots f ! ((head f + i) mod QUEUE_CAPACITY)
      in if slot = Some tid \<and> \<not> found then remove_loop f tid is True kept kept_len
         else remove_loop f tid is found (kept[kept_len := slot]) (kept_len + 1))"

definition fifo_remove :: "fifo \<Rightarrow> thread_id \<Rightarrow> fifo \<times> bool" where
  "fifo_remove f tid =
     (let (found, kept, kept_len) =
            remove_loop f tid [0..<len f] False (replicate QUEUE_CAPACITY None) 0
      in (if found then \<lparr>slots = kept, head = 0, len = kept_len\<rparr> else f, found))"

subsection \<open>The ring as a list\<close>

definition ring :: "fifo \<Rightarrow> nat \<Rightarrow> thread_id option" where
  "ring f i = slots f ! ((head f + i) mod QUEUE_CAPACITY)"

definition fifo_inv :: "fifo \<Rightarrow> bool" where
  "fifo_inv f \<longleftrightarrow> length (slots f) = QUEUE_CAPACITY \<and> head f < QUEUE_CAPACITY \<and> len f \<le> QUEUE_CAPACITY
     \<and> list_all (\<lambda>i. ring f i \<noteq> None) [0..<len f]"

definition fifo_list :: "fifo \<Rightarrow> thread_id list" where
  "fifo_list f = map (\<lambda>i. the (ring f i)) [0..<len f]"

lemma length_fifo_list [simp]: "length (fifo_list f) = len f"
  by (simp add: fifo_list_def)

lemma fifo_invD:
  assumes "fifo_inv f"
  shows "length (slots f) = QUEUE_CAPACITY" "head f < QUEUE_CAPACITY" "len f \<le> QUEUE_CAPACITY"
    and "i < len f \<Longrightarrow> ring f i = Some (fifo_list f ! i)"
  using assms by (auto simp: fifo_inv_def fifo_list_def list_all_iff)

lemma fifo_eqI:
  assumes "length (slots f) = QUEUE_CAPACITY" "head f < QUEUE_CAPACITY" "len f \<le> QUEUE_CAPACITY"
    and "len f = length xs" "\<And>i. i < length xs \<Longrightarrow> ring f i = Some (xs ! i)"
  shows "fifo_inv f \<and> fifo_list f = xs"
  using assms by (auto simp: fifo_inv_def fifo_list_def list_all_iff intro: nth_equalityI)

lemma ring_index_inj:
  assumes "i < QUEUE_CAPACITY" "j < QUEUE_CAPACITY"
  shows "(h + i) mod QUEUE_CAPACITY = (h + j) mod QUEUE_CAPACITY \<longleftrightarrow> i = j"
proof -
  have "(h + i) mod QUEUE_CAPACITY = (h + j) mod QUEUE_CAPACITY
      \<longleftrightarrow> i mod QUEUE_CAPACITY = j mod QUEUE_CAPACITY"
    unfolding nat_mod_eq_iff by (simp add: add.assoc)
  with assms show ?thesis by simp
qed

lemma ring_update:
  assumes "length (slots f) = QUEUE_CAPACITY" "i < QUEUE_CAPACITY" "j < QUEUE_CAPACITY"
  shows "(slots f)[(head f + i) mod QUEUE_CAPACITY := v] ! ((head f + j) mod QUEUE_CAPACITY)
         = (if i = j then v else ring f j)"
  using assms by (simp add: nth_list_update ring_index_inj ring_def)

lemma push_back_list:
  assumes inv: "fifo_inv f"
  shows "len f < QUEUE_CAPACITY \<Longrightarrow> snd (push_back f x) = Ok ()
           \<and> fifo_inv (fst (push_back f x)) \<and> fifo_list (fst (push_back f x)) = fifo_list f @ [x]"
    and "\<not> len f < QUEUE_CAPACITY \<Longrightarrow> push_back f x = (f, Err Full)"
proof -
  note D = fifo_invD [OF inv]
  assume lt: "len f < QUEUE_CAPACITY"
  let ?f = "f\<lparr>slots := (slots f)[(head f + len f) mod QUEUE_CAPACITY := Some x], len := len f + 1\<rparr>"
  have push: "push_back f x = (?f, Ok ())"
    using lt by (simp add: push_back_def Let_def)
  have "fifo_inv ?f \<and> fifo_list ?f = fifo_list f @ [x]"
  proof (rule fifo_eqI)
    fix i assume "i < length (fifo_list f @ [x])"
    then have "i \<le> len f" by simp
    moreover have "ring ?f i = (slots f)[(head f + len f) mod QUEUE_CAPACITY := Some x]
        ! ((head f + i) mod QUEUE_CAPACITY)"
      by (simp add: ring_def)
    ultimately show "ring ?f i = Some ((fifo_list f @ [x]) ! i)"
      using lt ring_update [OF D(1) lt, of i "Some x"] D(4) [of i]
      by (simp add: nth_append)
  qed (use D lt in simp_all)
  with push show "snd (push_back f x) = Ok () \<and> fifo_inv (fst (push_back f x))
      \<and> fifo_list (fst (push_back f x)) = fifo_list f @ [x]" by simp
qed (use fifo_invD(3) [OF inv] in \<open>simp add: push_back_def\<close>)

lemma pop_front_list:
  assumes inv: "fifo_inv f"
  shows "snd (pop_front f) = (case fifo_list f of [] \<Rightarrow> None | x # _ \<Rightarrow> Some x)
    \<and> fifo_inv (fst (pop_front f)) \<and> fifo_list (fst (pop_front f)) = tl (fifo_list f)"
proof (cases "len f = 0")
  case True
  then have "fifo_list f = []" by (simp add: fifo_list_def)
  with True inv show ?thesis by (simp add: pop_front_def)
next
  case False
  note D = fifo_invD [OF inv]
  let ?f = "f\<lparr>slots := (slots f)[head f := None], head := (head f + 1) mod QUEUE_CAPACITY, len := len f - 1\<rparr>"
  from False obtain x xs where xs: "fifo_list f = x # xs"
    by (metis length_0_conv length_fifo_list neq_Nil_conv)
  then have len: "len f = Suc (length xs)" by (metis length_Cons length_fifo_list)
  have r0: "ring f 0 = Some x" using D(4) [of 0] len xs by simp
  have "fifo_inv ?f \<and> fifo_list ?f = xs"
  proof (rule fifo_eqI)
    fix i assume i: "i < length xs"
    have "ring ?f i = (slots f)[(head f + 0) mod QUEUE_CAPACITY := None] ! ((head f + Suc i) mod QUEUE_CAPACITY)"
    proof -
      have "((head f + 1) mod QUEUE_CAPACITY + i) mod QUEUE_CAPACITY = (head f + Suc i) mod QUEUE_CAPACITY"
        unfolding mod_add_left_eq by simp
      with D(2) show ?thesis by (simp add: ring_def)
    qed
    also have "\<dots> = ring f (Suc i)"
      using D(1-3) i len by (subst ring_update) auto
    also have "\<dots> = Some (xs ! i)" using D(4) [of "Suc i"] i len xs by simp
    finally show "ring ?f i = Some (xs ! i)" .
  next
    show "head ?f < QUEUE_CAPACITY" by (simp add: QUEUE_CAPACITY_def)
  qed (use D len in simp_all)
  moreover have "pop_front f = (?f, Some x)"
    using False r0 D(2) by (simp add: pop_front_def ring_def)
  ultimately show ?thesis by (simp add: xs)
qed

lemma fifo_contains_list: "fifo_inv f \<Longrightarrow> fifo_contains f x \<longleftrightarrow> x \<in> set (fifo_list f)"
proof -
  assume inv: "fifo_inv f"
  have "fifo_contains f x \<longleftrightarrow> (\<exists>i<len f. ring f i = Some x)"
    by (auto simp: fifo_contains_def list_ex_iff ring_def)
  also have "\<dots> \<longleftrightarrow> (\<exists>i<len f. fifo_list f ! i = x)"
    using fifo_invD(4) [OF inv] by auto
  finally show ?thesis by (simp add: in_set_conv_nth)
qed

lemma remove_loop_result:
  assumes "\<forall>i\<in>set is. ring f i = Some (g i)" and "k + length is \<le> length kept"
    and "remove_loop f tid is found kept k = (found', kept', k')"
    and "zs = (if found then map g is else remove1 tid (map g is))"
  shows "found' = (found \<or> tid \<in> set (map g is)) \<and> k' = k + length zs \<and> length kept' = length kept
    \<and> take k' kept' = take k kept @ map Some zs"
  using assms
proof (induction "is" arbitrary: found kept k zs)
  case Nil
  then show ?case by simp
next
  case (Cons i js)
  have slot: "slots f ! ((head f + i) mod QUEUE_CAPACITY) = Some (g i)"
    using Cons.prems(1) by (simp add: ring_def)
  show ?case
  proof (cases "g i = tid \<and> \<not> found")
    case True
    then have "remove_loop f tid js True kept k = (found', kept', k')"
      using Cons.prems(3) slot by simp
    from Cons.IH [OF _ _ this refl] Cons.prems(1,2,4) True show ?thesis by auto
  next
    case False
    then have run: "remove_loop f tid js found (kept[k := Some (g i)]) (k + 1) = (found', kept', k')"
      using Cons.prems(3) slot by (auto simp: Let_def split: if_splits)
    have "take (k + 1) (kept[k := Some (g i)]) = take k kept @ [Some (g i)]"
      using Cons.prems(2) by (simp add: take_Suc_conv_app_nth)
    with Cons.IH [OF _ _ run refl] Cons.prems(1,2,4) False show ?thesis by auto
  qed
qed

lemma fifo_remove_list:
  assumes inv: "fifo_inv f"
  shows "snd (fifo_remove f x) = (x \<in> set (fifo_list f))
    \<and> fifo_inv (fst (fifo_remove f x)) \<and> fifo_list (fst (fifo_remove f x)) = remove1 x (fifo_list f)"
proof -
  note D = fifo_invD [OF inv]
  let ?zs = "remove1 x (fifo_list f)"
  obtain found kept k where run:
    "remove_loop f x [0..<len f] False (replicate QUEUE_CAPACITY None) 0 = (found, kept, k)"
    by (metis prod_cases3)
  have res: "found = (x \<in> set (fifo_list f))" "k = length ?zs" "length kept = QUEUE_CAPACITY"
      "take k kept = map Some ?zs"
  proof -
    have ys: "map (\<lambda>i. the (ring f i)) [0..<len f] = fifo_list f" by (simp add: fifo_list_def)
    have some: "\<forall>i\<in>set [0..<len f]. ring f i = Some (the (ring f i))"
      using D(4) by simp
    have room: "0 + length [0..<len f] \<le> length (replicate QUEUE_CAPACITY (None :: thread_id option))"
      using D(3) by simp
    have "found = (False \<or> x \<in> set (fifo_list f)) \<and> k = 0 + length ?zs
        \<and> length kept = length (replicate QUEUE_CAPACITY (None :: thread_id option))
        \<and> take k kept = take 0 (replicate QUEUE_CAPACITY None) @ map Some ?zs"
      using remove_loop_result [OF some room run refl] unfolding ys if_False .
    then show "found = (x \<in> set (fifo_list f))" "k = length ?zs" "length kept = QUEUE_CAPACITY"
      "take k kept = map Some ?zs" by auto
  qed
  show ?thesis
  proof (cases found)
    case True
    let ?f = "\<lparr>slots = kept, head = 0, len = k\<rparr>"
    have k: "k \<le> QUEUE_CAPACITY"
      using res(2) D(3) length_remove1 [of x "fifo_list f"] by (simp split: if_splits)
    have "fifo_inv ?f \<and> fifo_list ?f = ?zs"
    proof (rule fifo_eqI)
      fix i assume i: "i < length ?zs"
      then have "ring ?f i = take k kept ! i"
        using k res(2) by (simp add: ring_def)
      then show "ring ?f i = Some (?zs ! i)" using i by (simp add: res(4))
    qed (use k res in \<open>simp_all add: QUEUE_CAPACITY_def\<close>)
    with True res(1) show ?thesis by (simp add: fifo_remove_def run)
  next
    case False
    with res(1) inv show ?thesis by (simp add: fifo_remove_def run remove1_idem)
  qed
qed

section \<open>The contract of a bounded queue\<close>

locale bounded_fifo =
  fixes empty :: 'q
    and push :: "'q \<Rightarrow> 'a \<Rightarrow> 'q \<times> ('e, unit) result"
    and pop :: "'q \<Rightarrow> 'q \<times> 'a option"
    and member :: "'q \<Rightarrow> 'a \<Rightarrow> bool"
    and delete :: "'q \<Rightarrow> 'a \<Rightarrow> 'q \<times> bool"
    and inv :: "'q \<Rightarrow> bool"
    and list :: "'q \<Rightarrow> 'a list"
    and cap :: nat
    and full :: 'e
  assumes inv_empty: "inv empty"
    and list_empty: "list empty = []"
    and length_list: "inv q \<Longrightarrow> length (list q) \<le> cap"
    and push_room: "inv q \<Longrightarrow> length (list q) < cap \<Longrightarrow>
          snd (push q x) = Ok () \<and> inv (fst (push q x)) \<and> list (fst (push q x)) = list q @ [x]"
    and push_full: "inv q \<Longrightarrow> \<not> length (list q) < cap \<Longrightarrow> push q x = (q, Err full)"
    and pop_list: "inv q \<Longrightarrow> snd (pop q) = (case list q of [] \<Rightarrow> None | x # _ \<Rightarrow> Some x)
          \<and> inv (fst (pop q)) \<and> list (fst (pop q)) = tl (list q)"
    and member_list: "inv q \<Longrightarrow> member q x \<longleftrightarrow> x \<in> set (list q)"
    and delete_list: "inv q \<Longrightarrow> snd (delete q x) = (x \<in> set (list q))
          \<and> inv (fst (delete q x)) \<and> list (fst (delete q x)) = remove1 x (list q)"
begin

lemma push_inv: "inv q \<Longrightarrow> inv (fst (push q x))"
  using push_room [of q x] push_full [of q x] by (cases "length (list q) < cap") auto

lemma push_list_eq:
  "inv q \<Longrightarrow> list (fst (push q x)) = (if length (list q) < cap then list q @ [x] else list q)
     \<and> snd (push q x) = (if length (list q) < cap then Ok () else Err full)"
  using push_room [of q x] push_full [of q x] by simp

lemma pop_Some:
  "inv q \<Longrightarrow> pop q = (q', Some x) \<Longrightarrow> inv q' \<and> list q = x # list q'"
  using pop_list [of q] by (auto split: list.splits)

lemma pop_None:
  "inv q \<Longrightarrow> pop q = (q', None) \<Longrightarrow> inv q' \<and> list q = [] \<and> list q' = []"
  using pop_list [of q] by (auto split: list.splits)

lemma push_all_list:
  assumes "inv q" "length (list q) + length xs \<le> cap"
  shows "inv (foldl (\<lambda>q x. fst (push q x)) q xs)
    \<and> list (foldl (\<lambda>q x. fst (push q x)) q xs) = list q @ xs"
  using assms
proof (induction xs arbitrary: q)
  case (Cons x xs)
  then have "snd (push q x) = Ok () \<and> inv (fst (push q x)) \<and> list (fst (push q x)) = list q @ [x]"
    by (intro push_room) auto
  with Cons.IH [of "fst (push q x)"] Cons.prems(2) show ?case by simp
qed simp

end

interpretation level_queue: bounded_fifo fifo_new push_back pop_front fifo_contains fifo_remove
    fifo_inv fifo_list QUEUE_CAPACITY Full
proof unfold_locales
  show "fifo_inv fifo_new" by (simp add: fifo_inv_def fifo_new_def QUEUE_CAPACITY_def)
  show "fifo_list fifo_new = []" by (simp add: fifo_list_def fifo_new_def)
qed (simp_all add: fifo_invD push_back_list pop_front_list fifo_contains_list fifo_remove_list)

section \<open>The ready queue\<close>

record ready_queue =
  levels :: "fifo list"

definition ready_queue_new :: ready_queue where
  "ready_queue_new = \<lparr>levels = replicate PRIORITY_LEVELS fifo_new\<rparr>"

definition rq_contains :: "ready_queue \<Rightarrow> thread_id \<Rightarrow> bool" where
  "rq_contains q tid = list_ex (\<lambda>f. fifo_contains f tid) (levels q)"

definition enqueue :: "ready_queue \<Rightarrow> thread_id \<Rightarrow> priority \<Rightarrow> ready_queue \<times> (queue_error, unit) result" where
  "enqueue q tid prio =
     (if rq_contains q tid then (q, Err AlreadyQueued)
      else let l = unat (priority_level prio);
               (f, r) = push_back (levels q ! l) tid
           in (q\<lparr>levels := (levels q)[l := f]\<rparr>, r))"

text \<open>The loop over \<open>(0..PRIORITY_LEVELS).rev()\<close>: the levels above are tried first, then the
  level at hand; the first ring that yields a thread ends the loop.\<close>

fun pop_levels :: "nat \<Rightarrow> fifo list \<Rightarrow> fifo list \<times> (thread_id \<times> priority) option" where
  "pop_levels level [] = ([], None)"
| "pop_levels level (f # fs) =
     (case pop_levels (Suc level) fs of
        (fs', Some r) \<Rightarrow> (f # fs', Some r)
      | (fs', None) \<Rightarrow>
          (case pop_front f of
             (f', Some tid) \<Rightarrow> (f' # fs', Some (tid, the (priority_new (of_nat level))))
           | (f', None) \<Rightarrow> (f' # fs', None)))"

definition pop_highest :: "ready_queue \<Rightarrow> ready_queue \<times> (thread_id \<times> priority) option" where
  "pop_highest q = (let (ls, r) = pop_levels 0 (levels q) in (q\<lparr>levels := ls\<rparr>, r))"

fun remove_any :: "fifo list \<Rightarrow> thread_id \<Rightarrow> fifo list \<times> bool" where
  "remove_any [] tid = ([], False)"
| "remove_any (f # fs) tid =
     (case fifo_remove f tid of
        (f', True) \<Rightarrow> (f' # fs, True)
      | (f', False) \<Rightarrow> (let (fs', b) = remove_any fs tid in (f' # fs', b)))"

definition rq_remove :: "ready_queue \<Rightarrow> thread_id \<Rightarrow> ready_queue \<times> bool" where
  "rq_remove q tid = (let (ls, b) = remove_any (levels q) tid in (q\<lparr>levels := ls\<rparr>, b))"

definition rq_is_empty :: "ready_queue \<Rightarrow> bool" where
  "rq_is_empty q = list_all (\<lambda>f. len f = 0) (levels q)"

section \<open>The scheduler\<close>

record scheduler =
  ready :: ready_queue

definition scheduler_new :: scheduler where
  "scheduler_new = \<lparr>ready = ready_queue_new\<rparr>"

definition mark_ready :: "scheduler \<Rightarrow> thread_id \<Rightarrow> priority \<Rightarrow> scheduler \<times> (queue_error, unit) result" where
  "mark_ready s tid prio = (let (q, r) = enqueue (ready s) tid prio in (s\<lparr>ready := q\<rparr>, r))"

definition mark_not_ready :: "scheduler \<Rightarrow> thread_id \<Rightarrow> scheduler \<times> bool" where
  "mark_not_ready s tid = (let (q, b) = rq_remove (ready s) tid in (s\<lparr>ready := q\<rparr>, b))"

definition queued_total :: "ready_queue \<Rightarrow> nat" where
  "queued_total q = sum_list (map len (levels q))"

lemma pop_front_len: "pop_front f = (f', r) \<Longrightarrow> len f' \<le> len f \<and> (r \<noteq> None \<longrightarrow> len f' < len f)"
  by (auto simp: pop_front_def split: if_splits)

lemma pop_levels_len:
  "pop_levels l fs = (fs', r) \<Longrightarrow> sum_list (map len fs') \<le> sum_list (map len fs)
     \<and> (r \<noteq> None \<longrightarrow> sum_list (map len fs') < sum_list (map len fs))"
proof (induction l fs arbitrary: fs' r rule: pop_levels.induct)
  case (2 l f fs)
  obtain gs r' where gs: "pop_levels (Suc l) fs = (gs, r')" by (cases "pop_levels (Suc l) fs")
  obtain g t where g: "pop_front f = (g, t)" by (cases "pop_front f")
  show ?case
    using "2.prems" "2.IH" [OF gs] pop_front_len [OF g]
    by (auto simp: gs g split: option.splits)
qed simp

lemma pop_highest_total: "pop_highest q = (q', Some r) \<Longrightarrow> queued_total q' < queued_total q"
  by (auto simp: pop_highest_def queued_total_def dest: pop_levels_len split: prod.splits)

function select_next :: "scheduler \<Rightarrow> (thread_id \<Rightarrow> bool) \<Rightarrow> scheduler \<times> (thread_id \<times> priority) option" where
  "select_next s is_ready =
     (case pop_highest (ready s) of
        (q, None) \<Rightarrow> (s\<lparr>ready := q\<rparr>, None)
      | (q, Some (tid, prio)) \<Rightarrow>
          if is_ready tid then (s\<lparr>ready := q\<rparr>, Some (tid, prio))
          else select_next (s\<lparr>ready := q\<rparr>) is_ready)"
  by pat_completeness auto
termination
  by (relation "measure (\<lambda>(s, _). queued_total (ready s))") (auto dest: pop_highest_total [OF sym])

declare select_next.simps [simp del]

definition is_idle :: "scheduler \<Rightarrow> bool" where
  "is_idle s = rq_is_empty (ready s)"

section \<open>The ready queue over lists\<close>

definition rq_lists :: "ready_queue \<Rightarrow> thread_id list list" where
  "rq_lists q = map fifo_list (levels q)"

definition rq_inv :: "ready_queue \<Rightarrow> bool" where
  "rq_inv q \<longleftrightarrow> length (levels q) = PRIORITY_LEVELS \<and> list_all fifo_inv (levels q)
     \<and> distinct (concat (rq_lists q))"

lemma rq_inv_new: "rq_inv ready_queue_new"
  by (simp add: rq_inv_def ready_queue_new_def rq_lists_def list_all_iff level_queue.inv_empty
      level_queue.list_empty)

lemma length_rq_lists [simp]: "length (rq_lists q) = length (levels q)"
  by (simp add: rq_lists_def)

lemma rq_contains_iff: "list_all fifo_inv (levels q) \<Longrightarrow> rq_contains q x \<longleftrightarrow> x \<in> set (concat (rq_lists q))"
  by (auto simp: rq_contains_def rq_lists_def list_ex_iff list_all_iff level_queue.member_list)

lemma pop_levels_None:
  assumes "pop_levels l fs = (fs', None)" "list_all fifo_inv fs"
  shows "list_all fifo_inv fs' \<and> map fifo_list fs' = map fifo_list fs \<and> concat (map fifo_list fs) = []"
  using assms
proof (induction l fs arbitrary: fs' rule: pop_levels.induct)
  case (2 l f fs)
  from "2.prems" obtain gs f' where gs: "pop_levels (Suc l) fs = (gs, None)"
    and f': "pop_front f = (f', None)" and fs': "fs' = f' # gs"
    by (auto split: prod.splits option.splits)
  with "2.IH" [OF gs] "2.prems"(2) level_queue.pop_None [of f f'] show ?case by auto
qed simp

lemma pop_levels_Some:
  assumes "pop_levels l fs = (fs', Some (tid, p))" "list_all fifo_inv fs"
  shows "list_all fifo_inv fs' \<and> (\<exists>k rest. k < length fs \<and> p = the (priority_new (of_nat (l + k)))
     \<and> map fifo_list fs ! k = tid # rest \<and> (\<forall>j<length fs. k < j \<longrightarrow> map fifo_list fs ! j = [])
     \<and> map fifo_list fs' = (map fifo_list fs)[k := rest])"
  using assms
proof (induction l fs arbitrary: fs' rule: pop_levels.induct)
  case (2 l f fs)
  show ?case
  proof (cases "snd (pop_levels (Suc l) fs)")
    case None
    then obtain gs where gs: "pop_levels (Suc l) fs = (gs, None)" by (metis prod.collapse)
    with "2.prems"(1) obtain f' where f': "pop_front f = (f', Some tid)"
      and p: "p = the (priority_new (of_nat l))" and fs': "fs' = f' # gs"
      by (auto split: prod.splits option.splits)
    have inv: "fifo_inv f" "list_all fifo_inv fs" using "2.prems"(2) by auto
    note E = pop_levels_None [OF gs inv(2)]
    have empty: "map fifo_list fs ! j = []" if "j < length fs" for j
      using E that by (simp add: concat_eq_Nil_conv)
    show ?thesis
      using E level_queue.pop_Some [OF inv(1) f'] p fs' empty
      by (intro conjI exI [of _ 0] exI [of _ "fifo_list f'"]) (auto simp: nth_Cons')
  next
    case (Some r)
    then obtain gs where gs: "pop_levels (Suc l) fs = (gs, Some (tid, p))" and fs': "fs' = f # gs"
      using "2.prems"(1) by (auto split: prod.splits option.splits)
    have inv: "fifo_inv f" "list_all fifo_inv fs" using "2.prems"(2) by auto
    from "2.IH" [OF gs inv(2)] obtain k rest where k: "k < length fs"
      "p = the (priority_new (of_nat (Suc l + k)))" "map fifo_list fs ! k = tid # rest"
      "\<forall>j<length fs. k < j \<longrightarrow> map fifo_list fs ! j = []" "map fifo_list gs = (map fifo_list fs)[k := rest]"
      "list_all fifo_inv gs" by blast
    then show ?thesis
      using inv fs' by (intro conjI exI [of _ "Suc k"] exI [of _ rest]) (auto simp: nth_Cons' less_Suc_eq_0_disj)
  qed
qed simp

lemma remove_any_lists:
  assumes "remove_any fs x = (fs', b)" "list_all fifo_inv fs" "distinct (concat (map fifo_list fs))"
  shows "list_all fifo_inv fs' \<and> b = (x \<in> set (concat (map fifo_list fs)))
    \<and> map fifo_list fs' = map (remove1 x) (map fifo_list fs)"
  using assms
proof (induction fs arbitrary: fs' b)
  case (Cons f fs)
  have inv: "fifo_inv f" "list_all fifo_inv fs" using Cons.prems(2) by auto
  note R = level_queue.delete_list [OF inv(1), of x]
  obtain f' found where f': "fifo_remove f x = (f', found)" by (cases "fifo_remove f x")
  show ?case
  proof (cases found)
    case True
    with R f' Cons.prems(3) have "x \<notin> set (concat (map fifo_list fs))" by auto
    then have "map (remove1 x) (map fifo_list fs) = map fifo_list fs"
      by (auto intro!: map_idI simp: remove1_idem)
    with True R f' Cons.prems(1) inv show ?thesis by auto
  next
    case False
    obtain gs c where gs: "remove_any fs x = (gs, c)" by (cases "remove_any fs x")
    with Cons.IH [OF gs inv(2)] Cons.prems(1,3) R f' False show ?thesis by auto
  qed
qed simp

lemma set_concat_remove1: "set (concat (map (remove1 x) ls)) \<subseteq> set (concat ls)"
  by (induction ls) (auto dest: notin_set_remove1)

lemma distinct_concat_remove1: "distinct (concat ls) \<Longrightarrow> distinct (concat (map (remove1 x) ls))"
proof (induction ls)
  case (Cons l ls)
  have "set (remove1 x l) \<subseteq> set l" by (rule set_remove1_subset)
  with Cons set_concat_remove1 [of x ls] show ?case by (auto simp del: set_concat)
qed simp

lemma rq_remove_lists:
  assumes "rq_inv q"
  shows "rq_inv (fst (rq_remove q x)) \<and> snd (rq_remove q x) = (x \<in> set (concat (rq_lists q)))
    \<and> rq_lists (fst (rq_remove q x)) = map (remove1 x) (rq_lists q)"
proof -
  obtain fs' b where run: "remove_any (levels q) x = (fs', b)" by (cases "remove_any (levels q) x")
  note R = remove_any_lists [OF run]
  have lists: "map fifo_list fs' = map (remove1 x) (rq_lists q)"
    and "list_all fifo_inv fs'" "b = (x \<in> set (concat (rq_lists q)))"
    using R assms by (auto simp: rq_inv_def rq_lists_def)
  moreover have "length fs' = length (levels q)"
    using arg_cong [OF lists, of length] by (simp add: rq_lists_def)
  moreover have "distinct (concat (map (remove1 x) (rq_lists q)))"
    using assms by (intro distinct_concat_remove1) (simp add: rq_inv_def)
  ultimately show ?thesis
    using assms by (simp add: rq_remove_def run rq_inv_def rq_lists_def comp_def)
qed

lemma enqueue_lists:
  assumes inv: "rq_inv q" and p: "priority_ok p"
  defines "l \<equiv> unat (priority_level p)"
  shows "rq_inv (fst (enqueue q x p)) \<and>
    (if x \<in> set (concat (rq_lists q)) then enqueue q x p = (q, Err AlreadyQueued)
     else if length (rq_lists q ! l) = QUEUE_CAPACITY then rq_lists (fst (enqueue q x p)) = rq_lists q
        \<and> snd (enqueue q x p) = Err Full
     else rq_lists (fst (enqueue q x p)) = (rq_lists q)[l := rq_lists q ! l @ [x]]
        \<and> snd (enqueue q x p) = Ok ())"
proof (cases "x \<in> set (concat (rq_lists q))")
  case True
  then show ?thesis using inv by (simp add: enqueue_def rq_contains_iff rq_inv_def)
next
  case False
  have l: "l < length (levels q)" and invs: "list_all fifo_inv (levels q)"
    and dist: "distinct (concat (rq_lists q))"
    using inv p by (auto simp: rq_inv_def priority_ok_def l_def)
  have fl: "fifo_inv (levels q ! l)" using l invs by (simp add: list_all_length)
  obtain f r where push: "push_back (levels q ! l) x = (f, r)" by (cases "push_back (levels q ! l) x")
  have nth: "rq_lists q ! l = fifo_list (levels q ! l)" using l by (simp add: rq_lists_def)
  have q': "enqueue q x p = (q\<lparr>levels := (levels q)[l := f]\<rparr>, r)"
    using False invs push by (simp add: enqueue_def rq_contains_iff l_def)
  have lists: "rq_lists (fst (enqueue q x p)) = (rq_lists q)[l := fifo_list f]"
    by (simp add: q' rq_lists_def map_update)
  note P = level_queue.push_list_eq [OF fl, of x] level_queue.push_inv [OF fl, of x]
    level_queue.length_list [OF fl]
  have dist': "distinct (concat (ls[l := ls ! l @ [x]]))"
    if "distinct (concat ls)" "x \<notin> set (concat ls)" "l < length ls" for ls :: "thread_id list list"
  proof -
    have "mset (concat (ls[l := ls ! l @ [x]])) = add_mset x (mset (concat ls))"
      using that(3)
      by (induction ls arbitrary: l) (auto simp: nth_Cons' split: nat.splits)
    then have "mset (concat (ls[l := ls ! l @ [x]])) = mset (x # concat ls)" by simp
    then show ?thesis using that(1,2) by (metis distinct.simps(2) mset_eq_imp_distinct_iff)
  qed
  have "list_all fifo_inv ((levels q)[l := f])"
    using invs P push by (auto intro: list_all_update)
  moreover have "(rq_lists q)[l := fifo_list (levels q ! l)] = rq_lists q"
    by (metis list_update_id nth)
  ultimately show ?thesis
    using False P push dist dist' [OF dist False] l inv lists q' nth
    by (auto simp: rq_inv_def split: if_splits)
qed

lemma unat_of_nat_level: "k < PRIORITY_LEVELS \<Longrightarrow> unat (of_nat k :: u8) = k"
  by (simp add: PRIORITY_LEVELS_def unat_of_nat take_bit_nat_eq_self)

lemma pop_highest_None:
  assumes "rq_inv q" "pop_highest q = (q', None)"
  shows "rq_inv q' \<and> rq_lists q' = rq_lists q \<and> concat (rq_lists q) = []"
proof -
  obtain fs' where run: "pop_levels 0 (levels q) = (fs', None)" and q': "q' = q\<lparr>levels := fs'\<rparr>"
    using assms(2) by (auto simp: pop_highest_def split: prod.splits)
  have P: "list_all fifo_inv fs'" "map fifo_list fs' = map fifo_list (levels q)"
    "concat (map fifo_list (levels q)) = []"
    using pop_levels_None [OF run] assms(1) by (simp_all add: rq_inv_def)
  then have "length fs' = length (levels q)" by (metis length_map)
  with P q' assms(1) show ?thesis by (simp add: rq_inv_def rq_lists_def)
qed

lemma pop_highest_Some:
  assumes inv: "rq_inv q" and pop: "pop_highest q = (q', Some (tid, p))"
  shows "rq_inv q' \<and> (\<exists>k rest. k < PRIORITY_LEVELS \<and> p = Priority (of_nat k) \<and> rq_lists q ! k = tid # rest
    \<and> (\<forall>j<PRIORITY_LEVELS. k < j \<longrightarrow> rq_lists q ! j = []) \<and> rq_lists q' = (rq_lists q)[k := rest])"
proof -
  obtain fs' where run: "pop_levels 0 (levels q) = (fs', Some (tid, p))" and q': "q' = q\<lparr>levels := fs'\<rparr>"
    using pop by (auto simp: pop_highest_def split: prod.splits)
  obtain k rest where k: "k < length (levels q)" "p = the (priority_new (of_nat (0 + k)))"
    "rq_lists q ! k = tid # rest" "\<forall>j<length (levels q). k < j \<longrightarrow> rq_lists q ! j = []"
    "map fifo_list fs' = (rq_lists q)[k := rest]" "list_all fifo_inv fs'"
    using pop_levels_Some [OF run] inv unfolding rq_inv_def rq_lists_def by blast
  have len: "length (levels q) = PRIORITY_LEVELS" using inv by (simp add: rq_inv_def)
  have "mset (concat ls) = add_mset tid (mset (concat (ls[k := rest])))"
    if "k < length ls" "ls ! k = tid # rest" for ls
    using that by (induction ls arbitrary: k) (auto simp: nth_Cons' split: nat.splits if_splits)
  from this [of "rq_lists q"] k(1,3) have "mset (concat (rq_lists q)) = mset (tid # concat ((rq_lists q)[k := rest]))"
    by simp
  then have "distinct (concat ((rq_lists q)[k := rest]))"
    using inv by (metis distinct.simps(2) mset_eq_imp_distinct_iff rq_inv_def)
  moreover have "length fs' = PRIORITY_LEVELS"
    using arg_cong [OF k(5), of length] len by simp
  ultimately have "rq_inv q'" using k(5,6) q' by (simp add: rq_inv_def rq_lists_def)
  moreover have "p = Priority (of_nat k)"
    using k(1,2) len by (simp add: priority_new_def unat_of_nat_level)
  ultimately show ?thesis using k len q' by (intro conjI exI [of _ k] exI [of _ rest]) (simp_all add: rq_lists_def)
qed

definition selected :: "(thread_id \<Rightarrow> bool) \<Rightarrow> thread_id list list \<Rightarrow> thread_id list list
    \<Rightarrow> (thread_id \<times> priority) option \<Rightarrow> bool" where
  "selected is_ready ls ls' r \<longleftrightarrow>
     (case r of
        None \<Rightarrow> (\<forall>x\<in>set (concat ls). \<not> is_ready x) \<and> concat ls' = []
      | Some (tid, p) \<Rightarrow> (\<exists>k pre post. k < PRIORITY_LEVELS \<and> p = Priority (of_nat k)
            \<and> ls ! k = pre @ tid # post \<and> is_ready tid \<and> (\<forall>x\<in>set pre. \<not> is_ready x)
            \<and> (\<forall>j<PRIORITY_LEVELS. k < j \<longrightarrow> (\<forall>x\<in>set (ls ! j). \<not> is_ready x))
            \<and> (\<forall>j<PRIORITY_LEVELS. ls' ! j = (if j < k then ls ! j else if j = k then post else []))))"

lemma selected_stale:
  assumes sel: "selected is_ready (ls[k := rest]) ls' r" and k: "k < PRIORITY_LEVELS" "ls ! k = tid # rest"
    and above: "\<forall>j<PRIORITY_LEVELS. k < j \<longrightarrow> ls ! j = []" and stale: "\<not> is_ready tid"
    and len: "length ls = PRIORITY_LEVELS"
  shows "selected is_ready ls ls' r"
proof (cases r)
  case None
  have "x \<in> set (concat (ls[k := rest])) \<or> x = tid" if "x \<in> set (concat ls)" for x
  proof -
    from that obtain l where "l \<in> set ls" "x \<in> set l" by auto
    then obtain j where j: "j < length ls" "x \<in> set (ls ! j)" by (metis in_set_conv_nth)
    show ?thesis
    proof (cases "x \<in> set (ls[k := rest] ! j)")
      case True
      with j(1) show ?thesis by (auto intro: nth_mem)
    next
      case False
      with j k show ?thesis by (cases "j = k") auto
    qed
  qed
  with None sel stale show ?thesis by (auto simp: selected_def)
next
  case (Some tp)
  obtain t p where tp: "tp = (t, p)" by (cases tp)
  from sel obtain i pre post where i: "i < PRIORITY_LEVELS" "p = Priority (of_nat i)"
    "ls[k := rest] ! i = pre @ t # post" "is_ready t" "\<forall>x\<in>set pre. \<not> is_ready x"
    "\<forall>j<PRIORITY_LEVELS. i < j \<longrightarrow> (\<forall>x\<in>set (ls[k := rest] ! j). \<not> is_ready x)"
    "\<forall>j<PRIORITY_LEVELS. ls' ! j = (if j < i then ls[k := rest] ! j else if j = i then post else [])"
    by (auto simp: selected_def Some tp)
  have "i \<le> k" using above i(1,3) len by (cases "i \<le> k") auto
  moreover define pre' where "pre' = (if i = k then tid # pre else pre)"
  have "ls ! i = pre' @ t # post" using i(1,3) k len by (auto simp: pre'_def)
  moreover have "\<forall>x\<in>set pre'. \<not> is_ready x" using i(5) stale by (auto simp: pre'_def)
  moreover have "\<forall>j<PRIORITY_LEVELS. i < j \<longrightarrow> (\<forall>x\<in>set (ls ! j). \<not> is_ready x)"
  proof (intro allI impI ballI)
    fix j x assume j: "j < PRIORITY_LEVELS" "i < j" "x \<in> set (ls ! j)"
    show "\<not> is_ready x"
      using i(6) j k len stale by (cases "j = k") auto
  qed
  ultimately show ?thesis
    using i(1,2,4,7) len k unfolding selected_def Some tp option.case prod.case
    by (intro exI [of _ i] exI [of _ pre'] exI [of _ post]) auto
qed

lemma select_next_selected:
  assumes "rq_inv (ready s)" "select_next s is_ready = (s', r)"
  shows "rq_inv (ready s') \<and> selected is_ready (rq_lists (ready s)) (rq_lists (ready s')) r"
  using assms
proof (induction s is_ready rule: select_next.induct)
  case (1 s is_ready)
  obtain q r0 where pop: "pop_highest (ready s) = (q, r0)" by (cases "pop_highest (ready s)")
  show ?case
  proof (cases r0)
    case None
    with "1.prems" pop pop_highest_None [of "ready s" q] show ?thesis
      by (auto simp: select_next.simps [of s] selected_def)
  next
    case (Some tp)
    obtain tid p where tp: "tp = (tid, p)" by (cases tp)
    obtain k rest where k: "rq_inv q" "k < PRIORITY_LEVELS" "p = Priority (of_nat k)"
      "rq_lists (ready s) ! k = tid # rest" "\<forall>j<PRIORITY_LEVELS. k < j \<longrightarrow> rq_lists (ready s) ! j = []"
      "rq_lists q = (rq_lists (ready s))[k := rest]"
      using pop_highest_Some [OF "1.prems"(1)] pop Some tp by blast
    have len: "length (rq_lists (ready s)) = PRIORITY_LEVELS" using "1.prems"(1) by (simp add: rq_inv_def)
    show ?thesis
    proof (cases "is_ready tid")
      case True
      with "1.prems"(2) pop Some tp have "s' = s\<lparr>ready := q\<rparr>" "r = Some (tid, p)"
        by (simp_all add: select_next.simps [of s])
      then show ?thesis
        using k len True unfolding selected_def
        by (simp, intro exI [of _ k] exI [of _ "[]"] exI [of _ rest]) (auto simp: nth_list_update)
    next
      case False
      with "1.prems"(2) pop Some tp have "select_next (s\<lparr>ready := q\<rparr>) is_ready = (s', r)"
        by (simp add: select_next.simps [of s])
      then have "rq_inv (ready s') \<and> selected is_ready (rq_lists q) (rq_lists (ready s')) r"
        using "1.IH" [OF pop [symmetric] Some tp [symmetric] False] k(1) by simp
      moreover from this have "selected is_ready ((rq_lists (ready s))[k := rest]) (rq_lists (ready s')) r"
        by (simp add: k(6))
      then have "selected is_ready (rq_lists (ready s)) (rq_lists (ready s')) r"
        using k(2,4,5) False len by (rule selected_stale)
      ultimately show ?thesis by simp
    qed
  qed
qed

section \<open>Properties\<close>

text \<open>The ring buffer of one priority level implements a bounded queue: on every
  well-formed ring, pushing appends at the tail and reports \<open>Full\<close> without a change when 16
  threads are queued, popping yields the oldest element and keeps the order of the rest,
  membership is list membership, and removing a thread from the middle deletes exactly its
  first occurrence; each operation keeps the ring well-formed, wherever the head stands.\<close>

theorem fifo_refines_list:
  assumes "fifo_inv f"
  shows "fifo_list (fst (push_back f x)) =
       (if length (fifo_list f) < QUEUE_CAPACITY then fifo_list f @ [x] else fifo_list f)
    \<and> snd (push_back f x) = (if length (fifo_list f) < QUEUE_CAPACITY then Ok () else Err Full)
    \<and> fifo_list (fst (pop_front f)) = tl (fifo_list f)
    \<and> snd (pop_front f) = (case fifo_list f of [] \<Rightarrow> None | y # _ \<Rightarrow> Some y)
    \<and> (fifo_contains f x \<longleftrightarrow> x \<in> set (fifo_list f))
    \<and> fifo_list (fst (fifo_remove f x)) = remove1 x (fifo_list f)
    \<and> (snd (fifo_remove f x) \<longleftrightarrow> x \<in> set (fifo_list f))
    \<and> fifo_inv (fst (push_back f x)) \<and> fifo_inv (fst (pop_front f)) \<and> fifo_inv (fst (fifo_remove f x))"
  using level_queue.push_list_eq [OF assms] level_queue.pop_list [OF assms]
    level_queue.member_list [OF assms] level_queue.delete_list [OF assms]
    level_queue.push_inv [OF assms]
  by blast

theorem fifo_refines_list_witness:
  "fifo_list (fst (push_back \<lparr>slots = (replicate 16 None)[15 := Some (ThreadId 4)], head = 15, len = 1\<rparr>
      (ThreadId 5))) = [ThreadId 4, ThreadId 5]"
proof -
  let ?f = "\<lparr>slots = (replicate 16 None)[15 := Some (ThreadId 4)], head = 15, len = 1\<rparr> :: fifo"
  have "fifo_inv ?f" "fifo_list ?f = [ThreadId 4]"
    by (simp_all add: fifo_inv_def fifo_list_def QUEUE_CAPACITY_def ring_def)
  with fifo_refines_list [of ?f "ThreadId 5"] show ?thesis by (simp add: QUEUE_CAPACITY_def)
qed

text \<open>C35. The ready queue keeps every thread at most once across all eight levels and its
  operations act on the levels as on lists: \<open>enqueue\<close> appends at the thread's level or
  rejects with \<open>AlreadyQueued\<close> (queued anywhere) or \<open>Full\<close>, leaving the levels
  as they are; \<open>remove\<close> deletes the thread from wherever it is queued, and afterwards it is
  queued nowhere.\<close>

theorem ready_queue_refines_lists:
  assumes "rq_inv q" and "priority_ok p"
  shows "rq_inv (fst (enqueue q x p)) \<and> rq_inv (fst (rq_remove q x))
    \<and> rq_lists (fst (enqueue q x p)) =
        (if snd (enqueue q x p) = Ok ()
         then (rq_lists q)[unat (priority_level p) := rq_lists q ! unat (priority_level p) @ [x]]
         else rq_lists q)
    \<and> snd (enqueue q x p) = (if x \<in> set (concat (rq_lists q)) then Err AlreadyQueued
         else if length (rq_lists q ! unat (priority_level p)) = QUEUE_CAPACITY then Err Full else Ok ())
    \<and> rq_lists (fst (rq_remove q x)) = map (remove1 x) (rq_lists q)
    \<and> snd (rq_remove q x) = rq_contains q x \<and> \<not> rq_contains (fst (rq_remove q x)) x"
proof -
  note E = enqueue_lists [OF assms, of x] and R = rq_remove_lists [OF assms(1), of x]
  have all: "list_all fifo_inv (levels q)" and all': "list_all fifo_inv (levels (fst (rq_remove q x)))"
    using assms(1) R by (simp_all add: rq_inv_def)
  have gone: "x \<notin> set (concat (map (remove1 x) ls))" if "distinct (concat ls)" for ls
    using that by (induction ls) auto
  have "\<not> rq_contains (fst (rq_remove q x)) x"
    using R gone [of "rq_lists q"] assms(1) rq_contains_iff [OF all', of x] by (simp add: rq_inv_def)
  moreover have "snd (rq_remove q x) = rq_contains q x"
    using R rq_contains_iff [OF all, of x] by simp
  ultimately show ?thesis using E R by (auto split: if_splits)
qed

theorem ready_queue_refines_lists_witness:
  "rq_lists (fst (rq_remove ready_queue_new (ThreadId 1))) = map (remove1 (ThreadId 1)) (rq_lists ready_queue_new)
   \<and> snd (enqueue ready_queue_new (ThreadId 1) (Priority 7)) = Ok ()"
proof -
  have lists: "rq_lists ready_queue_new = replicate 8 []"
    by (simp add: rq_lists_def ready_queue_new_def level_queue.list_empty PRIORITY_LEVELS_def)
  have "priority_ok (Priority 7)" by (simp add: priority_ok_def PRIORITY_LEVELS_def)
  from ready_queue_refines_lists [OF rq_inv_new this, of "ThreadId 1"]
  show ?thesis by (simp add: lists QUEUE_CAPACITY_def)
qed

text \<open>C28. Selection is total and correct: on every well-formed queue \<open>select_next\<close>
  returns, and it returns the earliest queued ready thread of the highest level that has a ready thread.
  Exactly the stale entries it passed over are discarded, entries of lower levels and later entries of the
  same level keep their order, and it reports idle only when no queued thread is ready. A thread whose
  state is not Ready is never selected.\<close>

theorem select_next_correct:
  assumes "rq_inv (ready s)"
  shows "\<exists>s' r. select_next s is_ready = (s', r) \<and> rq_inv (ready s') \<and>
    (case r of
       None \<Rightarrow> (\<forall>x\<in>set (concat (rq_lists (ready s))). \<not> is_ready x) \<and> is_idle s'
     | Some (tid, p) \<Rightarrow> is_ready tid \<and> (\<exists>k pre post. k < PRIORITY_LEVELS \<and> p = Priority (of_nat k)
          \<and> rq_lists (ready s) ! k = pre @ tid # post \<and> (\<forall>x\<in>set pre. \<not> is_ready x)
          \<and> (\<forall>j<PRIORITY_LEVELS. k < j \<longrightarrow> (\<forall>x\<in>set (rq_lists (ready s) ! j). \<not> is_ready x))
          \<and> (\<forall>j<PRIORITY_LEVELS. rq_lists (ready s') ! j =
                (if j < k then rq_lists (ready s) ! j else if j = k then post else []))))"
proof -
  obtain s' r where run: "select_next s is_ready = (s', r)" by (cases "select_next s is_ready")
  have "rq_inv (ready s')" and sel: "selected is_ready (rq_lists (ready s)) (rq_lists (ready s')) r"
    using select_next_selected [OF assms run] by auto
  moreover have "concat (rq_lists (ready s')) = [] \<Longrightarrow> is_idle s'"
    by (auto simp: is_idle_def rq_is_empty_def rq_lists_def list_all_iff fifo_list_def)
  ultimately show ?thesis
    using run unfolding selected_def by (auto split: option.splits prod.splits)
qed

theorem select_next_correct_witness:
  "\<exists>s'. select_next (fst (mark_ready scheduler_new (ThreadId 1) (Priority 3))) (\<lambda>_. True)
     = (s', Some (ThreadId 1, Priority 3))"
proof -
  let ?s = "fst (mark_ready scheduler_new (ThreadId 1) (Priority 3))"
  have lists: "rq_lists ready_queue_new = replicate 8 []"
    by (simp add: rq_lists_def ready_queue_new_def level_queue.list_empty PRIORITY_LEVELS_def)
  have "priority_ok (Priority 3)" by (simp add: priority_ok_def PRIORITY_LEVELS_def)
  from enqueue_lists [OF rq_inv_new this, of "ThreadId 1"]
  have inv: "rq_inv (ready ?s)" and ls: "rq_lists (ready ?s) = (replicate 8 [])[3 := [ThreadId 1]]"
    by (simp_all add: lists QUEUE_CAPACITY_def mark_ready_def scheduler_new_def case_prod_beta)
  have nth: "rq_lists (ready ?s) ! k = (if k = 3 then [ThreadId 1] else [])" if "k < 8" for k
    using that by (simp add: ls)
  have mem: "ThreadId 1 \<in> set (concat (rq_lists (ready ?s)))"
    by (simp add: ls numeral_eq_Suc)
  obtain s' r where run: "select_next ?s (\<lambda>_. True) = (s', r)" by (cases "select_next ?s (\<lambda>_. True)")
  have "r = Some (ThreadId 1, Priority 3)"
    using select_next_correct [OF inv, of "\<lambda>_. True"] run mem
    by (auto simp: PRIORITY_LEVELS_def nth Cons_eq_append_conv split: option.splits if_splits)
  with run show ?thesis by blast
qed

end
