(* ===== verification/Ipc.thy ===== *)
theory Ipc
  imports Caps Threads
begin

text \<open>
  Synchronous, bounded, copy-based IPC (\<open>kernel/src/ipc\<close>): messages (\<open>message.rs\<close>),
  endpoints (\<open>endpoint.rs\<close>), the rendezvous operations \<open>send\<close>, \<open>recv\<close>, \<open>cancel\<close> and the
  capability-checked entry points (\<open>mod.rs\<close>).

  The abstract contract is a three-state rendezvous machine (\<open>rv_send\<close>, \<open>rv_recv\<close>,
  \<open>rv_cancel\<close>); the locale \<open>rendezvous\<close> states that an endpoint implementation refines it and
  never panics, and carries the conservation lemma: over any sequence of operations every
  accepted message is delivered exactly once, dropped by a cancellation, or still in flight.
\<close>

section \<open>Messages\<close>

definition MSG_MAX_BYTES :: nat where "MSG_MAX_BYTES = 128"

datatype message_error = TooLarge

record message_header =
  mh_sender :: thread_id
  mh_len :: nat

record message =
  msg_header :: message_header
  msg_payload :: "u8 list"

definition message_new :: "thread_id \<Rightarrow> u8 list \<Rightarrow> (message_error, message) result" where
  "message_new sender data =
     (if length data > MSG_MAX_BYTES then Err TooLarge
      else Ok \<lparr>msg_header = \<lparr>mh_sender = sender, mh_len = length data\<rparr>,
               msg_payload = data @ drop (length data) (replicate MSG_MAX_BYTES 0)\<rparr>)"

definition message_data :: "message \<Rightarrow> u8 list" where
  "message_data m = take (mh_len (msg_header m)) (msg_payload m)"

lemma message_new_Ok_iff:
  "(\<exists>m. message_new s d = Ok m) \<longleftrightarrow> length d \<le> MSG_MAX_BYTES"
  by (auto simp: message_new_def)

lemma message_new_data:
  assumes "message_new s d = Ok m"
  shows "message_data m = d" "mh_sender (msg_header m) = s" "length (msg_payload m) = MSG_MAX_BYTES"
  using assms by (auto simp: message_new_def message_data_def split: if_splits)

section \<open>Endpoints\<close>

datatype endpoint_id = EndpointId u32

datatype endpoint_state = Idle | SenderWaiting thread_id | ReceiverWaiting thread_id

record endpoint =
  ep_id :: endpoint_id
  ep_state :: endpoint_state
  ep_pending :: "message option"

definition endpoint_new :: "endpoint_id \<Rightarrow> endpoint" where
  "endpoint_new i = \<lparr>ep_id = i, ep_state = Idle, ep_pending = None\<rparr>"

definition set_state :: "endpoint \<Rightarrow> endpoint_state \<Rightarrow> endpoint" where
  "set_state ep s = ep\<lparr>ep_state := s\<rparr>"

definition take_pending :: "endpoint \<Rightarrow> endpoint \<times> message option" where
  "take_pending ep = (ep\<lparr>ep_pending := None\<rparr>, ep_pending ep)"

text \<open>\<open>put_pending\<close> carries a \<open>debug_assert\<close>: a build with assertions panics when a message is
  already pending.\<close>

definition put_pending :: "endpoint \<Rightarrow> message \<Rightarrow> endpoint option" where
  "put_pending ep m = (if ep_pending ep \<noteq> None then None else Some (ep\<lparr>ep_pending := Some m\<rparr>))"

section \<open>Rendezvous\<close>

datatype ipc_error = Busy | AlreadyWaiting

datatype send_outcome = SendBlocked | Delivered thread_id message

datatype recv_outcome = RecvBlocked | Received message thread_id

datatype cancel_outcome = NotWaiting | Cancelled

definition send :: "endpoint \<Rightarrow> thread_id \<Rightarrow> message
    \<Rightarrow> (endpoint \<times> (ipc_error, send_outcome) result) option" where
  "send ep sender m =
     (case ep_state ep of
        Idle \<Rightarrow> (case put_pending ep m of
                   None \<Rightarrow> None
                 | Some ep' \<Rightarrow> Some (set_state ep' (SenderWaiting sender), Ok SendBlocked))
      | ReceiverWaiting receiver \<Rightarrow> Some (set_state ep Idle, Ok (Delivered receiver m))
      | SenderWaiting s \<Rightarrow>
          if s = sender then Some (ep, Err AlreadyWaiting) else Some (ep, Err Busy))"

definition recv :: "endpoint \<Rightarrow> thread_id
    \<Rightarrow> (endpoint \<times> (ipc_error, recv_outcome) result) option" where
  "recv ep receiver =
     (case ep_state ep of
        Idle \<Rightarrow> Some (set_state ep (ReceiverWaiting receiver), Ok RecvBlocked)
      | SenderWaiting sender \<Rightarrow>
          (case take_pending ep of
             (ep', Some m) \<Rightarrow> Some (set_state ep' Idle, Ok (Received m sender))
           | (_, None) \<Rightarrow> None)
      | ReceiverWaiting r \<Rightarrow>
          if r = receiver then Some (ep, Err AlreadyWaiting) else Some (ep, Err Busy))"

definition cancel :: "endpoint \<Rightarrow> thread_id \<Rightarrow> endpoint \<times> cancel_outcome" where
  "cancel ep tid =
     (case ep_state ep of
        SenderWaiting sender \<Rightarrow>
          if sender = tid then (set_state (fst (take_pending ep)) Idle, Cancelled) else (ep, NotWaiting)
      | ReceiverWaiting receiver \<Rightarrow>
          if receiver = tid then (set_state ep Idle, Cancelled) else (ep, NotWaiting)
      | Idle \<Rightarrow> (ep, NotWaiting))"

section \<open>Capability-checked entry points\<close>

datatype ipc_cap_error = Cap cap_error | WrongEndpoint | IpcE ipc_error

fun endpoint_id_u32 :: "endpoint_id \<Rightarrow> u32" where
  "endpoint_id_u32 (EndpointId n) = n"

definition send_checked :: "cap_table \<Rightarrow> nat \<Rightarrow> endpoint \<Rightarrow> thread_id \<Rightarrow> message
    \<Rightarrow> (endpoint \<times> (ipc_cap_error, send_outcome) result) option" where
  "send_checked table cap_index ep sender m =
     (case cap_lookup table cap_index Endpoint SEND of
        Err e \<Rightarrow> Some (ep, Err (Cap e))
      | Ok obj \<Rightarrow>
          if object_id obj \<noteq> endpoint_id_u32 (ep_id ep) then Some (ep, Err WrongEndpoint)
          else (case send ep sender m of
                  None \<Rightarrow> None
                | Some (ep', Ok r) \<Rightarrow> Some (ep', Ok r)
                | Some (ep', Err e) \<Rightarrow> Some (ep', Err (IpcE e))))"

definition recv_checked :: "cap_table \<Rightarrow> nat \<Rightarrow> endpoint \<Rightarrow> thread_id
    \<Rightarrow> (endpoint \<times> (ipc_cap_error, recv_outcome) result) option" where
  "recv_checked table cap_index ep receiver =
     (case cap_lookup table cap_index Endpoint RECEIVE of
        Err e \<Rightarrow> Some (ep, Err (Cap e))
      | Ok obj \<Rightarrow>
          if object_id obj \<noteq> endpoint_id_u32 (ep_id ep) then Some (ep, Err WrongEndpoint)
          else (case recv ep receiver of
                  None \<Rightarrow> None
                | Some (ep', Ok r) \<Rightarrow> Some (ep', Ok r)
                | Some (ep', Err e) \<Rightarrow> Some (ep', Err (IpcE e))))"

section \<open>The abstract rendezvous machine\<close>

datatype rv_state = Nobody | SenderParked thread_id message | ReceiverParked thread_id

fun rv_send :: "rv_state \<Rightarrow> thread_id \<Rightarrow> message \<Rightarrow> rv_state \<times> (ipc_error, send_outcome) result" where
  "rv_send Nobody t m = (SenderParked t m, Ok SendBlocked)"
| "rv_send (ReceiverParked r) t m = (Nobody, Ok (Delivered r m))"
| "rv_send (SenderParked s n) t m = (SenderParked s n, Err (if s = t then AlreadyWaiting else Busy))"

fun rv_recv :: "rv_state \<Rightarrow> thread_id \<Rightarrow> rv_state \<times> (ipc_error, recv_outcome) result" where
  "rv_recv Nobody t = (ReceiverParked t, Ok RecvBlocked)"
| "rv_recv (SenderParked s m) t = (Nobody, Ok (Received m s))"
| "rv_recv (ReceiverParked r) t = (ReceiverParked r, Err (if r = t then AlreadyWaiting else Busy))"

fun rv_cancel :: "rv_state \<Rightarrow> thread_id \<Rightarrow> rv_state \<times> cancel_outcome" where
  "rv_cancel Nobody t = (Nobody, NotWaiting)"
| "rv_cancel (SenderParked s m) t = (if s = t then (Nobody, Cancelled) else (SenderParked s m, NotWaiting))"
| "rv_cancel (ReceiverParked r) t = (if r = t then (Nobody, Cancelled) else (ReceiverParked r, NotWaiting))"

datatype ipc_op = SendOp thread_id message | RecvOp thread_id | CancelOp thread_id

text \<open>What becomes of a message: it reaches a receiver or is dropped by a cancellation.\<close>

datatype fate = DeliveredTo thread_id | DroppedFrom thread_id

record ipc_log =
  accepted :: "message list"
  settled :: "(message \<times> fate) list"

fun in_flight :: "rv_state \<Rightarrow> message list" where
  "in_flight (SenderParked s m) = [m]"
| "in_flight _ = []"

text \<open>One operation and its entry in the log, computed from the results the operation returns
  (and, for a cancellation, from the message the endpoint held before).\<close>

fun log_send :: "message \<Rightarrow> (ipc_error, send_outcome) result \<Rightarrow> ipc_log \<Rightarrow> ipc_log" where
  "log_send m (Ok SendBlocked) l = l\<lparr>accepted := accepted l @ [m]\<rparr>"
| "log_send m (Ok (Delivered r m')) l =
     l\<lparr>accepted := accepted l @ [m], settled := settled l @ [(m', DeliveredTo r)]\<rparr>"
| "log_send m (Err _) l = l"

fun log_recv :: "thread_id \<Rightarrow> (ipc_error, recv_outcome) result \<Rightarrow> ipc_log \<Rightarrow> ipc_log" where
  "log_recv t (Ok (Received m s)) l = l\<lparr>settled := settled l @ [(m, DeliveredTo t)]\<rparr>"
| "log_recv t _ l = l"

definition log_cancel :: "thread_id \<Rightarrow> message list \<Rightarrow> cancel_outcome \<Rightarrow> ipc_log \<Rightarrow> ipc_log" where
  "log_cancel t kept r l =
     (if r = Cancelled then l\<lparr>settled := settled l @ map (\<lambda>m. (m, DroppedFrom t)) kept\<rparr> else l)"

fun ipc_step ::
  "('e \<Rightarrow> thread_id \<Rightarrow> message \<Rightarrow> ('e \<times> (ipc_error, send_outcome) result) option)
   \<Rightarrow> ('e \<Rightarrow> thread_id \<Rightarrow> ('e \<times> (ipc_error, recv_outcome) result) option)
   \<Rightarrow> ('e \<Rightarrow> thread_id \<Rightarrow> 'e \<times> cancel_outcome) \<Rightarrow> ('e \<Rightarrow> message list)
   \<Rightarrow> ipc_op \<Rightarrow> 'e \<times> ipc_log \<Rightarrow> ('e \<times> ipc_log) option" where
  "ipc_step snd_op rcv_op cnl_op kept (SendOp t m) (e, l) =
     map_option (\<lambda>(e', r). (e', log_send m r l)) (snd_op e t m)"
| "ipc_step snd_op rcv_op cnl_op kept (RecvOp t) (e, l) =
     map_option (\<lambda>(e', r). (e', log_recv t r l)) (rcv_op e t)"
| "ipc_step snd_op rcv_op cnl_op kept (CancelOp t) (e, l) =
     (case cnl_op e t of (e', r) \<Rightarrow> Some (e', log_cancel t (kept e) r l))"

fun ipc_run where
  "ipc_run snd_op rcv_op cnl_op kept [] s = Some s"
| "ipc_run snd_op rcv_op cnl_op kept (op # ops) s =
     (case ipc_step snd_op rcv_op cnl_op kept op s of
        None \<Rightarrow> None
      | Some s' \<Rightarrow> ipc_run snd_op rcv_op cnl_op kept ops s')"

locale rendezvous =
  fixes new :: 'e
    and snd_op :: "'e \<Rightarrow> thread_id \<Rightarrow> message \<Rightarrow> ('e \<times> (ipc_error, send_outcome) result) option"
    and rcv_op :: "'e \<Rightarrow> thread_id \<Rightarrow> ('e \<times> (ipc_error, recv_outcome) result) option"
    and cnl_op :: "'e \<Rightarrow> thread_id \<Rightarrow> 'e \<times> cancel_outcome"
    and kept :: "'e \<Rightarrow> message list"
    and inv :: "'e \<Rightarrow> bool"
    and view :: "'e \<Rightarrow> rv_state"
  assumes new_inv: "inv new" and new_view: "view new = Nobody"
    and kept_view: "inv e \<Longrightarrow> kept e = in_flight (view e)"
    and send_refines: "inv e \<Longrightarrow> \<exists>e' r. snd_op e t m = Some (e', r) \<and> inv e' \<and> (view e', r) = rv_send (view e) t m"
    and recv_refines: "inv e \<Longrightarrow> \<exists>e' r. rcv_op e t = Some (e', r) \<and> inv e' \<and> (view e', r) = rv_recv (view e) t"
    and cancel_refines: "inv e \<Longrightarrow> \<exists>e' r. cnl_op e t = (e', r) \<and> inv e' \<and> (view e', r) = rv_cancel (view e) t"
begin

definition conserved :: "'e \<Rightarrow> ipc_log \<Rightarrow> bool" where
  "conserved e l \<longleftrightarrow> accepted l = map fst (settled l) @ kept e"

lemma step_conserves:
  assumes inv: "inv e" and c: "conserved e l"
  shows "\<exists>e' l'. ipc_step snd_op rcv_op cnl_op kept op (e, l) = Some (e', l') \<and> inv e' \<and> conserved e' l'"
proof (cases op)
  case (SendOp t m)
  from send_refines [OF inv, of t m] obtain e' r where
    "snd_op e t m = Some (e', r)" "inv e'" "(view e', r) = rv_send (view e) t m" by blast
  with SendOp inv c show ?thesis
    by (cases "view e") (auto simp: conserved_def kept_view)
next
  case (RecvOp t)
  from recv_refines [OF inv, of t] obtain e' r where
    "rcv_op e t = Some (e', r)" "inv e'" "(view e', r) = rv_recv (view e) t" by blast
  with RecvOp inv c show ?thesis
    by (cases "view e") (auto simp: conserved_def kept_view)
next
  case (CancelOp t)
  from cancel_refines [OF inv, of t] obtain e' r where
    "cnl_op e t = (e', r)" "inv e'" "(view e', r) = rv_cancel (view e) t" by blast
  with CancelOp inv c show ?thesis
    by (cases "view e") (auto simp: conserved_def kept_view log_cancel_def split: if_splits)
qed

lemma run_conserves:
  assumes "inv e" "conserved e l"
  shows "\<exists>e' l'. ipc_run snd_op rcv_op cnl_op kept ops (e, l) = Some (e', l') \<and> inv e' \<and> conserved e' l'"
  using assms
proof (induction ops arbitrary: e l)
  case (Cons op ops)
  from step_conserves [OF Cons.prems, of op] obtain e' l' where
    "ipc_step snd_op rcv_op cnl_op kept op (e, l) = Some (e', l')" "inv e'" "conserved e' l'" by blast
  with Cons.IH [of e' l'] show ?case by simp
qed simp

lemma run_from_new:
  "\<exists>e l. ipc_run snd_op rcv_op cnl_op kept ops (new, \<lparr>accepted = [], settled = []\<rparr>) = Some (e, l)
     \<and> inv e \<and> accepted l = map fst (settled l) @ kept e \<and> length (kept e) \<le> 1"
proof -
  have "conserved new \<lparr>accepted = [], settled = []\<rparr>"
    by (simp add: conserved_def kept_view [OF new_inv] new_view)
  from run_conserves [OF new_inv this, of ops] obtain e l where
    "ipc_run snd_op rcv_op cnl_op kept ops (new, \<lparr>accepted = [], settled = []\<rparr>) = Some (e, l)"
    "inv e" "conserved e l" by blast
  moreover have "length (in_flight v) \<le> 1" for v by (cases v) simp_all
  ultimately show ?thesis by (auto simp: conserved_def kept_view)
qed

lemma send_then_recv:
  assumes "inv e" "view e = Nobody"
  shows "\<exists>e1 e2. snd_op e s m = Some (e1, Ok SendBlocked) \<and> rcv_op e1 r = Some (e2, Ok (Received m s))
     \<and> inv e2 \<and> view e2 = Nobody"
  using send_refines [OF assms(1), of s m] recv_refines assms(2) by fastforce

lemma recv_then_send:
  assumes "inv e" "view e = Nobody"
  shows "\<exists>e1 e2. rcv_op e r = Some (e1, Ok RecvBlocked) \<and> snd_op e1 s m = Some (e2, Ok (Delivered r m))
     \<and> inv e2 \<and> view e2 = Nobody"
  using recv_refines [OF assms(1), of r] send_refines assms(2) by fastforce

end

section \<open>The endpoint implements the rendezvous machine\<close>

definition endpoint_inv :: "endpoint \<Rightarrow> bool" where
  "endpoint_inv ep \<longleftrightarrow> (case ep_state ep of SenderWaiting _ \<Rightarrow> ep_pending ep \<noteq> None | _ \<Rightarrow> ep_pending ep = None)"

definition endpoint_view :: "endpoint \<Rightarrow> rv_state" where
  "endpoint_view ep = (case ep_state ep of
      Idle \<Rightarrow> Nobody
    | SenderWaiting s \<Rightarrow> SenderParked s (the (ep_pending ep))
    | ReceiverWaiting r \<Rightarrow> ReceiverParked r)"

fun pending_list :: "endpoint \<Rightarrow> message list" where
  "pending_list ep = (case ep_pending ep of None \<Rightarrow> [] | Some m \<Rightarrow> [m])"

lemmas endpoint_ops [ax_defs] =
  send_def recv_def cancel_def set_state_def take_pending_def put_pending_def

interpretation host_ep: rendezvous "endpoint_new i" send recv cancel pending_list endpoint_inv endpoint_view
  by unfold_locales
    (auto simp: endpoint_ops endpoint_inv_def endpoint_view_def endpoint_new_def
      split: endpoint_state.splits option.splits)

lemma endpoint_ops_id:
  "send ep t m = Some (ep', r) \<Longrightarrow> ep_id ep' = ep_id ep"
  "recv ep t = Some (ep'', r') \<Longrightarrow> ep_id ep'' = ep_id ep"
  by (auto simp: endpoint_ops split: endpoint_state.splits option.splits if_splits)

section \<open>Properties\<close>

text \<open>C13. Conservation of messages: for every sequence of send, receive and cancel operations
  on a fresh endpoint, no operation panics (neither the pending-message assertion nor the
  kernel invariant of \<open>recv\<close> is ever violated), and the accepted messages are, in order,
  exactly the messages that were delivered to a receiver or dropped by a cancellation, followed
  by the at most one message still in flight. No message is lost, duplicated, reordered or
  invented.\<close>

theorem ipc_messages_conserved:
  "\<exists>ep l. ipc_run send recv cancel pending_list ops (endpoint_new i, \<lparr>accepted = [], settled = []\<rparr>) = Some (ep, l)
     \<and> endpoint_inv ep
     \<and> accepted l = map fst (settled l) @ (case ep_pending ep of None \<Rightarrow> [] | Some m \<Rightarrow> [m])"
  using host_ep.run_from_new [of ops i] by auto

text \<open>Rendezvous round trip: a message built from any payload of at most 128 bytes and sent
  on an idle endpoint is received with exactly those bytes and the kernel-written sender,
  whether the sender or the receiver arrives first, and the endpoint is idle again afterwards;
  a longer payload is rejected before anything is built.\<close>

theorem ipc_round_trip:
  assumes "endpoint_inv ep" "ep_state ep = Idle" "length data \<le> MSG_MAX_BYTES"
  shows "\<exists>m. message_new s data = Ok m \<and> message_data m = data \<and> mh_sender (msg_header m) = s
    \<and> (\<exists>ep1 ep2. send ep s m = Some (ep1, Ok SendBlocked)
         \<and> recv ep1 r = Some (ep2, Ok (Received m s)) \<and> endpoint_inv ep2 \<and> ep_state ep2 = Idle)
    \<and> (\<exists>ep1 ep2. recv ep r = Some (ep1, Ok RecvBlocked)
         \<and> send ep1 s m = Some (ep2, Ok (Delivered r m)) \<and> endpoint_inv ep2 \<and> ep_state ep2 = Idle)"
proof -
  obtain m where m: "message_new s data = Ok m" using message_new_Ok_iff assms(3) by blast
  have view: "endpoint_view ep = Nobody" using assms(2) by (simp add: endpoint_view_def)
  have idle: "ep_state e = Idle" if "endpoint_view e = Nobody" for e
    using that by (auto simp: endpoint_view_def split: endpoint_state.splits)
  show ?thesis
    using host_ep.send_then_recv [OF assms(1) view, of s m r] host_ep.recv_then_send [OF assms(1) view, of r s m]
      message_new_data [OF m] m idle by blast
qed

theorem ipc_round_trip_witness:
  "\<exists>m. message_new (ThreadId 1) [104, 105] = Ok m \<and> message_data m = [104, 105]
     \<and> mh_sender (msg_header m) = ThreadId 1
     \<and> (\<exists>ep1 ep2. send (endpoint_new (EndpointId 0)) (ThreadId 1) m = Some (ep1, Ok SendBlocked)
         \<and> recv ep1 (ThreadId 2) = Some (ep2, Ok (Received m (ThreadId 1))) \<and> ep_state ep2 = Idle)"
proof -
  have "endpoint_inv (endpoint_new (EndpointId 0))" "ep_state (endpoint_new (EndpointId 0)) = Idle"
    "length [104, 105 :: u8] \<le> MSG_MAX_BYTES"
    by (simp_all add: endpoint_inv_def endpoint_new_def MSG_MAX_BYTES_def)
  from ipc_round_trip [OF this, of "ThreadId 1" "ThreadId 2"] show ?thesis by blast
qed

text \<open>Checked IPC touches the endpoint only under authority: whenever \<open>send_checked\<close>
  (\<open>recv_checked\<close>) changes the endpoint or succeeds, the task's table holds, at the given index,
  a capability for this very endpoint with the Send (Receive) right; and on a well-formed
  endpoint neither call panics.\<close>

theorem checked_ipc_requires_authority:
  assumes "endpoint_inv ep"
  shows "\<exists>ep' r ep'' r'. send_checked t i ep s m = Some (ep', r) \<and> recv_checked t i ep s = Some (ep'', r')
    \<and> ep_id ep' = ep_id ep \<and> ep_id ep'' = ep_id ep
    \<and> (ep' \<noteq> ep \<or> is_ok r \<longrightarrow> (\<exists>c. held t i = Some c \<and> grants c Endpoint SEND
          \<and> object_id (cap_object c) = endpoint_id_u32 (ep_id ep)))
    \<and> (ep'' \<noteq> ep \<or> is_ok r' \<longrightarrow> (\<exists>c. held t i = Some c \<and> grants c Endpoint RECEIVE
          \<and> object_id (cap_object c) = endpoint_id_u32 (ep_id ep)))"
proof -
  obtain es rs where s: "send ep s m = Some (es, rs)" using host_ep.send_refines [OF assms] by blast
  obtain er rr where r: "recv ep s = Some (er, rr)" using host_ep.recv_refines [OF assms] by blast
  note ids = endpoint_ops_id(1) [OF s] endpoint_ops_id(2) [OF r]
  have S: "\<exists>ep' r. send_checked t i ep s m = Some (ep', r) \<and> ep_id ep' = ep_id ep
    \<and> (ep' \<noteq> ep \<or> is_ok r \<longrightarrow> (\<exists>c. held t i = Some c \<and> grants c Endpoint SEND
          \<and> object_id (cap_object c) = endpoint_id_u32 (ep_id ep)))"
    using ids s by (auto simp: send_checked_def cap_lookup_Ok_iff split: result.splits)
  have R: "\<exists>ep' r. recv_checked t i ep s = Some (ep', r) \<and> ep_id ep' = ep_id ep
    \<and> (ep' \<noteq> ep \<or> is_ok r \<longrightarrow> (\<exists>c. held t i = Some c \<and> grants c Endpoint RECEIVE
          \<and> object_id (cap_object c) = endpoint_id_u32 (ep_id ep)))"
    using ids r by (auto simp: recv_checked_def cap_lookup_Ok_iff split: result.splits)
  from S R show ?thesis by blast
qed

theorem checked_ipc_requires_authority_witness:
  "\<exists>c. held (fst (cap_insert cap_table_new 0 (capability_new \<lparr>object_type = Endpoint, object_id = 4\<rparr> SEND))) 0
       = Some c \<and> grants c Endpoint SEND \<and> object_id (cap_object c) = endpoint_id_u32 (EndpointId 4)"
proof -
  let ?ep = "endpoint_new (EndpointId 4)"
  let ?t = "fst (cap_insert cap_table_new 0 (capability_new \<lparr>object_type = Endpoint, object_id = 4\<rparr> SEND))"
  let ?m = "\<lparr>msg_header = \<lparr>mh_sender = ThreadId 1, mh_len = 0\<rparr>, msg_payload = replicate 128 0\<rparr>"
  have inv: "endpoint_inv ?ep" by (simp add: endpoint_inv_def endpoint_new_def)
  have "cap_lookup ?t 0 Endpoint SEND = Ok \<lparr>object_type = Endpoint, object_id = 4\<rparr>"
    by (simp add: cap_table_defs CAP_TABLE_SLOTS_def capability_new_def rights_contains_def)
  then have "\<exists>ep'. send_checked ?t 0 ?ep (ThreadId 1) ?m = Some (ep', Ok SendBlocked)"
    by (simp add: send_checked_def endpoint_new_def endpoint_ops)
  with checked_ipc_requires_authority [OF inv, of ?t 0 "ThreadId 1" ?m] show ?thesis
    by (force simp: endpoint_new_def)
qed

end
