(* ===== verification/Faults.thy ===== *)
theory Faults
  imports Ipc
begin

text \<open>
  Fault handling (\<open>kernel/src/fault\<close>) and the user-space recovery policy
  (\<open>userland/supervisor\<close>): the structured fault event and its lifecycle (\<open>event.rs\<close>), the
  total containment decision (\<open>mod.rs\<close>), the 30-byte wire format, the notification over the
  fault channel and the acknowledgement (\<open>wire.rs\<close>), and the supervisor's decision and poll
  step. The properties follow one fault from the faulting thread to the recovery decision.
\<close>

section \<open>Fault events\<close>

datatype fault_type = IllegalSyscall | InvalidCapability | PageFault | IllegalInstruction
  | WatchdogTimeout | DeadlineMiss | IPCViolation | KernelInvariantViolation

datatype severity = Info | Error | Critical | Fatal

fun fault_severity :: "fault_type \<Rightarrow> severity" where
  "fault_severity IllegalSyscall = Error"
| "fault_severity InvalidCapability = Error"
| "fault_severity PageFault = Error"
| "fault_severity IllegalInstruction = Error"
| "fault_severity WatchdogTimeout = Critical"
| "fault_severity DeadlineMiss = Error"
| "fault_severity IPCViolation = Error"
| "fault_severity KernelInvariantViolation = Fatal"

datatype event_state = Created | Queued | Delivered | Acknowledged

record illegal_event_transition =
  iet_from :: event_state
  iet_to :: event_state

record fault_event =
  fe_event_id :: u64
  fe_fault_type :: fault_type
  fe_severity :: severity
  fe_thread :: thread_id
  fe_pc :: u64
  fe_detail :: u64
  fe_state :: event_state

definition fault_event_new :: "u64 \<Rightarrow> fault_type \<Rightarrow> thread_id \<Rightarrow> u64 \<Rightarrow> u64 \<Rightarrow> fault_event" where
  "fault_event_new event_id ft th pc detail =
     \<lparr>fe_event_id = event_id, fe_fault_type = ft, fe_severity = fault_severity ft, fe_thread = th,
      fe_pc = pc, fe_detail = detail, fe_state = Created\<rparr>"

definition advance :: "fault_event \<Rightarrow> event_state \<Rightarrow> fault_event \<times> (illegal_event_transition, unit) result" where
  "advance e to =
     (if (fe_state e, to) \<in> {(Created, Queued), (Queued, Delivered), (Delivered, Acknowledged)}
      then (e\<lparr>fe_state := to\<rparr>, Ok ())
      else (e, Err \<lparr>iet_from = fe_state e, iet_to = to\<rparr>))"

section \<open>Containment\<close>

datatype fault_scope = User thread | Kernel

datatype fault_outcome = Contained fault_event | KernelPanic fault_event

text \<open>\<open>FaultScope::User\<close> borrows the thread mutably: the scope is returned with the thread as
  the handler leaves it.\<close>

fun handle :: "u64 \<Rightarrow> fault_type \<Rightarrow> fault_scope \<Rightarrow> u64 \<Rightarrow> u64 \<Rightarrow> fault_scope \<times> fault_outcome" where
  "handle event_id ft Kernel pc detail =
     (Kernel, KernelPanic (fault_event_new event_id KernelInvariantViolation (ThreadId 0) pc detail))"
| "handle event_id ft (User th) pc detail =
     (if ft = KernelInvariantViolation
      then (User th, KernelPanic (fault_event_new event_id ft (th_id th) pc detail))
      else let ev = fault_event_new event_id ft (th_id th) pc detail
           in case transition th Faulted of
                (th', Ok _) \<Rightarrow> (User th', Contained ev)
              | (th', Err _) \<Rightarrow> (User th', KernelPanic ev))"

section \<open>The wire format\<close>

definition KERNEL_SENDER :: thread_id where "KERNEL_SENDER = ThreadId 0"
definition FAULT_WIRE_BYTES :: nat where "FAULT_WIRE_BYTES = 30"

datatype recovery_decision = Kill | Restart | Suspend | Quarantine | Escalate

fun default_decision :: "fault_type \<Rightarrow> recovery_decision option" where
  "default_decision IllegalSyscall = Some Kill"
| "default_decision InvalidCapability = Some Escalate"
| "default_decision PageFault = Some Kill"
| "default_decision IllegalInstruction = Some Kill"
| "default_decision WatchdogTimeout = Some Restart"
| "default_decision DeadlineMiss = Some Escalate"
| "default_decision IPCViolation = Some Kill"
| "default_decision KernelInvariantViolation = None"

definition is_valid_recovery :: "fault_type \<Rightarrow> recovery_decision \<Rightarrow> bool" where
  "is_valid_recovery ft d \<longleftrightarrow> ft \<noteq> KernelInvariantViolation"

datatype notify_outcome = NotifyDelivered | NotifyQueued | ChannelFull

fun fault_type_to_u8 :: "fault_type \<Rightarrow> u8" where
  "fault_type_to_u8 IllegalSyscall = 0"
| "fault_type_to_u8 InvalidCapability = 1"
| "fault_type_to_u8 PageFault = 2"
| "fault_type_to_u8 IllegalInstruction = 3"
| "fault_type_to_u8 WatchdogTimeout = 4"
| "fault_type_to_u8 DeadlineMiss = 5"
| "fault_type_to_u8 IPCViolation = 6"
| "fault_type_to_u8 KernelInvariantViolation = 7"

definition fault_type_from_u8 :: "u8 \<Rightarrow> fault_type option" where
  "fault_type_from_u8 v =
     (if v = 0 then Some IllegalSyscall else if v = 1 then Some InvalidCapability
      else if v = 2 then Some PageFault else if v = 3 then Some IllegalInstruction
      else if v = 4 then Some WatchdogTimeout else if v = 5 then Some DeadlineMiss
      else if v = 6 then Some IPCViolation else if v = 7 then Some KernelInvariantViolation
      else None)"

text \<open>\<open>severity as u8\<close>: the discriminant in declaration order.\<close>

fun severity_u8 :: "severity \<Rightarrow> u8" where
  "severity_u8 Info = 0"
| "severity_u8 Error = 1"
| "severity_u8 Critical = 2"
| "severity_u8 Fatal = 3"

text \<open>The buffer that \<open>encode\<close> fills slice by slice; the slices tile it.\<close>

definition wire_bytes :: "u64 \<Rightarrow> fault_type \<Rightarrow> severity \<Rightarrow> thread_id \<Rightarrow> u64 \<Rightarrow> u64 \<Rightarrow> u8 list" where
  "wire_bytes i ft sev th pc detail =
     le_bytes 8 i @ [fault_type_to_u8 ft, severity_u8 sev] @ le_bytes 4 (as_u32 th)
       @ le_bytes 8 pc @ le_bytes 8 detail"

definition encode :: "fault_event \<Rightarrow> message option" where
  "encode e =
     (case message_new KERNEL_SENDER (wire_bytes (fe_event_id e) (fe_fault_type e) (fe_severity e)
             (fe_thread e) (fe_pc e) (fe_detail e)) of
        Ok m \<Rightarrow> Some m | Err _ \<Rightarrow> None)"

record fault_report =
  fr_event_id :: u64
  fr_fault_type :: fault_type
  fr_severity :: severity
  fr_thread :: thread_id
  fr_pc :: u64
  fr_detail :: u64

datatype decode_error = WrongLength | UnknownFaultType | SeverityMismatch | ForgedSender

definition slice :: "nat \<Rightarrow> nat \<Rightarrow> 'a list \<Rightarrow> 'a list" where
  "slice i j xs = take (j - i) (drop i xs)"

definition decode :: "message \<Rightarrow> (decode_error, fault_report) result" where
  "decode m =
     (if mh_sender (msg_header m) \<noteq> KERNEL_SENDER then Err ForgedSender
      else let data = message_data m in
        if length data \<noteq> FAULT_WIRE_BYTES then Err WrongLength
        else case fault_type_from_u8 (data ! 8) of
          None \<Rightarrow> Err UnknownFaultType
        | Some ft \<Rightarrow>
            if data ! 9 \<noteq> severity_u8 (fault_severity ft) then Err SeverityMismatch
            else Ok \<lparr>fr_event_id = from_le_bytes (slice 0 8 data), fr_fault_type = ft,
                     fr_severity = fault_severity ft,
                     fr_thread = ThreadId (from_le_bytes (slice 10 14 data)),
                     fr_pc = from_le_bytes (slice 14 22 data),
                     fr_detail = from_le_bytes (slice 22 30 data)\<rparr>)"

section \<open>Notification and acknowledgement\<close>

text \<open>\<open>None\<close> is a panic: the message does not fit, the rendezvous model panics, or an
  \<open>expect\<close> on the event lifecycle fails.\<close>

definition notify_supervisor :: "endpoint \<Rightarrow> fault_event \<Rightarrow> (endpoint \<times> fault_event \<times> notify_outcome) option" where
  "notify_supervisor channel e =
     (case encode e of
        None \<Rightarrow> None
      | Some m \<Rightarrow>
          (case send channel KERNEL_SENDER m of
             None \<Rightarrow> None
           | Some (ch, Ok (Ipc.Delivered _ _)) \<Rightarrow>
               (case advance e Queued of
                  (_, Err _) \<Rightarrow> None
                | (e1, Ok _) \<Rightarrow>
                    (case advance e1 Delivered of
                       (_, Err _) \<Rightarrow> None
                     | (e2, Ok _) \<Rightarrow> Some (ch, e2, NotifyDelivered)))
           | Some (ch, Ok SendBlocked) \<Rightarrow>
               (case advance e Queued of
                  (_, Err _) \<Rightarrow> None
                | (e1, Ok _) \<Rightarrow> Some (ch, e1, NotifyQueued))
           | Some (ch, Err _) \<Rightarrow> Some (ch, e, ChannelFull)))"

datatype ack_error = InvalidDecision | NotPending

definition acknowledge :: "fault_event \<Rightarrow> recovery_decision
    \<Rightarrow> (fault_event \<times> (ack_error, recovery_decision) result) option" where
  "acknowledge e d =
     (if \<not> is_valid_recovery (fe_fault_type e) d then Some (e, Err InvalidDecision)
      else if fe_state e \<noteq> Delivered then Some (e, Err NotPending)
      else case advance e Acknowledged of
        (e', Ok _) \<Rightarrow> Some (e', Ok d)
      | (_, Err _) \<Rightarrow> None)"

section \<open>The supervisor service\<close>

definition decide :: "fault_report \<Rightarrow> recovery_decision" where
  "decide r =
     (case (fr_fault_type r, fr_severity r) of
        (WatchdogTimeout, _) \<Rightarrow> Restart
      | (DeadlineMiss, Critical) \<Rightarrow> Restart
      | (DeadlineMiss, _) \<Rightarrow> Escalate
      | (InvalidCapability, Critical) \<Rightarrow> Quarantine
      | (InvalidCapability, _) \<Rightarrow> Escalate
      | (IllegalSyscall, _) \<Rightarrow> Kill
      | (PageFault, _) \<Rightarrow> Kill
      | (IllegalInstruction, _) \<Rightarrow> Kill
      | (IPCViolation, _) \<Rightarrow> Kill
      | (KernelInvariantViolation, _) \<Rightarrow> Escalate)"

datatype poll_error = Denied | NothingPending | BadReport decode_error

definition poll_fault_channel :: "cap_table \<Rightarrow> nat \<Rightarrow> endpoint \<Rightarrow> thread_id
    \<Rightarrow> (endpoint \<times> (poll_error, fault_report \<times> recovery_decision) result) option" where
  "poll_fault_channel table cap_index channel supervisor_tid =
     (case recv_checked table cap_index channel supervisor_tid of
        None \<Rightarrow> None
      | Some (ch, Err (Cap _)) \<Rightarrow> Some (ch, Err Denied)
      | Some (ch, Err WrongEndpoint) \<Rightarrow> Some (ch, Err Denied)
      | Some (ch, Err (IpcE _)) \<Rightarrow> Some (ch, Err NothingPending)
      | Some (ch, Ok RecvBlocked) \<Rightarrow> Some (ch, Err NothingPending)
      | Some (ch, Ok (Received m _)) \<Rightarrow>
          (case decode m of
             Err e \<Rightarrow> Some (ch, Err (BadReport e))
           | Ok report \<Rightarrow> Some (ch, Ok (report, decide report))))"

section \<open>Lemmas\<close>

lemma fault_type_u8_round_trip: "fault_type_from_u8 (fault_type_to_u8 ft) = Some ft"
  by (cases ft) (simp_all add: fault_type_from_u8_def)

lemma fault_type_from_u8_Some: "fault_type_from_u8 v = Some ft \<Longrightarrow> v = fault_type_to_u8 ft"
  by (auto simp: fault_type_from_u8_def split: if_splits)

lemma length_wire_bytes [simp]: "length (wire_bytes i ft sev th pc d) = 30"
  by (simp add: wire_bytes_def)

lemma wire_bytes_fields:
  "wire_bytes i ft sev th pc d ! 8 = fault_type_to_u8 ft"
  "wire_bytes i ft sev th pc d ! 9 = severity_u8 sev"
  "slice 0 8 (wire_bytes i ft sev th pc d) = le_bytes 8 i"
  "slice 10 14 (wire_bytes i ft sev th pc d) = le_bytes 4 (as_u32 th)"
  "slice 14 22 (wire_bytes i ft sev th pc d) = le_bytes 8 pc"
  "slice 22 30 (wire_bytes i ft sev th pc d) = le_bytes 8 d"
  by (simp_all add: wire_bytes_def slice_def nth_append)

definition report_wire :: "fault_report \<Rightarrow> u8 list" where
  "report_wire r = wire_bytes (fr_event_id r) (fr_fault_type r) (fr_severity r) (fr_thread r) (fr_pc r) (fr_detail r)"

definition event_report :: "fault_event \<Rightarrow> fault_report" where
  "event_report e = \<lparr>fr_event_id = fe_event_id e, fr_fault_type = fe_fault_type e, fr_severity = fe_severity e,
     fr_thread = fe_thread e, fr_pc = fe_pc e, fr_detail = fe_detail e\<rparr>"

lemma decode_wire:
  assumes "mh_sender (msg_header m) = KERNEL_SENDER" "message_data m = report_wire r"
    and "fr_severity r = fault_severity (fr_fault_type r)"
  shows "decode m = Ok r"
proof -
  obtain t where t: "fr_thread r = ThreadId t" by (cases "fr_thread r")
  show ?thesis
    using assms t
    by (simp add: decode_def report_wire_def wire_bytes_fields fault_type_u8_round_trip FAULT_WIRE_BYTES_def
        from_le_bytes_le_bytes)
qed

lemma slices_tile:
  assumes "length xs = 30"
  shows "xs = slice 0 8 xs @ [xs ! 8, xs ! 9] @ slice 10 14 xs @ slice 14 22 xs @ slice 22 30 xs"
proof (rule nth_equalityI)
  fix i assume "i < length xs"
  with assms show "xs ! i = (slice 0 8 xs @ [xs ! 8, xs ! 9] @ slice 10 14 xs @ slice 14 22 xs @ slice 22 30 xs) ! i"
    by (auto simp: slice_def nth_append nth_Cons' not_less intro!: arg_cong [of _ _ "(!) xs"])
qed (simp add: assms slice_def)

lemma decode_Ok_wire:
  assumes "decode m = Ok r"
  shows "mh_sender (msg_header m) = KERNEL_SENDER \<and> message_data m = report_wire r
    \<and> fr_severity r = fault_severity (fr_fault_type r)"
proof -
  let ?d = "message_data m"
  from assms obtain ft where sender: "mh_sender (msg_header m) = KERNEL_SENDER" and len: "length ?d = 30"
    and ft: "?d ! 8 = fault_type_to_u8 ft" and sev: "?d ! 9 = severity_u8 (fault_severity ft)"
    and r: "r = \<lparr>fr_event_id = from_le_bytes (slice 0 8 ?d), fr_fault_type = ft, fr_severity = fault_severity ft,
      fr_thread = ThreadId (from_le_bytes (slice 10 14 ?d)), fr_pc = from_le_bytes (slice 14 22 ?d),
      fr_detail = from_le_bytes (slice 22 30 ?d)\<rparr>"
    by (auto simp: decode_def Let_def FAULT_WIRE_BYTES_def dest: fault_type_from_u8_Some
        split: if_splits option.splits)
  have l: "length (slice 0 8 ?d) = 8" "length (slice 10 14 ?d) = 4" "length (slice 14 22 ?d) = 8"
      "length (slice 22 30 ?d) = 8" by (simp_all add: slice_def len)
  have "report_wire r = slice 0 8 ?d @ [?d ! 8, ?d ! 9] @ slice 10 14 ?d @ slice 14 22 ?d @ slice 22 30 ?d"
    using le_bytes_from_le_bytes [of "slice 0 8 ?d", where 'w = 64] le_bytes_from_le_bytes [of "slice 10 14 ?d", where 'w = 32]
      le_bytes_from_le_bytes [of "slice 14 22 ?d", where 'w = 64] le_bytes_from_le_bytes [of "slice 22 30 ?d", where 'w = 64]
    by (simp add: report_wire_def wire_bytes_def r ft sev l)
  with slices_tile [OF len] sender r show ?thesis by simp
qed

lemma encode_Some:
  "\<exists>m. encode e = Some m \<and> mh_sender (msg_header m) = KERNEL_SENDER \<and> message_data m = report_wire (event_report e)"
proof -
  let ?w = "wire_bytes (fe_event_id e) (fe_fault_type e) (fe_severity e) (fe_thread e) (fe_pc e) (fe_detail e)"
  obtain m where m: "message_new KERNEL_SENDER ?w = Ok m"
    using message_new_Ok_iff [of KERNEL_SENDER ?w] by (auto simp: MSG_MAX_BYTES_def)
  with message_new_data [OF m] show ?thesis by (simp add: encode_def report_wire_def event_report_def)
qed

section \<open>Properties\<close>

text \<open>C37. Wire format round trip and strictness: every fault event with its derived severity is
  encoded without a panic into a message that decodes to exactly the reported fields, and a
  message decodes successfully only if the kernel sent it and its bytes are the canonical
  encoding of the decoded report, with the severity that belongs to the fault type. So distinct
  reports have distinct encodings and a forged or corrupted message is rejected.\<close>

theorem fault_wire_round_trip:
  "(\<forall>e. fe_severity e = fault_severity (fe_fault_type e) \<longrightarrow>
      (\<exists>m. encode e = Some m \<and> decode m = Ok (event_report e)))
   \<and> (\<forall>m r. decode m = Ok r \<longleftrightarrow> mh_sender (msg_header m) = KERNEL_SENDER \<and> message_data m = report_wire r
        \<and> fr_severity r = fault_severity (fr_fault_type r))"
proof (intro conjI allI impI)
  fix e :: fault_event
  assume sev: "fe_severity e = fault_severity (fe_fault_type e)"
  obtain m where m: "encode e = Some m" "mh_sender (msg_header m) = KERNEL_SENDER"
    "message_data m = report_wire (event_report e)" using encode_Some by blast
  have "decode m = Ok (event_report e)"
    using m sev by (intro decode_wire) (simp_all add: event_report_def)
  with m show "\<exists>m. encode e = Some m \<and> decode m = Ok (event_report e)" by blast
next
  fix m r
  show "decode m = Ok r \<longleftrightarrow> mh_sender (msg_header m) = KERNEL_SENDER \<and> message_data m = report_wire r
        \<and> fr_severity r = fault_severity (fr_fault_type r)"
    using decode_wire decode_Ok_wire by blast
qed

theorem fault_wire_round_trip_witness:
  "\<exists>m. encode (fault_event_new 3 PageFault (ThreadId 2) 4096 42) = Some m
     \<and> decode m = Ok \<lparr>fr_event_id = 3, fr_fault_type = PageFault, fr_severity = Error,
          fr_thread = ThreadId 2, fr_pc = 4096, fr_detail = 42\<rparr>"
proof -
  have "fe_severity (fault_event_new 3 PageFault (ThreadId 2) 4096 42)
      = fault_severity (fe_fault_type (fault_event_new 3 PageFault (ThreadId 2) 4096 42))"
    by (simp add: fault_event_new_def)
  with fault_wire_round_trip show ?thesis by (force simp: fault_event_new_def event_report_def)
qed

text \<open>Fault handling is total and contains user faults: a fault of a live user thread other
  than a kernel invariant violation moves exactly that thread to Faulted and continues, with an
  event that carries the thread, the derived severity and the state Created; every other
  combination halts the kernel with a fatal event or leaves the thread untouched, and kernel
  scope always panics with KernelInvariantViolation.\<close>

theorem fault_handling_contains:
  "handle i ft (User th) pc d =
     (if ft \<noteq> KernelInvariantViolation \<and> th_state th \<in> {Ready, Running, Blocked}
      then (User (th\<lparr>th_state := Faulted\<rparr>), Contained (fault_event_new i ft (th_id th) pc d))
      else (User th, KernelPanic (fault_event_new i ft (th_id th) pc d)))
   \<and> (\<exists>ev. handle i ft Kernel pc d = (Kernel, KernelPanic ev)
        \<and> fe_fault_type ev = KernelInvariantViolation \<and> fe_severity ev = Fatal)"
  by (cases "th_state th") (auto simp: transition_def fault_event_new_def)

text \<open>C34. End to end: the fault of a live user thread, reported on an idle fault channel, reaches
  the supervisor that polls with a Receive capability for that channel. The poll returns the
  faulting thread, fault type, program counter and detail unchanged, and the decision is the
  documented default policy for the fault type; a supervisor without that capability gets
  \<open>Denied\<close> and the parked event stays on the channel.\<close>

theorem fault_reaches_supervisor:
  assumes chan: "endpoint_inv ch" "ep_state ch = Idle"
    and user: "ft \<noteq> KernelInvariantViolation" "th_state th \<in> {Ready, Running, Blocked}"
  shows "\<exists>ev ev' ch' d. handle i ft (User th) pc detail = (User (th\<lparr>th_state := Faulted\<rparr>), Contained ev)
     \<and> notify_supervisor ch ev = Some (ch', ev', NotifyQueued) \<and> default_decision ft = Some d
     \<and> (if \<exists>c. held t k = Some c \<and> grants c Endpoint RECEIVE \<and> object_id (cap_object c) = endpoint_id_u32 (ep_id ch)
        then \<exists>ch''. poll_fault_channel t k ch' sv = Some (ch'', Ok (\<lparr>fr_event_id = i, fr_fault_type = ft,
               fr_severity = fault_severity ft, fr_thread = th_id th, fr_pc = pc, fr_detail = detail\<rparr>, d))
               \<and> ep_state ch'' = Idle
        else poll_fault_channel t k ch' sv = Some (ch', Err Denied))"
proof -
  let ?ev = "fault_event_new i ft (th_id th) pc detail"
  let ?r = "\<lparr>fr_event_id = i, fr_fault_type = ft, fr_severity = fault_severity ft,
    fr_thread = th_id th, fr_pc = pc, fr_detail = detail\<rparr>"
  have h: "handle i ft (User th) pc detail = (User (th\<lparr>th_state := Faulted\<rparr>), Contained ?ev)"
    using user by (cases "th_state th") (auto simp: transition_def)
  obtain m where m: "encode ?ev = Some m" "mh_sender (msg_header m) = KERNEL_SENDER"
    "message_data m = report_wire (event_report ?ev)" using encode_Some by blast
  have dec: "decode m = Ok ?r"
    using m by (intro decode_wire) (simp_all add: event_report_def fault_event_new_def)
  have pend: "ep_pending ch = None" using chan by (simp add: endpoint_inv_def)
  let ?ch = "ch\<lparr>ep_pending := Some m, ep_state := SenderWaiting KERNEL_SENDER\<rparr>"
  have n: "notify_supervisor ch ?ev = Some (?ch, ?ev\<lparr>fe_state := Queued\<rparr>, NotifyQueued)"
    using m chan pend by (simp add: notify_supervisor_def endpoint_ops advance_def fault_event_new_def)
  have poll: "(\<exists>c. held t k = Some c \<and> grants c Endpoint RECEIVE \<and> object_id (cap_object c) = endpoint_id_u32 (ep_id ch))
     \<Longrightarrow> poll_fault_channel t k ?ch sv = Some (ch\<lparr>ep_pending := None, ep_state := Idle\<rparr>, Ok (?r, decide ?r))"
    using dec by (auto simp: poll_fault_channel_def recv_checked_def endpoint_ops cap_lookup_Ok_iff
        split: result.splits) (metis cap_lookup_Ok_iff result.distinct(1) result.inject(1))+
  have deny: "\<not> (\<exists>c. held t k = Some c \<and> grants c Endpoint RECEIVE \<and> object_id (cap_object c) = endpoint_id_u32 (ep_id ch))
     \<Longrightarrow> poll_fault_channel t k ?ch sv = Some (?ch, Err Denied)"
    by (auto simp: poll_fault_channel_def recv_checked_def cap_lookup_Ok_iff split: result.splits)
  have d: "default_decision ft = Some (decide ?r)"
    using user(1) by (cases ft) (simp_all add: decide_def)
  show ?thesis
    using h n d poll deny by (intro exI [of _ ?ev] exI [of _ "?ev\<lparr>fe_state := Queued\<rparr>"] exI [of _ ?ch]
        exI [of _ "decide ?r"]) simp
qed

theorem fault_reaches_supervisor_witness:
  "\<exists>ev ev' ch' d. handle 7 PageFault (User (thread_new (ThreadId 2) (AddressSpaceId 2))) 4096 0
        = (User ((thread_new (ThreadId 2) (AddressSpaceId 2))\<lparr>th_state := Faulted\<rparr>), Contained ev)
     \<and> notify_supervisor (endpoint_new (EndpointId 2)) ev = Some (ch', ev', NotifyQueued)
     \<and> default_decision PageFault = Some d
     \<and> (\<exists>ch''. poll_fault_channel
           (fst (cap_insert cap_table_new 0 (capability_new \<lparr>object_type = Endpoint, object_id = 2\<rparr> RECEIVE)))
           0 ch' (ThreadId 1) = Some (ch'', Ok (\<lparr>fr_event_id = 7, fr_fault_type = PageFault,
             fr_severity = Error, fr_thread = ThreadId 2, fr_pc = 4096, fr_detail = 0\<rparr>, d)))"
proof -
  let ?ch = "endpoint_new (EndpointId 2)" and ?th = "thread_new (ThreadId 2) (AddressSpaceId 2)"
  let ?c = "capability_new \<lparr>object_type = Endpoint, object_id = 2\<rparr> RECEIVE"
  let ?t = "fst (cap_insert cap_table_new 0 ?c)"
  have ch: "endpoint_inv ?ch" "ep_state ?ch = Idle" by (simp_all add: endpoint_inv_def endpoint_new_def)
  have th: "PageFault \<noteq> KernelInvariantViolation" "th_state ?th \<in> {Ready, Running, Blocked}"
    by (simp_all add: thread_new_def)
  have "held ?t 0 = Some ?c" by (simp add: held_insert cap_table_inv_new CAP_TABLE_SLOTS_def held_def cap_table_new_def cap_insert_def)
  moreover have "grants ?c Endpoint RECEIVE" "object_id (cap_object ?c) = endpoint_id_u32 (ep_id ?ch)"
    by (simp_all add: capability_new_def grants_def rights_contains_def endpoint_new_def)
  ultimately have auth: "\<exists>c. held ?t 0 = Some c \<and> grants c Endpoint RECEIVE
      \<and> object_id (cap_object c) = endpoint_id_u32 (ep_id ?ch)" by blast
  show ?thesis
    using fault_reaches_supervisor [OF ch th, of 7 4096 0 ?t 0 "ThreadId 1"]
    unfolding if_P [OF auth] by (auto simp: thread_new_def)
qed

text \<open>C38. An event is acknowledged at most once and only after it was handed over: acknowledging
  never panics, succeeds exactly for a legal decision on an event in state Delivered, then moves it to
  Acknowledged, and every further acknowledgement of it is refused with \<open>NotPending\<close>; a
  refusal changes nothing. An event whose message a waiting supervisor got at once can be acknowledged. An
  event that was parked on the channel is refused with \<open>NotPending\<close> until the kernel marks it
  Delivered with \<open>advance\<close>, which is legal then, and is accepted after that; no event of a
  kernel invariant violation is ever accepted.\<close>

theorem fault_acknowledged_once:
  "\<exists>e' r. acknowledge e d = Some (e', r)
     \<and> (is_ok r \<longleftrightarrow> fe_fault_type e \<noteq> KernelInvariantViolation \<and> fe_state e = Delivered)
     \<and> (is_ok r \<longrightarrow> e' = e\<lparr>fe_state := Acknowledged\<rparr> \<and> acknowledge e' d' = Some (e', Err NotPending))
     \<and> (\<not> is_ok r \<longrightarrow> e' = e)
     \<and> (notify_supervisor ch e0 = Some (ch', e, NotifyDelivered) \<and> fe_fault_type e \<noteq> KernelInvariantViolation \<longrightarrow> is_ok r)
     \<and> (notify_supervisor ch e0 = Some (ch', e, NotifyQueued) \<longrightarrow> \<not> is_ok r
          \<and> (if fe_fault_type e = KernelInvariantViolation then r = Err InvalidDecision
             else r = Err NotPending
               \<and> advance e Delivered = (e\<lparr>fe_state := Delivered\<rparr>, Ok ())
               \<and> acknowledge (e\<lparr>fe_state := Delivered\<rparr>) d = Some (e\<lparr>fe_state := Acknowledged\<rparr>, Ok d)))"
proof -
  have "fe_state e = Queued" if "notify_supervisor ch e0 = Some (ch', e, NotifyQueued)"
    using that by (auto simp: notify_supervisor_def advance_def split: option.splits result.splits
        send_outcome.splits prod.splits if_splits)
  moreover have "fe_state e = Delivered" if "notify_supervisor ch e0 = Some (ch', e, NotifyDelivered)"
    using that by (auto simp: notify_supervisor_def advance_def split: option.splits result.splits
        send_outcome.splits prod.splits if_splits)
  ultimately show ?thesis by (auto simp: acknowledge_def is_valid_recovery_def advance_def)
qed

theorem fault_acknowledged_once_witness:
  "let e0 = fault_event_new 1 PageFault (ThreadId 2) 0 0
   in \<exists>ch' e. notify_supervisor (endpoint_new (EndpointId 9)) e0 = Some (ch', e, NotifyQueued)
        \<and> acknowledge e Kill = Some (e, Err NotPending)
        \<and> acknowledge (e\<lparr>fe_state := Delivered\<rparr>) Kill = Some (e\<lparr>fe_state := Acknowledged\<rparr>, Ok Kill)"
proof -
  let ?e0 = "fault_event_new 1 PageFault (ThreadId 2) 0 0" and ?ch = "endpoint_new (EndpointId 9)"
  obtain m where "encode ?e0 = Some m" using encode_Some by blast
  then obtain ch' where n: "notify_supervisor ?ch ?e0 = Some (ch', ?e0\<lparr>fe_state := Queued\<rparr>, NotifyQueued)"
    by (simp add: notify_supervisor_def endpoint_ops endpoint_new_def advance_def fault_event_new_def)
  have "fe_fault_type (?e0\<lparr>fe_state := Queued\<rparr>) \<noteq> KernelInvariantViolation" by (simp add: fault_event_new_def)
  with fault_acknowledged_once [of "?e0\<lparr>fe_state := Queued\<rparr>" Kill Kill ?ch ?e0 ch'] n show ?thesis
    unfolding Let_def by auto
qed

end
