(* ===== verification/Memory_Model.thy ===== *)
theory Memory_Model
  imports Threads
begin

text \<open>
  The memory model (\<open>kernel/src/memory\<close>): typed addresses and the address windows
  (\<open>address.rs\<close>), the lifecycle of a physical frame (\<open>frame.rs\<close>) and the page table model of
  one address space (\<open>pagetable.rs\<close>); and the validated user image descriptor
  (\<open>user/image.rs\<close>).

  A step relation composes the operations on a pool of frames and a family of page tables;
  isolation between address spaces is an invariant of every reachable state.
\<close>

section \<open>Addresses\<close>

definition PAGE_SIZE :: u64 where "PAGE_SIZE = 4096"
definition KERNEL_RANGE_START :: u64 where "KERNEL_RANGE_START = 0x80200000"
definition KERNEL_RANGE_END :: u64 where "KERNEL_RANGE_END = 0x88000000"
definition USER_RANGE_START :: u64 where "USER_RANGE_START = 0x1000"
definition USER_RANGE_END :: u64 where "USER_RANGE_END = 0x40000000"

lemmas address_consts [ax_const] =
  PAGE_SIZE_def KERNEL_RANGE_START_def KERNEL_RANGE_END_def USER_RANGE_START_def USER_RANGE_END_def

datatype virt_addr = VirtAddr u64
datatype phys_addr = PhysAddr u64

fun va_u64 :: "virt_addr \<Rightarrow> u64" where "va_u64 (VirtAddr a) = a"
fun pa_u64 :: "phys_addr \<Rightarrow> u64" where "pa_u64 (PhysAddr a) = a"

definition va_aligned :: "virt_addr \<Rightarrow> bool" where
  "va_aligned v \<longleftrightarrow> is_multiple_of (va_u64 v) PAGE_SIZE"

definition page_base :: "virt_addr \<Rightarrow> virt_addr" where
  "page_base v = VirtAddr (va_u64 v - va_u64 v mod PAGE_SIZE)"

definition is_user :: "virt_addr \<Rightarrow> bool" where
  "is_user v \<longleftrightarrow> va_u64 v \<ge> USER_RANGE_START \<and> va_u64 v < USER_RANGE_END"

definition pa_aligned :: "phys_addr \<Rightarrow> bool" where
  "pa_aligned p \<longleftrightarrow> is_multiple_of (pa_u64 p) PAGE_SIZE"

definition frame_base :: "phys_addr \<Rightarrow> phys_addr" where
  "frame_base p = PhysAddr (pa_u64 p - pa_u64 p mod PAGE_SIZE)"

definition is_kernel :: "phys_addr \<Rightarrow> bool" where
  "is_kernel p \<longleftrightarrow> pa_u64 p \<ge> KERNEL_RANGE_START \<and> pa_u64 p < KERNEL_RANGE_END"

lemma user_kernel_windows_disjoint: "is_user (VirtAddr a) \<Longrightarrow> \<not> is_kernel (PhysAddr a)"
  by (auto simp: is_user_def is_kernel_def address_consts word_le_nat_alt word_less_nat_alt)

lemma page_base_aligned_id: "va_aligned v \<Longrightarrow> page_base v = v"
  by (cases v) (simp add: va_aligned_def page_base_def is_multiple_of_def PAGE_SIZE_def)

section \<open>Physical frames\<close>

datatype frame_owner = FreePool | KernelOwner | SpaceOwner address_space_id

datatype frame_state = Free | Allocated | Mapped | Quarantined

datatype frame_error = NotFree | NotAllocated | FrameNotMapped | InvalidOwner | IsQuarantined | StillMapped

record physical_frame =
  fr_base :: phys_addr
  fr_state :: frame_state
  fr_owner :: frame_owner

definition new_free :: "phys_addr \<Rightarrow> physical_frame" where
  "new_free b = \<lparr>fr_base = b, fr_state = Free, fr_owner = FreePool\<rparr>"

definition allocate :: "physical_frame \<Rightarrow> frame_owner \<Rightarrow> physical_frame \<times> (frame_error, unit) result" where
  "allocate f own =
     (if own = FreePool then (f, Err InvalidOwner)
      else case fr_state f of
        Free \<Rightarrow> (f\<lparr>fr_state := Allocated, fr_owner := own\<rparr>, Ok ())
      | Quarantined \<Rightarrow> (f, Err IsQuarantined)
      | _ \<Rightarrow> (f, Err NotFree))"

definition mark_mapped :: "physical_frame \<Rightarrow> physical_frame \<times> (frame_error, unit) result" where
  "mark_mapped f =
     (case fr_state f of
        Allocated \<Rightarrow> (f\<lparr>fr_state := Mapped\<rparr>, Ok ())
      | Quarantined \<Rightarrow> (f, Err IsQuarantined)
      | _ \<Rightarrow> (f, Err NotAllocated))"

definition mark_unmapped :: "physical_frame \<Rightarrow> physical_frame \<times> (frame_error, unit) result" where
  "mark_unmapped f =
     (case fr_state f of
        Mapped \<Rightarrow> (f\<lparr>fr_state := Allocated\<rparr>, Ok ())
      | Quarantined \<Rightarrow> (f, Err IsQuarantined)
      | _ \<Rightarrow> (f, Err FrameNotMapped))"

definition frame_free :: "physical_frame \<Rightarrow> physical_frame \<times> (frame_error, unit) result" where
  "frame_free f =
     (case fr_state f of
        Allocated \<Rightarrow> (f\<lparr>fr_state := Free, fr_owner := FreePool\<rparr>, Ok ())
      | Mapped \<Rightarrow> (f, Err StillMapped)
      | Quarantined \<Rightarrow> (f, Err IsQuarantined)
      | Free \<Rightarrow> (f, Err NotAllocated))"

definition quarantine :: "physical_frame \<Rightarrow> physical_frame \<times> (frame_error, unit) result" where
  "quarantine f =
     (case fr_state f of
        Allocated \<Rightarrow> (f\<lparr>fr_state := Quarantined\<rparr>, Ok ())
      | Mapped \<Rightarrow> (f\<lparr>fr_state := Quarantined\<rparr>, Ok ())
      | Quarantined \<Rightarrow> (f, Err IsQuarantined)
      | Free \<Rightarrow> (f, Err NotAllocated))"

lemmas frame_ops [ax_defs] =
  allocate_def mark_mapped_def mark_unmapped_def frame_free_def quarantine_def

section \<open>Page tables\<close>

definition MAX_MAPPINGS :: nat where "MAX_MAPPINGS = 64"

record permissions =
  p_read :: bool
  p_write :: bool
  p_execute :: bool
  p_user :: bool
  p_device :: bool

definition user_rx :: permissions where
  "user_rx = \<lparr>p_read = True, p_write = False, p_execute = True, p_user = True, p_device = False\<rparr>"
definition user_rw :: permissions where
  "user_rw = \<lparr>p_read = True, p_write = True, p_execute = False, p_user = True, p_device = False\<rparr>"
definition user_r :: permissions where
  "user_r = \<lparr>p_read = True, p_write = False, p_execute = False, p_user = True, p_device = False\<rparr>"
definition kernel_rw :: permissions where
  "kernel_rw = \<lparr>p_read = True, p_write = True, p_execute = False, p_user = False, p_device = False\<rparr>"
definition kernel_device :: permissions where
  "kernel_device = \<lparr>p_read = True, p_write = True, p_execute = False, p_user = False, p_device = True\<rparr>"

record mapping =
  m_vpage :: virt_addr
  m_frame :: phys_addr
  m_perms :: permissions

datatype map_error = Misaligned | KernelFrameUserMapped | NotOwner | FrameNotMappable | RangeViolation
  | WxViolation | DeviceRuleViolation | InvalidPermissions | AlreadyMapped | TableFull | NotMapped

record page_table =
  pt_owner :: address_space_id
  pt_entries :: "mapping option list"

definition page_table_new :: "address_space_id \<Rightarrow> page_table" where
  "page_table_new own = \<lparr>pt_owner = own, pt_entries = replicate MAX_MAPPINGS None\<rparr>"

definition pt_len :: "page_table \<Rightarrow> nat" where
  "pt_len pt = length (filter (\<lambda>e. e \<noteq> None) (pt_entries pt))"

definition pt_is_empty :: "page_table \<Rightarrow> bool" where
  "pt_is_empty pt = list_all (\<lambda>e. e = None) (pt_entries pt)"

definition pt_lookup :: "page_table \<Rightarrow> virt_addr \<Rightarrow> mapping option" where
  "pt_lookup pt v = find (\<lambda>m. m_vpage m = page_base v) (flatten (pt_entries pt))"

definition validate_perms :: "permissions \<Rightarrow> (map_error, unit) result" where
  "validate_perms p =
     (if \<not> p_read p \<and> \<not> p_write p \<and> \<not> p_execute p then Err InvalidPermissions
      else if p_user p \<and> p_write p \<and> p_execute p then Err WxViolation
      else if p_user p \<and> p_device p then Err DeviceRuleViolation
      else if p_device p \<and> p_execute p then Err DeviceRuleViolation
      else Ok ())"

text \<open>The option is the \<open>expect\<close> on \<open>mark_mapped\<close>.\<close>

definition pt_map :: "page_table \<Rightarrow> virt_addr \<Rightarrow> physical_frame \<Rightarrow> permissions
    \<Rightarrow> (page_table \<times> physical_frame \<times> (map_error, unit) result) option" where
  "pt_map pt v f p =
     (if \<not> va_aligned v \<or> \<not> pa_aligned (fr_base f) then Some (pt, f, Err Misaligned)
      else case validate_perms p of
        Err e \<Rightarrow> Some (pt, f, Err e)
      | Ok _ \<Rightarrow>
        if p_user p \<and> is_kernel (fr_base f) then Some (pt, f, Err KernelFrameUserMapped)
        else if p_user p \<and> \<not> is_user v then Some (pt, f, Err RangeViolation)
        else if \<not> p_user p \<and> is_user v then Some (pt, f, Err RangeViolation)
        else if fr_owner f \<noteq> (if p_user p then SpaceOwner (pt_owner pt) else KernelOwner)
          then Some (pt, f, Err NotOwner)
        else if fr_state f \<noteq> Allocated then Some (pt, f, Err FrameNotMappable)
        else if pt_lookup pt v \<noteq> None then Some (pt, f, Err AlreadyMapped)
        else case find_index (\<lambda>e. e = None) (pt_entries pt) of
          None \<Rightarrow> Some (pt, f, Err TableFull)
        | Some slot \<Rightarrow>
            let pt' = pt\<lparr>pt_entries := (pt_entries pt)[slot := Some \<lparr>m_vpage = v, m_frame = fr_base f, m_perms = p\<rparr>]\<rparr>
            in case mark_mapped f of
                 (f', Ok _) \<Rightarrow> Some (pt', f', Ok ())
               | (_, Err _) \<Rightarrow> None)"

definition pt_unmap :: "page_table \<Rightarrow> virt_addr \<Rightarrow> physical_frame
    \<Rightarrow> page_table \<times> physical_frame \<times> (map_error, unit) result" where
  "pt_unmap pt v f =
     (case find_index (\<lambda>e. case e of Some m \<Rightarrow> m_vpage m = page_base v | None \<Rightarrow> False) (pt_entries pt) of
        None \<Rightarrow> (pt, f, Err NotMapped)
      | Some slot \<Rightarrow>
          if m_frame (the (pt_entries pt ! slot)) \<noteq> fr_base f then (pt, f, Err NotMapped)
          else case mark_unmapped f of
            (f', Err _) \<Rightarrow> (pt, f', Err FrameNotMappable)
          | (f', Ok _) \<Rightarrow> (pt\<lparr>pt_entries := (pt_entries pt)[slot := None]\<rparr>, f', Ok ()))"

section \<open>User images\<close>

datatype image_error = EntryOutsideUserWindow | StackOutsideUserWindow | BadStackGeometry

record user_image =
  ui_entry :: virt_addr
  ui_stack_top :: virt_addr
  ui_stack_size :: u64
  ui_address_space :: address_space_id

definition user_image_new :: "virt_addr \<Rightarrow> virt_addr \<Rightarrow> u64 \<Rightarrow> address_space_id
    \<Rightarrow> (image_error, user_image) result" where
  "user_image_new entry stack_top stack_size asid =
     (if \<not> is_user entry then Err EntryOutsideUserWindow
      else if stack_size = 0 \<or> \<not> is_multiple_of stack_size PAGE_SIZE \<or> \<not> va_aligned stack_top
        then Err BadStackGeometry
      else let top = va_u64 stack_top in
        case checked_sub top stack_size of
          None \<Rightarrow> Err StackOutsideUserWindow
        | Some base \<Rightarrow>
            if \<not> is_user (VirtAddr base) \<or> \<not> is_user (VirtAddr (top - 1)) then Err StackOutsideUserWindow
            else Ok \<lparr>ui_entry = entry, ui_stack_top = stack_top, ui_stack_size = stack_size,
                     ui_address_space = asid\<rparr>)"

section \<open>One page table\<close>

definition mapping_ok :: "mapping \<Rightarrow> bool" where
  "mapping_ok m \<longleftrightarrow> va_aligned (m_vpage m) \<and> pa_aligned (m_frame m) \<and> validate_perms (m_perms m) = Ok ()
     \<and> (p_user (m_perms m) \<longrightarrow> is_user (m_vpage m) \<and> \<not> is_kernel (m_frame m))
     \<and> (\<not> p_user (m_perms m) \<longrightarrow> \<not> is_user (m_vpage m))"

definition expected_owner :: "page_table \<Rightarrow> permissions \<Rightarrow> frame_owner" where
  "expected_owner pt p = (if p_user p then SpaceOwner (pt_owner pt) else KernelOwner)"

definition pt_inv :: "page_table \<Rightarrow> bool" where
  "pt_inv pt \<longleftrightarrow> length (pt_entries pt) = MAX_MAPPINGS \<and> list_all mapping_ok (flatten (pt_entries pt))
     \<and> distinct (map m_vpage (flatten (pt_entries pt)))"

lemma pt_map_Ok:
  assumes "pt_map pt v f p = Some (pt', f', Ok ())"
  shows "\<exists>slot. slot < length (pt_entries pt) \<and> pt_entries pt ! slot = None
    \<and> pt' = pt\<lparr>pt_entries := (pt_entries pt)[slot := Some \<lparr>m_vpage = v, m_frame = fr_base f, m_perms = p\<rparr>]\<rparr>
    \<and> f' = f\<lparr>fr_state := Mapped\<rparr> \<and> fr_state f = Allocated \<and> fr_owner f = expected_owner pt p
    \<and> mapping_ok \<lparr>m_vpage = v, m_frame = fr_base f, m_perms = p\<rparr> \<and> pt_lookup pt v = None"
  using assms
  by (auto simp: pt_map_def mark_mapped_def mapping_ok_def expected_owner_def Let_def
      split: if_splits result.splits option.splits frame_state.splits dest!: find_index_Some)

lemma pt_map_total: "pt_map pt v f p \<noteq> None"
  by (auto simp: pt_map_def mark_mapped_def Let_def split: result.splits option.splits frame_state.splits)

lemma pt_map_Err: "pt_map pt v f p = Some (pt', f', Err e) \<Longrightarrow> pt' = pt \<and> f' = f"
  by (auto simp: pt_map_def mark_mapped_def Let_def
      split: if_splits result.splits option.splits frame_state.splits)

lemma pt_unmap_Ok:
  assumes "pt_unmap pt v f = (pt', f', Ok ())"
  shows "\<exists>slot m. slot < length (pt_entries pt) \<and> pt_entries pt ! slot = Some m \<and> m_vpage m = page_base v
    \<and> m_frame m = fr_base f \<and> fr_state f = Mapped \<and> f' = f\<lparr>fr_state := Allocated\<rparr>
    \<and> pt' = pt\<lparr>pt_entries := (pt_entries pt)[slot := None]\<rparr>"
  using assms
  by (auto simp: pt_unmap_def mark_unmapped_def
      split: if_splits option.splits frame_state.splits dest!: find_index_Some)

lemma pt_unmap_Err: "pt_unmap pt v f = (pt', f', Err e) \<Longrightarrow> pt' = pt \<and> f' = f"
  by (auto simp: pt_unmap_def mark_unmapped_def split: if_splits option.splits frame_state.splits)

lemma pt_inv_new: "pt_inv (page_table_new a)"
proof -
  have "flatten (replicate n None) = ([] :: mapping list)" for n by (induction n) simp_all
  then show ?thesis by (simp add: pt_inv_def page_table_new_def)
qed

lemma pt_lookup_None_iff:
  "va_aligned v \<Longrightarrow> pt_lookup pt v = None \<longleftrightarrow> v \<notin> m_vpage ` set (flatten (pt_entries pt))"
  by (auto simp: pt_lookup_def find_None_iff page_base_aligned_id)

lemma pt_inv_map:
  assumes inv: "pt_inv pt" and run: "pt_map pt v f p = Some (pt', f', Ok ())"
  shows "pt_inv pt'"
proof -
  let ?m = "\<lparr>m_vpage = v, m_frame = fr_base f, m_perms = p\<rparr>"
  from pt_map_Ok [OF run] obtain slot where slot: "slot < length (pt_entries pt)" "pt_entries pt ! slot = None"
    and pt': "pt' = pt\<lparr>pt_entries := (pt_entries pt)[slot := Some ?m]\<rparr>" and ok: "mapping_ok ?m"
    and fresh: "pt_lookup pt v = None" by blast
  have ms: "mset (flatten (pt_entries pt')) = mset (?m # flatten (pt_entries pt))"
    by (simp add: pt' mset_flatten_update [OF slot])
  have "v \<notin> set (map m_vpage (flatten (pt_entries pt)))"
    using fresh ok by (simp add: pt_lookup_None_iff mapping_ok_def)
  then have "distinct (map m_vpage (?m # flatten (pt_entries pt)))"
    using inv by (simp add: pt_inv_def)
  moreover have "mset (map m_vpage (flatten (pt_entries pt'))) = mset (map m_vpage (?m # flatten (pt_entries pt)))"
    by (simp only: mset_map ms)
  ultimately have "distinct (map m_vpage (flatten (pt_entries pt')))"
    by (metis mset_eq_imp_distinct_iff)
  moreover have "set (flatten (pt_entries pt')) = insert ?m (set (flatten (pt_entries pt)))"
    using mset_eq_setD [OF ms] by simp
  ultimately show ?thesis
    using inv ok pt' by (simp add: pt_inv_def list_all_iff)
qed

lemma pt_inv_unmap:
  assumes inv: "pt_inv pt" and run: "pt_unmap pt v f = (pt', f', Ok ())"
  shows "pt_inv pt'"
proof -
  from pt_unmap_Ok [OF run] obtain slot m where slot: "slot < length (pt_entries pt)" "pt_entries pt ! slot = Some m"
    and pt': "pt' = pt\<lparr>pt_entries := (pt_entries pt)[slot := None]\<rparr>" by blast
  have ms: "mset (flatten (pt_entries pt)) = mset (m # flatten (pt_entries pt'))"
    by (simp add: pt' mset_flatten_clear [OF slot])
  have "mset (map m_vpage (flatten (pt_entries pt))) = mset (map m_vpage (m # flatten (pt_entries pt')))"
    by (simp only: mset_map ms)
  then have "distinct (map m_vpage (m # flatten (pt_entries pt')))"
    using inv by (metis mset_eq_imp_distinct_iff pt_inv_def)
  moreover have "set (flatten (pt_entries pt)) = insert m (set (flatten (pt_entries pt')))"
    using mset_eq_setD [OF ms] by simp
  ultimately show ?thesis
    using inv pt' by (simp add: pt_inv_def list_all_iff)
qed

lemma pt_lookup_map:
  assumes run: "pt_map pt v f p = Some (pt', f', Ok ())"
  shows "pt_lookup pt' w = (if page_base w = v then Some \<lparr>m_vpage = v, m_frame = fr_base f, m_perms = p\<rparr>
    else pt_lookup pt w)"
proof -
  let ?m = "\<lparr>m_vpage = v, m_frame = fr_base f, m_perms = p\<rparr>"
  from pt_map_Ok [OF run] obtain slot where slot: "slot < length (pt_entries pt)" "pt_entries pt ! slot = None"
    and pt': "pt' = pt\<lparr>pt_entries := (pt_entries pt)[slot := Some ?m]\<rparr>" and ok: "mapping_ok ?m"
    and fresh: "pt_lookup pt v = None" by blast
  have "page_base v = v" using ok by (simp add: mapping_ok_def page_base_aligned_id)
  then show ?thesis
    using fresh find_flatten_insert [OF slot, of "\<lambda>m. m_vpage m = v" ?m]
      find_flatten_update [OF slot, of "\<lambda>m. m_vpage m = page_base w" ?m]
    by (auto simp: pt_lookup_def pt')
qed

lemma pt_lookup_unmap:
  assumes inv: "pt_inv pt" and run: "pt_unmap pt v f = (pt', f', Ok ())"
  shows "pt_lookup pt' w = (if page_base w = page_base v then None else pt_lookup pt w)"
proof -
  from pt_unmap_Ok [OF run] obtain slot m where slot: "slot < length (pt_entries pt)" "pt_entries pt ! slot = Some m"
    and m: "m_vpage m = page_base v" and pt': "pt' = pt\<lparr>pt_entries := (pt_entries pt)[slot := None]\<rparr>" by blast
  have ms: "mset (flatten (pt_entries pt)) = mset (m # flatten (pt_entries pt'))"
    by (simp add: pt' mset_flatten_clear [OF slot])
  have "mset (map m_vpage (flatten (pt_entries pt))) = mset (map m_vpage (m # flatten (pt_entries pt')))"
    by (simp only: mset_map ms)
  then have "page_base v \<notin> set (map m_vpage (flatten (pt_entries pt')))"
    using inv m by (metis (no_types, lifting) mset_eq_imp_distinct_iff pt_inv_def distinct.simps(2) list.simps(9))
  then have "pt_lookup pt' w = None" if "page_base w = page_base v"
    using that by (force simp: pt_lookup_def find_None_iff)
  moreover have "pt_lookup pt' w = pt_lookup pt w" if "page_base w \<noteq> page_base v"
    using that find_flatten_clear [OF slot, of "\<lambda>m. m_vpage m = page_base w"] m
    by (auto simp: pt_lookup_def pt')
  ultimately show ?thesis by simp
qed

section \<open>A pool of frames and a family of address spaces\<close>

record mem_sys =
  ms_frames :: "physical_frame list"
  ms_tables :: "page_table list"

inductive mem_step :: "mem_sys \<Rightarrow> mem_sys \<Rightarrow> bool" where
  alloc: "j < length (ms_frames s) \<Longrightarrow>
     mem_step s (s\<lparr>ms_frames := (ms_frames s)[j := fst (allocate (ms_frames s ! j) own)]\<rparr>)"
| release: "j < length (ms_frames s) \<Longrightarrow>
     mem_step s (s\<lparr>ms_frames := (ms_frames s)[j := fst (frame_free (ms_frames s ! j))]\<rparr>)"
| isolate: "j < length (ms_frames s) \<Longrightarrow>
     mem_step s (s\<lparr>ms_frames := (ms_frames s)[j := fst (quarantine (ms_frames s ! j))]\<rparr>)"
| map_in: "i < length (ms_tables s) \<Longrightarrow> j < length (ms_frames s) \<Longrightarrow>
     pt_map (ms_tables s ! i) v (ms_frames s ! j) p = Some (pt, f, r) \<Longrightarrow>
     mem_step s \<lparr>ms_frames = (ms_frames s)[j := f], ms_tables = (ms_tables s)[i := pt]\<rparr>"
| unmap_from: "i < length (ms_tables s) \<Longrightarrow> j < length (ms_frames s) \<Longrightarrow>
     pt_unmap (ms_tables s ! i) v (ms_frames s ! j) = (pt, f, r) \<Longrightarrow>
     mem_step s \<lparr>ms_frames = (ms_frames s)[j := f], ms_tables = (ms_tables s)[i := pt]\<rparr>"

definition boot_mem :: "phys_addr list \<Rightarrow> address_space_id list \<Rightarrow> mem_sys" where
  "boot_mem bases spaces = \<lparr>ms_frames = map new_free bases, ms_tables = map page_table_new spaces\<rparr>"

text \<open>All live mappings, each with the frame owner its page table requires.\<close>

definition claims :: "page_table \<Rightarrow> (frame_owner \<times> mapping) list" where
  "claims pt = map (\<lambda>m. (expected_owner pt (m_perms m), m)) (flatten (pt_entries pt))"

definition all_claims :: "mem_sys \<Rightarrow> (frame_owner \<times> mapping) list" where
  "all_claims s = concat (map claims (ms_tables s))"

definition backed :: "physical_frame list \<Rightarrow> frame_owner \<times> mapping \<Rightarrow> bool" where
  "backed fs c \<longleftrightarrow> (\<exists>f\<in>set fs. fr_base f = m_frame (snd c) \<and> fr_state f \<in> {Mapped, Quarantined} \<and> fr_owner f = fst c)"

definition mem_inv :: "mem_sys \<Rightarrow> bool" where
  "mem_inv s \<longleftrightarrow> distinct (map fr_base (ms_frames s)) \<and> list_all pt_inv (ms_tables s)
     \<and> list_all (backed (ms_frames s)) (all_claims s) \<and> distinct (map (m_frame \<circ> snd) (all_claims s))"

lemma backed_update:
  assumes "backed fs c" "j < length fs" "fr_base f' = fr_base (fs ! j)"
    and "fr_base (fs ! j) = m_frame (snd c) \<Longrightarrow> fr_state (fs ! j) \<in> {Mapped, Quarantined} \<Longrightarrow> fr_owner (fs ! j) = fst c
           \<Longrightarrow> fr_state f' \<in> {Mapped, Quarantined} \<and> fr_owner f' = fst c"
  shows "backed (fs[j := f']) c"
proof -
  from assms(1) obtain k where k: "k < length fs" "fr_base (fs ! k) = m_frame (snd c)"
    "fr_state (fs ! k) \<in> {Mapped, Quarantined}" "fr_owner (fs ! k) = fst c"
    by (auto simp: backed_def in_set_conv_nth)
  show ?thesis
  proof (cases "k = j")
    case True
    with k assms(2-4) show ?thesis
      unfolding backed_def by (intro bexI [of _ f']) (auto simp: set_update_memI)
  next
    case False
    with k have "fs ! k \<in> set (fs[j := f'])"
      by (metis length_list_update nth_list_update_neq nth_mem)
    with k show ?thesis unfolding backed_def by blast
  qed
qed

lemma claims_pt_map:
  assumes "pt_map pt v f p = Some (pt', f', Ok ())"
  shows "mset (claims pt') = add_mset (expected_owner pt p, \<lparr>m_vpage = v, m_frame = fr_base f, m_perms = p\<rparr>) (mset (claims pt))"
proof -
  from pt_map_Ok [OF assms] obtain slot where slot: "slot < length (pt_entries pt)" "pt_entries pt ! slot = None"
    and pt': "pt' = pt\<lparr>pt_entries := (pt_entries pt)[slot := Some \<lparr>m_vpage = v, m_frame = fr_base f, m_perms = p\<rparr>]\<rparr>"
    by blast
  have "expected_owner pt' = expected_owner pt" by (simp add: fun_eq_iff expected_owner_def pt')
  then show ?thesis by (simp add: claims_def pt' mset_flatten_update [OF slot])
qed

lemma claims_pt_unmap:
  assumes "pt_unmap pt v f = (pt', f', Ok ())"
  shows "\<exists>c. mset (claims pt) = add_mset c (mset (claims pt')) \<and> m_frame (snd c) = fr_base f"
proof -
  from pt_unmap_Ok [OF assms] obtain slot m where slot: "slot < length (pt_entries pt)" "pt_entries pt ! slot = Some m"
    and m: "m_frame m = fr_base f" and pt': "pt' = pt\<lparr>pt_entries := (pt_entries pt)[slot := None]\<rparr>" by blast
  have "expected_owner pt' = expected_owner pt" by (simp add: fun_eq_iff expected_owner_def pt')
  then have "mset (claims pt) = add_mset (expected_owner pt (m_perms m), m) (mset (claims pt'))"
    by (simp add: claims_def pt' mset_flatten_clear [OF slot])
  with m show ?thesis by auto
qed

lemma all_claims_update:
  assumes "i < length ts"
  shows "mset (concat (map claims (ts[i := pt]))) + mset (claims (ts ! i)) = mset (concat (map claims ts)) + mset (claims pt)"
  using mset_concat_update [of i "map claims ts" "claims pt"] assms by (simp add: map_update)

lemma mem_inv_frame_op:
  assumes inv: "mem_inv s" and j: "j < length (ms_frames s)" and base: "fr_base f' = fr_base (ms_frames s ! j)"
    and keep: "fr_state (ms_frames s ! j) \<in> {Mapped, Quarantined} \<Longrightarrow>
       fr_state f' \<in> {Mapped, Quarantined} \<and> fr_owner f' = fr_owner (ms_frames s ! j)"
  shows "mem_inv (s\<lparr>ms_frames := (ms_frames s)[j := f']\<rparr>)"
proof -
  have "map fr_base ((ms_frames s)[j := f']) = map fr_base (ms_frames s)"
    using base j by (metis list_update_id map_update nth_map)
  moreover have "backed ((ms_frames s)[j := f']) c" if "c \<in> set (all_claims s)" for c
    using inv that j base keep by (intro backed_update) (auto simp: mem_inv_def list_all_iff)
  ultimately show ?thesis
    using inv by (simp add: mem_inv_def all_claims_def list_all_iff)
qed

lemma mem_inv_map:
  assumes inv: "mem_inv s" and i: "i < length (ms_tables s)" and j: "j < length (ms_frames s)"
    and run: "pt_map (ms_tables s ! i) v (ms_frames s ! j) p = Some (pt, f', Ok ())"
  shows "mem_inv \<lparr>ms_frames = (ms_frames s)[j := f'], ms_tables = (ms_tables s)[i := pt]\<rparr>" (is "mem_inv ?s'")
proof -
  let ?f = "ms_frames s ! j" and ?pt = "ms_tables s ! i"
  let ?c = "(expected_owner ?pt p, \<lparr>m_vpage = v, m_frame = fr_base ?f, m_perms = p\<rparr>)"
  from pt_map_Ok [OF run] have f': "f' = ?f\<lparr>fr_state := Mapped\<rparr>" and st: "fr_state ?f = Allocated"
    and own: "fr_owner ?f = expected_owner ?pt p" by auto
  have ms: "mset (all_claims ?s') = mset (?c # all_claims s)"
    using all_claims_update [OF i, of pt] claims_pt_map [OF run] by (simp add: all_claims_def)
  have dist: "distinct (map fr_base (ms_frames s))" and bk: "\<And>c. c \<in> set (all_claims s) \<Longrightarrow> backed (ms_frames s) c"
    using inv by (auto simp: mem_inv_def list_all_iff)
  have fresh: "m_frame (snd c) \<noteq> fr_base ?f" if c: "c \<in> set (all_claims s)" for c
  proof
    assume eq: "m_frame (snd c) = fr_base ?f"
    from bk [OF c] obtain g where "g \<in> set (ms_frames s)" "fr_base g = fr_base ?f" "fr_state g \<in> {Mapped, Quarantined}"
      by (auto simp: backed_def eq)
    with dist j st show False by (auto simp: distinct_map dest!: inj_onD [of fr_base _ g ?f])
  qed
  have "map fr_base ((ms_frames s)[j := f']) = map fr_base (ms_frames s)"
    using j by (simp add: map_update f') (metis list_update_id nth_map)
  moreover have "backed ((ms_frames s)[j := f']) c" if "c \<in> set (all_claims s)" for c
    using bk [OF that] j by (rule backed_update) (use st f' in auto)
  moreover have "backed ((ms_frames s)[j := f']) ?c"
    unfolding backed_def using j own by (intro bexI [of _ f']) (auto simp: f' set_update_memI)
  moreover have "set (all_claims ?s') = insert ?c (set (all_claims s))" using mset_eq_setD [OF ms] by simp
  moreover have "distinct (map (m_frame \<circ> snd) (all_claims ?s'))"
  proof -
    have "mset (map (m_frame \<circ> snd) (all_claims ?s')) = mset (map (m_frame \<circ> snd) (?c # all_claims s))"
      by (simp only: mset_map ms)
    moreover have "distinct (map (m_frame \<circ> snd) (?c # all_claims s))"
      using inv fresh by (fastforce simp: mem_inv_def)
    ultimately show ?thesis by (metis mset_eq_imp_distinct_iff)
  qed
  moreover have "list_all pt_inv ((ms_tables s)[i := pt])"
    using inv i run by (intro list_all_update pt_inv_map [OF _ run]) (auto simp: mem_inv_def list_all_length)
  ultimately show ?thesis using dist by (auto simp: mem_inv_def list_all_iff)
qed

lemma mem_inv_unmap:
  assumes inv: "mem_inv s" and i: "i < length (ms_tables s)" and j: "j < length (ms_frames s)"
    and run: "pt_unmap (ms_tables s ! i) v (ms_frames s ! j) = (pt, f', Ok ())"
  shows "mem_inv \<lparr>ms_frames = (ms_frames s)[j := f'], ms_tables = (ms_tables s)[i := pt]\<rparr>" (is "mem_inv ?s'")
proof -
  let ?f = "ms_frames s ! j"
  from pt_unmap_Ok [OF run] have f': "f' = ?f\<lparr>fr_state := Allocated\<rparr>" by blast
  from claims_pt_unmap [OF run] obtain c0 where c0: "mset (claims (ms_tables s ! i)) = add_mset c0 (mset (claims pt))"
    "m_frame (snd c0) = fr_base ?f" by blast
  have ms: "mset (all_claims s) = mset (c0 # all_claims ?s')"
    using all_claims_update [OF i, of pt] c0(1) by (simp add: all_claims_def)
  have "mset (map (m_frame \<circ> snd) (all_claims s)) = mset (map (m_frame \<circ> snd) (c0 # all_claims ?s'))"
    by (simp only: mset_map ms)
  then have dist: "distinct (map (m_frame \<circ> snd) (c0 # all_claims ?s'))"
    using inv unfolding mem_inv_def by (metis mset_eq_imp_distinct_iff)
  have "backed ((ms_frames s)[j := f']) c" if "c \<in> set (all_claims ?s')" for c
  proof (rule backed_update [OF _ j])
    show "backed (ms_frames s) c"
      using inv that mset_eq_setD [OF ms] by (auto simp: mem_inv_def list_all_iff)
    have "m_frame (snd c) \<noteq> fr_base ?f" using dist that c0(2) by force
    then show "fr_state f' \<in> {Mapped, Quarantined} \<and> fr_owner f' = fst c" if "fr_base ?f = m_frame (snd c)"
      using that by simp
  qed (simp add: f')
  moreover have "map fr_base ((ms_frames s)[j := f']) = map fr_base (ms_frames s)"
    using j by (simp add: map_update f') (metis list_update_id nth_map)
  moreover have "list_all pt_inv ((ms_tables s)[i := pt])"
    using inv i run by (intro list_all_update pt_inv_unmap [OF _ run]) (auto simp: mem_inv_def list_all_length)
  ultimately show ?thesis using inv dist by (auto simp: mem_inv_def list_all_iff)
qed

lemma mem_step_inv: "mem_step s s' \<Longrightarrow> mem_inv s \<Longrightarrow> mem_inv s'"
proof (induction rule: mem_step.induct)
  case (map_in i s j v p pt f r)
  show ?case
  proof (cases r)
    case (Ok u)
    with map_in show ?thesis by (simp add: mem_inv_map)
  next
    case (Err e)
    with pt_map_Err [of "ms_tables s ! i" v "ms_frames s ! j" p pt f e] map_in show ?thesis
      by (simp add: mem_inv_def all_claims_def)
  qed
next
  case (unmap_from i s j v pt f r)
  show ?case
  proof (cases r)
    case (Ok u)
    with unmap_from show ?thesis by (simp add: mem_inv_unmap)
  next
    case (Err e)
    with pt_unmap_Err [of "ms_tables s ! i" v "ms_frames s ! j" pt f e] unmap_from show ?thesis
      by (simp add: mem_inv_def all_claims_def)
  qed
qed (rule mem_inv_frame_op; auto simp: frame_ops split: frame_state.splits)+

lemma mem_inv_boot: "distinct bases \<Longrightarrow> mem_inv (boot_mem bases spaces)"
proof -
  have "flatten (replicate n None) = ([] :: mapping list)" for n by (induction n) simp_all
  then have "all_claims (boot_mem bases spaces) = []"
    by (simp add: all_claims_def boot_mem_def claims_def page_table_new_def)
  moreover assume "distinct bases"
  ultimately show ?thesis
    by (simp add: mem_inv_def boot_mem_def comp_def new_free_def list_all_iff pt_inv_new)
qed

lemma reachable_mem_inv: "mem_step\<^sup>*\<^sup>* (boot_mem bases spaces) s \<Longrightarrow> distinct bases \<Longrightarrow> mem_inv s"
  by (induction rule: rtranclp_induct) (auto intro: mem_inv_boot mem_step_inv)

section \<open>Properties\<close>

lemma claimE:
  assumes "mem_inv s" "i < length (ms_tables s)" "m \<in> set (flatten (pt_entries (ms_tables s ! i)))"
  shows "mapping_ok m \<and> backed (ms_frames s) (expected_owner (ms_tables s ! i) (m_perms m), m)"
proof -
  have "(expected_owner (ms_tables s ! i) (m_perms m), m) \<in> set (all_claims s)"
    using assms(2,3) by (auto simp: all_claims_def claims_def intro!: bexI [of _ "ms_tables s ! i"])
  with assms show ?thesis by (auto simp: mem_inv_def list_all_iff pt_inv_def)
qed

lemma distinct_concat_parts:
  assumes "distinct (map g (concat xss))" "i < length xss" "j < length xss" "x \<in> set (xss ! i)" "y \<in> set (xss ! j)" "g x = g y"
  shows "x = y \<and> i = j"
  using assms
proof (induction xss arbitrary: i j)
  case (Cons xs xss)
  show ?case
  proof (cases i; cases j)
    fix i' j' assume "i = Suc i'" "j = Suc j'"
    with Cons show ?thesis by auto
  qed (use Cons.prems in \<open>auto simp: inj_on_def distinct_map image_iff dest: nth_mem; metis image_eqI nth_mem UN_I disjoint_iff\<close>)+
qed simp

text \<open>C12. Isolation of address spaces: start from a pool of distinct free frames and empty page
  tables, and allocate, free, quarantine, map and unmap in any order and with any arguments. In
  every reachable state each user mapping is inside the user window, aligned, never both writable
  and executable, never a device mapping and never backed by a kernel-range frame; the frame
  behind a mapping is owned by exactly the address space (or the kernel) that maps it; and no
  frame is mapped twice, neither in one address space nor in two.\<close>

theorem address_spaces_isolated:
  assumes "distinct bases" and "mem_step\<^sup>*\<^sup>* (boot_mem bases spaces) s"
    and "i < length (ms_tables s)" and "m \<in> set (flatten (pt_entries (ms_tables s ! i)))"
  shows "va_aligned (m_vpage m) \<and> pa_aligned (m_frame m)
    \<and> (p_user (m_perms m) \<longrightarrow> is_user (m_vpage m) \<and> \<not> is_kernel (m_frame m)
          \<and> \<not> (p_write (m_perms m) \<and> p_execute (m_perms m)) \<and> \<not> p_device (m_perms m))
    \<and> (\<exists>f\<in>set (ms_frames s). fr_base f = m_frame m \<and> fr_state f \<in> {Mapped, Quarantined}
          \<and> fr_owner f = (if p_user (m_perms m) then SpaceOwner (pt_owner (ms_tables s ! i)) else KernelOwner))
    \<and> (\<forall>j<length (ms_tables s). \<forall>n\<in>set (flatten (pt_entries (ms_tables s ! j))).
          m_frame n = m_frame m \<longrightarrow> j = i \<and> n = m)"
proof -
  have inv: "mem_inv s" using assms(1,2) by (simp add: reachable_mem_inv)
  note C = claimE [OF inv assms(3,4)]
  have nodup: "j = i \<and> n = m" if j: "j < length (ms_tables s)" and n: "n \<in> set (flatten (pt_entries (ms_tables s ! j)))"
    and eq: "m_frame n = m_frame m" for j n
    using distinct_concat_parts [of "m_frame \<circ> snd" "map claims (ms_tables s)" j i
        "(expected_owner (ms_tables s ! j) (m_perms n), n)" "(expected_owner (ms_tables s ! i) (m_perms m), m)"]
      inv j n eq assms(3,4) by (auto simp: mem_inv_def all_claims_def claims_def)
  show ?thesis
    using C nodup
    by (auto simp: mapping_ok_def backed_def expected_owner_def validate_perms_def split: if_splits)
qed

lemma replicate_mappings: "replicate MAX_MAPPINGS (None :: mapping option) = None # replicate 63 None"
  by (simp add: MAX_MAPPINGS_def flip: replicate_Suc)

lemma flatten_replicate_None: "flatten (replicate n None) = []"
  by (induction n) simp_all

text \<open>A concrete run used as an example: one frame, one address space, one user mapping.\<close>

lemma example_map:
  "pt_map (page_table_new (AddressSpaceId 7)) (VirtAddr 0x2000)
      \<lparr>fr_base = PhysAddr 0x10000000, fr_state = Allocated, fr_owner = SpaceOwner (AddressSpaceId 7)\<rparr> user_rw
   = Some (\<lparr>pt_owner = AddressSpaceId 7, pt_entries = Some \<lparr>m_vpage = VirtAddr 0x2000,
             m_frame = PhysAddr 0x10000000, m_perms = user_rw\<rparr> # replicate 63 None\<rparr>,
           \<lparr>fr_base = PhysAddr 0x10000000, fr_state = Mapped, fr_owner = SpaceOwner (AddressSpaceId 7)\<rparr>, Ok ())"
  by (simp add: pt_map_def page_table_new_def replicate_mappings va_aligned_def pa_aligned_def is_multiple_of_def
      validate_perms_def user_rw_def is_kernel_def is_user_def address_consts pt_lookup_def mark_mapped_def
      flatten_replicate_None)

theorem address_spaces_isolated_witness:
  "\<exists>s m. mem_step\<^sup>*\<^sup>* (boot_mem [PhysAddr 0x10000000] [AddressSpaceId 7]) s
     \<and> m \<in> set (flatten (pt_entries (ms_tables s ! 0))) \<and> p_user (m_perms m)
     \<and> is_user (m_vpage m) \<and> \<not> is_kernel (m_frame m)"
proof -
  let ?s0 = "boot_mem [PhysAddr 0x10000000] [AddressSpaceId 7]"
  let ?f1 = "\<lparr>fr_base = PhysAddr 0x10000000, fr_state = Allocated, fr_owner = SpaceOwner (AddressSpaceId 7)\<rparr>"
  let ?s1 = "?s0\<lparr>ms_frames := [?f1]\<rparr>"
  let ?m = "\<lparr>m_vpage = VirtAddr 0x2000, m_frame = PhysAddr 0x10000000, m_perms = user_rw\<rparr>"
  let ?s2 = "\<lparr>ms_frames = [?f1\<lparr>fr_state := Mapped\<rparr>],
    ms_tables = [\<lparr>pt_owner = AddressSpaceId 7, pt_entries = Some ?m # replicate 63 None\<rparr>]\<rparr>"
  have "mem_step ?s0 ?s1"
    using mem_step.alloc [of 0 ?s0 "SpaceOwner (AddressSpaceId 7)"]
    by (simp add: boot_mem_def new_free_def allocate_def)
  moreover have "mem_step ?s1 ?s2"
    using mem_step.map_in [of 0 ?s1 0 "VirtAddr 0x2000" user_rw] example_map by (simp add: boot_mem_def)
  ultimately have run: "mem_step\<^sup>*\<^sup>* ?s0 ?s2" by (meson converse_rtranclp_into_rtranclp r_into_rtranclp)
  have dist: "distinct [PhysAddr 0x10000000]" and i: "0 < length (ms_tables ?s2)"
    and m: "?m \<in> set (flatten (pt_entries (ms_tables ?s2 ! 0)))" by simp_all
  have "p_user (m_perms ?m)" by (simp add: user_rw_def)
  with address_spaces_isolated [OF dist run i m] run m show ?thesis by blast
qed

text \<open>The page table model is a finite map with atomic updates: mapping never panics; a
  rejected mapping or unmapping leaves the table and the frame as they were; after a successful
  mapping every address of the page resolves to it and every other page resolves as before; and
  unmapping it again restores all lookups and the frame.\<close>

theorem page_table_map_unmap:
  assumes "pt_inv pt"
  shows "\<exists>pt' f' r. pt_map pt v f p = Some (pt', f', r) \<and> pt_inv pt' \<and> (\<not> is_ok r \<longrightarrow> pt' = pt \<and> f' = f)
    \<and> (is_ok r \<longrightarrow>
        (\<forall>w. pt_lookup pt' w = (if page_base w = v then Some \<lparr>m_vpage = v, m_frame = fr_base f, m_perms = p\<rparr>
           else pt_lookup pt w))
        \<and> (\<exists>pt''. pt_unmap pt' v f' = (pt'', f, Ok ()) \<and> pt_inv pt'' \<and> (\<forall>w. pt_lookup pt'' w = pt_lookup pt w)))"
proof -
  obtain pt' f' r where run: "pt_map pt v f p = Some (pt', f', r)"
    using pt_map_total [of pt v f p] by (cases "pt_map pt v f p") auto
  show ?thesis
  proof (cases r)
    case (Err e)
    with run pt_map_Err [of pt v f p pt' f' e] assms show ?thesis by simp
  next
    case (Ok u)
    with run have run': "pt_map pt v f p = Some (pt', f', Ok ())" by simp
    let ?m = "\<lparr>m_vpage = v, m_frame = fr_base f, m_perms = p\<rparr>"
    from pt_map_Ok [OF run'] have st: "fr_state f = Allocated" and f': "f' = f\<lparr>fr_state := Mapped\<rparr>"
      and ok: "mapping_ok ?m" and fresh: "pt_lookup pt v = None" by blast+
    have v: "page_base v = v" using ok by (simp add: mapping_ok_def page_base_aligned_id)
    have inv': "pt_inv pt'" using pt_inv_map [OF assms run'] .
    let ?P = "\<lambda>e. case e of Some m \<Rightarrow> m_vpage m = page_base v | None \<Rightarrow> False"
    have hit: "pt_lookup pt' v = Some ?m" by (simp add: pt_lookup_map [OF run'] v)
    have unique: "n = ?m" if n: "n \<in> set (flatten (pt_entries pt'))" "m_vpage n = v" for n
    proof -
      have "?m \<in> set (flatten (pt_entries pt'))"
        using hit by (auto simp: pt_lookup_def find_Some_iff in_set_conv_nth)
      with n inv' show ?thesis by (auto simp: pt_inv_def distinct_map dest!: inj_onD [of m_vpage _ n ?m])
    qed
    have "find_index ?P (pt_entries pt') \<noteq> None"
      using hit v by (auto simp: find_index_None pt_lookup_def find_Some_iff set_flatten in_set_conv_nth
          split: option.splits dest!: nth_mem)
    then obtain slot where slot: "find_index ?P (pt_entries pt') = Some slot" by blast
    then have hit_slot: "slot < length (pt_entries pt')" "?P (pt_entries pt' ! slot)"
      using find_index_Some by blast+
    then obtain n where n: "pt_entries pt' ! slot = Some n" "m_vpage n = v" using v by (auto split: option.splits)
    then have "n \<in> set (flatten (pt_entries pt'))" using hit_slot(1) by (auto simp: set_flatten) (metis nth_mem)
    then have "n = ?m" using unique n(2) by blast
    then have un: "pt_unmap pt' v f' = (pt'\<lparr>pt_entries := (pt_entries pt')[slot := None]\<rparr>, f, Ok ())"
      using slot n f' st by (simp add: pt_unmap_def mark_unmapped_def)
    have "pt_lookup (pt'\<lparr>pt_entries := (pt_entries pt')[slot := None]\<rparr>) w = pt_lookup pt w" for w
    proof (cases "page_base w = v")
      case True
      then have "pt_lookup pt w = pt_lookup pt v" using v by (simp add: pt_lookup_def)
      with True fresh v show ?thesis by (simp add: pt_lookup_unmap [OF inv' un])
    next
      case False
      with v show ?thesis by (simp add: pt_lookup_unmap [OF inv' un] pt_lookup_map [OF run'])
    qed
    with run' inv' un pt_inv_unmap [OF inv' un] pt_lookup_map [OF run'] Ok run show ?thesis by auto
  qed
qed

theorem page_table_map_unmap_witness:
  "\<exists>pt' f'. pt_map (page_table_new (AddressSpaceId 7)) (VirtAddr 0x2000)
      \<lparr>fr_base = PhysAddr 0x10000000, fr_state = Allocated, fr_owner = SpaceOwner (AddressSpaceId 7)\<rparr> user_rw
      = Some (pt', f', Ok ())
     \<and> pt_lookup pt' (VirtAddr 0x2ABC) = Some \<lparr>m_vpage = VirtAddr 0x2000, m_frame = PhysAddr 0x10000000, m_perms = user_rw\<rparr>"
proof -
  have "page_base (VirtAddr 0x2ABC) = VirtAddr 0x2000" by (simp add: page_base_def PAGE_SIZE_def)
  then show ?thesis
    using page_table_map_unmap [OF pt_inv_new, of "AddressSpaceId 7" "VirtAddr 0x2000"
        "\<lparr>fr_base = PhysAddr 0x10000000, fr_state = Allocated, fr_owner = SpaceOwner (AddressSpaceId 7)\<rparr>" user_rw]
    by (auto simp: example_map)
qed

text \<open>A user image descriptor exists only for a lawful layout: \<open>UserImage::new\<close> succeeds
  exactly when the entry is a user address and the stack is a non-empty, page-aligned region
  whose every byte lies in the user window, computed without wrap-around.\<close>

lemma user_image_layout:
  "is_ok (user_image_new entry stk sz asid) \<longleftrightarrow>
     is_user entry \<and> sz \<noteq> 0 \<and> is_multiple_of sz PAGE_SIZE \<and> va_aligned stk
     \<and> unat USER_RANGE_START + unat sz \<le> unat (va_u64 stk) \<and> unat (va_u64 stk) \<le> unat USER_RANGE_END"
proof -
  have step: "unat (t - 1) = unat t - 1" if "t \<noteq> 0" for t :: u64
    using that by (simp add: unat_sub word_le_nat_alt Suc_le_eq unat_gt_0)
  have pos: "unat sz \<noteq> 0 \<longleftrightarrow> sz \<noteq> 0" by (simp add: unat_eq_0)
  have "is_user (VirtAddr (va_u64 stk - sz)) \<and> is_user (VirtAddr (va_u64 stk - 1)) \<longleftrightarrow>
      unat USER_RANGE_START + unat sz \<le> unat (va_u64 stk) \<and> unat (va_u64 stk) \<le> unat USER_RANGE_END"
    if le: "sz \<le> va_u64 stk" and nz: "sz \<noteq> 0"
  proof -
    have "va_u64 stk \<noteq> 0" using le nz by auto
    then show ?thesis
      using le nz step [of "va_u64 stk"] pos unat_sub [OF le]
      by (auto simp: is_user_def address_consts word_le_nat_alt word_less_nat_alt)
  qed
  moreover have "sz \<le> va_u64 stk" if "unat USER_RANGE_START + unat sz \<le> unat (va_u64 stk)"
    using that by (simp add: word_le_nat_alt)
  ultimately show ?thesis
    by (auto simp: user_image_new_def Let_def checked_sub_def)
qed

end
