(* ===== verification/Paging.thy ===== *)
theory Paging
  imports Memory_Model
begin

text \<open>
  Sv39 paging (\<open>kernel/src/arch/riscv64/sv39.rs\<close>, \<open>paging.rs\<close>): page table entries, the
  arena of table pages, the construction of a mapping and the software walk \<open>translate\<close> that
  mirrors the hardware.

  The tables of an arena form a tree of three levels (\<open>arena_lv\<close>): the ghost function gives
  each table its level, a valid entry of an upper table points to a table one level below, and
  no two entries share a target. The two writes \<open>map_page\<close> can perform, linking a fresh table
  and setting a leaf, keep the tree; what they do to \<open>translate\<close> gives the main theorem.
\<close>

section \<open>Page table entries\<close>

definition PTE_V :: u64 where "PTE_V = push_bit 0 1"
definition PTE_R :: u64 where "PTE_R = push_bit 1 1"
definition PTE_W :: u64 where "PTE_W = push_bit 2 1"
definition PTE_X :: u64 where "PTE_X = push_bit 3 1"
definition PTE_U :: u64 where "PTE_U = push_bit 4 1"
definition PTE_G :: u64 where "PTE_G = push_bit 5 1"
definition PTE_A :: u64 where "PTE_A = push_bit 6 1"
definition PTE_D :: u64 where "PTE_D = push_bit 7 1"

lemmas pte_flags [ax_const] = PTE_V_def PTE_R_def PTE_W_def PTE_X_def PTE_U_def PTE_G_def PTE_A_def PTE_D_def

definition SATP_MODE_SV39 :: u64 where "SATP_MODE_SV39 = push_bit 60 8"

datatype pte = Pte u64

datatype pte_error = PteMisaligned | NoAccess | WriteWithoutRead | UserWx | DeviceExecute

definition pte_empty :: pte where "pte_empty = Pte 0"

fun pte_bits :: "pte \<Rightarrow> u64" where "pte_bits (Pte b) = b"

definition is_valid :: "pte \<Rightarrow> bool" where
  "is_valid e \<longleftrightarrow> pte_bits e AND PTE_V \<noteq> 0"

definition is_leaf :: "pte \<Rightarrow> bool" where
  "is_leaf e \<longleftrightarrow> is_valid e \<and> pte_bits e AND (PTE_R OR PTE_W OR PTE_X) \<noteq> 0"

definition ppn_field :: "phys_addr \<Rightarrow> u64" where
  "ppn_field addr = push_bit 10 (drop_bit 12 (pa_u64 addr))"

definition pte_pointer :: "phys_addr \<Rightarrow> (pte_error, pte) result" where
  "pte_pointer next_table =
     (if \<not> pa_aligned next_table then Err PteMisaligned else Ok (Pte (PTE_V OR ppn_field next_table)))"

definition pte_leaf :: "phys_addr \<Rightarrow> permissions \<Rightarrow> (pte_error, pte) result" where
  "pte_leaf frame p =
     (if \<not> pa_aligned frame then Err PteMisaligned
      else if \<not> p_read p \<and> \<not> p_write p \<and> \<not> p_execute p then Err NoAccess
      else if p_write p \<and> \<not> p_read p then Err WriteWithoutRead
      else if p_user p \<and> p_write p \<and> p_execute p then Err UserWx
      else if p_device p \<and> p_execute p then Err DeviceExecute
      else let b0 = PTE_V OR ppn_field frame;
               b1 = (if p_read p then b0 OR PTE_R else b0);
               b2 = (if p_write p then b1 OR PTE_W else b1);
               b3 = (if p_execute p then b2 OR PTE_X else b2);
               b4 = (if p_user p then b3 OR PTE_U else b3)
           in Ok (Pte (b4 OR (PTE_A OR PTE_D))))"

definition pte_is_user :: "pte \<Rightarrow> bool" where "pte_is_user e \<longleftrightarrow> pte_bits e AND PTE_U \<noteq> 0"
definition readable :: "pte \<Rightarrow> bool" where "readable e \<longleftrightarrow> pte_bits e AND PTE_R \<noteq> 0"
definition writable :: "pte \<Rightarrow> bool" where "writable e \<longleftrightarrow> pte_bits e AND PTE_W \<noteq> 0"
definition executable :: "pte \<Rightarrow> bool" where "executable e \<longleftrightarrow> pte_bits e AND PTE_X \<noteq> 0"

definition satp_for :: "phys_addr \<Rightarrow> u64" where
  "satp_for root = SATP_MODE_SV39 OR drop_bit 12 (pa_u64 root)"

subsection \<open>Bits of an entry\<close>

lemma and_flag_iff: "(w :: 'w::len word) AND push_bit n 1 \<noteq> 0 \<longleftrightarrow> bit w n"
proof
  assume "w AND push_bit n 1 \<noteq> 0"
  then obtain k where "bit (w AND push_bit n 1) k" by (metis bit_0_eq bit_eq_iff bot_apply bot_bool_def)
  then show "bit w n" by (auto simp: bit_and_iff bit_exp_iff)
next
  assume b: "bit w n"
  then have "n < LENGTH('w)" by (rule bit_imp_le_length)
  with b have "bit (w AND push_bit n 1) n" by (simp add: bit_and_iff bit_exp_iff)
  then show "w AND push_bit n 1 \<noteq> 0" by (metis bit_0_eq bot_apply bot_bool_def)
qed

lemma bit_flag: "n < LENGTH('w) \<Longrightarrow> bit (push_bit n 1 :: 'w::len word) k \<longleftrightarrow> k = n"
  by (auto simp only: push_bit_of_1 bit_exp_iff possible_bit_word)

lemma pte_flag_bit:
  "bit PTE_V k \<longleftrightarrow> k = 0" "bit PTE_R k \<longleftrightarrow> k = 1" "bit PTE_W k \<longleftrightarrow> k = 2" "bit PTE_X k \<longleftrightarrow> k = 3"
  "bit PTE_U k \<longleftrightarrow> k = 4" "bit PTE_A k \<longleftrightarrow> k = 6" "bit PTE_D k \<longleftrightarrow> k = 7"
  unfolding pte_flags by (subst bit_flag; simp)+

lemma is_valid_bit: "is_valid e \<longleftrightarrow> bit (pte_bits e) 0"
  unfolding is_valid_def PTE_V_def by (rule and_flag_iff)

lemma flag_bits:
  "readable e \<longleftrightarrow> bit (pte_bits e) 1" "writable e \<longleftrightarrow> bit (pte_bits e) 2"
  "executable e \<longleftrightarrow> bit (pte_bits e) 3" "pte_is_user e \<longleftrightarrow> bit (pte_bits e) 4"
  unfolding readable_def writable_def executable_def pte_is_user_def PTE_R_def PTE_W_def PTE_X_def PTE_U_def
  by (rule and_flag_iff)+

lemma is_leaf_bits: "is_leaf e \<longleftrightarrow> is_valid e \<and> (readable e \<or> writable e \<or> executable e)"
proof -
  have "pte_bits e AND (PTE_R OR PTE_W OR PTE_X) \<noteq> 0 \<longleftrightarrow>
      pte_bits e AND PTE_R \<noteq> 0 \<or> pte_bits e AND PTE_W \<noteq> 0 \<or> pte_bits e AND PTE_X \<noteq> 0"
    by (simp add: bit.conj_disj_distrib or_eq_0_iff)
  then show ?thesis by (simp add: is_leaf_def readable_def writable_def executable_def)
qed

text \<open>The physical page number read back from an entry (\<open>(bits >> 10) & 0xfff_ffff_ffff\<close>).\<close>

definition pte_ppn :: "pte \<Rightarrow> u64" where
  "pte_ppn e = drop_bit 10 (pte_bits e) AND 0xfffffffffff"

lemma mask_44: "(0xfffffffffff :: u64) = mask 44"
  by (simp add: mask_eq_exp_minus_1)

lemma small_bit: "unat (w :: u64) < 2 ^ 56 \<Longrightarrow> bit w k \<Longrightarrow> k < 56"
proof -
  assume "unat w < 2 ^ 56" and b: "bit w k"
  then have "take_bit 56 w = w"
    by (simp add: word_unat_eq_iff unsigned_take_bit_eq take_bit_nat_eq_self)
  with b have "bit (take_bit 56 w) k" by simp
  then show ?thesis by (simp add: bit_take_bit_iff)
qed

lemma pte_ppn_field:
  assumes "unat (pa_u64 pa) < 2 ^ 56" and "\<And>k. 10 \<le> k \<Longrightarrow> bit w k = bit (ppn_field pa) k"
  shows "pte_ppn (Pte w) = drop_bit 12 (pa_u64 pa)"
proof (rule bit_word_eqI)
  fix k assume k: "k < LENGTH(64)"
  then show "bit (pte_ppn (Pte w)) k = bit (drop_bit 12 (pa_u64 pa)) k"
    using small_bit [OF assms(1), of "12 + k"] assms(2) [of "10 + k"]
    by (auto simp: pte_ppn_def ppn_field_def mask_44 bit_and_iff bit_drop_bit_eq bit_push_bit_iff bit_mask_iff)
qed

lemma aligned_take_bit: "is_multiple_of a PAGE_SIZE \<longleftrightarrow> take_bit 12 a = 0"
  by (simp add: is_multiple_of_def PAGE_SIZE_def take_bit_eq_mod)

lemma aligned_ppn_mult: "take_bit 12 (a :: u64) = 0 \<Longrightarrow> drop_bit 12 a * PAGE_SIZE = a"
proof -
  assume a: "take_bit 12 a = 0"
  have "push_bit 12 (drop_bit 12 a) + take_bit 12 a = a" by (rule bits_ident)
  with a show ?thesis by (simp add: push_bit_eq_mult PAGE_SIZE_def)
qed

section \<open>The arena of table pages\<close>

definition ENTRIES :: nat where "ENTRIES = 512"
definition ARENA_TABLES :: nat where "ARENA_TABLES = 16"

text \<open>A table is indexed by a virtual page number, which is below \<open>ENTRIES\<close> by construction.\<close>

type_synonym table = "nat \<Rightarrow> u64"

definition table_zeroed :: table where "table_zeroed = (\<lambda>_. 0)"

datatype page_map_error = PMisaligned | OutOfTables | PteE pte_error | PAlreadyMapped | UnexpectedLeaf

record arena =
  ar_tables :: "table list"
  ar_used :: nat
  ar_base :: u64

definition vpn :: "u64 \<Rightarrow> nat \<Rightarrow> nat" where
  "vpn va level = unat (drop_bit (12 + level * 9) va AND 0x1ff)"

definition arena_new :: "table list \<Rightarrow> u64 \<Rightarrow> arena" where
  "arena_new tables base_pa = \<lparr>ar_tables = tables, ar_used = 1, ar_base = base_pa\<rparr>"

definition pa_of :: "arena \<Rightarrow> nat \<Rightarrow> phys_addr" where
  "pa_of a idx = PhysAddr (ar_base a + of_nat idx * PAGE_SIZE)"

definition root_pa :: "arena \<Rightarrow> phys_addr" where
  "root_pa a = pa_of a 0"

definition arena_alloc :: "arena \<Rightarrow> arena \<times> (page_map_error, nat) result" where
  "arena_alloc a =
     (if ar_used a \<ge> length (ar_tables a) then (a, Err OutOfTables)
      else (a\<lparr>ar_tables := (ar_tables a)[ar_used a := table_zeroed], ar_used := ar_used a + 1\<rparr>,
            Ok (ar_used a)))"

definition table_index_of :: "arena \<Rightarrow> pte \<Rightarrow> nat" where
  "table_index_of a e =
     (let ppn = drop_bit 10 (pte_bits e) AND 0xfffffffffff
      in unat ((ppn * PAGE_SIZE - ar_base a) div PAGE_SIZE))"

definition table_set :: "arena \<Rightarrow> nat \<Rightarrow> nat \<Rightarrow> u64 \<Rightarrow> arena" where
  "table_set a cur idx w = a\<lparr>ar_tables := (ar_tables a)[cur := (ar_tables a ! cur)(idx := w)]\<rparr>"

text \<open>One iteration of the loop over the upper levels. \<open>None\<close> is the bounds-check panic of
  \<open>self.tables[cur]\<close>.\<close>

definition map_level :: "arena \<Rightarrow> nat \<Rightarrow> u64 \<Rightarrow> nat \<Rightarrow> (arena \<times> (page_map_error, nat) result) option" where
  "map_level a cur va level =
     (if cur \<ge> length (ar_tables a) then None
      else let idx = vpn va level; entry = Pte ((ar_tables a ! cur) idx)
      in if is_leaf entry then Some (a, Err UnexpectedLeaf)
         else if is_valid entry then Some (a, Ok (table_index_of a entry))
         else case arena_alloc a of
           (a', Err e) \<Rightarrow> Some (a', Err e)
         | (a', Ok next) \<Rightarrow>
             (case pte_pointer (pa_of a' next) of
                Err e \<Rightarrow> Some (a', Err (PteE e))
              | Ok ptr \<Rightarrow> Some (table_set a' cur idx (pte_bits ptr), Ok next)))"

definition map_page :: "arena \<Rightarrow> virt_addr \<Rightarrow> phys_addr \<Rightarrow> permissions
    \<Rightarrow> (arena \<times> (page_map_error, unit) result) option" where
  "map_page a va pa perms =
     (if \<not> va_aligned va \<or> \<not> pa_aligned pa then Some (a, Err PMisaligned)
      else case pte_leaf pa perms of
        Err e \<Rightarrow> Some (a, Err (PteE e))
      | Ok leaf \<Rightarrow>
        (case map_level a 0 (va_u64 va) 2 of
           None \<Rightarrow> None
         | Some (a1, Err e) \<Rightarrow> Some (a1, Err e)
         | Some (a1, Ok cur1) \<Rightarrow>
           (case map_level a1 cur1 (va_u64 va) 1 of
              None \<Rightarrow> None
            | Some (a2, Err e) \<Rightarrow> Some (a2, Err e)
            | Some (a2, Ok cur0) \<Rightarrow>
                if cur0 \<ge> length (ar_tables a2) then None
                else let idx0 = vpn (va_u64 va) 0
                in if is_valid (Pte ((ar_tables a2 ! cur0) idx0)) then Some (a2, Err PAlreadyMapped)
                   else Some (table_set a2 cur0 idx0 (pte_bits leaf), Ok ()))))"

text \<open>The walk: the outer option is the bounds-check panic, the inner one the result.\<close>

definition walk_level :: "arena \<Rightarrow> nat \<Rightarrow> u64 \<Rightarrow> nat \<Rightarrow> nat option option" where
  "walk_level a cur va level =
     (if cur \<ge> length (ar_tables a) then None
      else let entry = Pte ((ar_tables a ! cur) (vpn va level))
      in if \<not> is_valid entry \<or> is_leaf entry then Some None
         else Some (Some (table_index_of a entry)))"

definition translate :: "arena \<Rightarrow> virt_addr \<Rightarrow> (phys_addr \<times> permissions) option option" where
  "translate a va =
     (case walk_level a 0 (va_u64 va) 2 of
        None \<Rightarrow> None
      | Some None \<Rightarrow> Some None
      | Some (Some cur1) \<Rightarrow>
        (case walk_level a cur1 (va_u64 va) 1 of
           None \<Rightarrow> None
         | Some None \<Rightarrow> Some None
         | Some (Some cur0) \<Rightarrow>
             if cur0 \<ge> length (ar_tables a) then None
             else let leaf = Pte ((ar_tables a ! cur0) (vpn (va_u64 va) 0))
             in if \<not> is_leaf leaf then Some None
                else let ppn = drop_bit 10 (pte_bits leaf) AND 0xfffffffffff;
                         pa = PhysAddr (ppn * PAGE_SIZE + (va_u64 va AND (PAGE_SIZE - 1)))
                     in Some (Some (pa, \<lparr>p_read = readable leaf, p_write = writable leaf,
                           p_execute = executable leaf, p_user = pte_is_user leaf, p_device = False\<rparr>))))"

text \<open>The loop of \<open>identity_map_range\<close>; an undefined result is a panic or a loop that does not
  end (the address wraps around when \<open>end\<close> is within a page of the top of the address space).\<close>

partial_function (option) identity_map_loop ::
  "arena \<Rightarrow> u64 \<Rightarrow> u64 \<Rightarrow> permissions \<Rightarrow> (arena \<times> (page_map_error, unit) result) option" where
  "identity_map_loop a addr end_addr perms =
     (if addr < end_addr then
        (case map_page a (VirtAddr addr) (PhysAddr addr) perms of
           None \<Rightarrow> None
         | Some (a', Err e) \<Rightarrow> Some (a', Err e)
         | Some (a', Ok _) \<Rightarrow> identity_map_loop a' (addr + PAGE_SIZE) end_addr perms)
      else Some (a, Ok ()))"

definition identity_map_range ::
  "arena \<Rightarrow> u64 \<Rightarrow> u64 \<Rightarrow> permissions \<Rightarrow> (arena \<times> (page_map_error, unit) result) option" where
  "identity_map_range a start end_addr perms = identity_map_loop a start end_addr perms"

section \<open>The tree of tables\<close>

definition ent :: "arena \<Rightarrow> nat \<Rightarrow> nat \<Rightarrow> pte" where
  "ent a i j = Pte ((ar_tables a ! i) j)"

definition step1 :: "arena \<Rightarrow> nat \<Rightarrow> nat \<Rightarrow> nat option" where
  "step1 a i j = (if is_valid (ent a i j) \<and> \<not> is_leaf (ent a i j) then Some (table_index_of a (ent a i j)) else None)"

definition arena_bounds :: "arena \<Rightarrow> bool" where
  "arena_bounds a \<longleftrightarrow> take_bit 12 (ar_base a) = 0 \<and> unat (ar_base a) + 4096 * length (ar_tables a) \<le> 2 ^ 56
     \<and> 0 < ar_used a \<and> ar_used a \<le> length (ar_tables a)"

definition arena_lv :: "(nat \<Rightarrow> nat) \<Rightarrow> arena \<Rightarrow> bool" where
  "arena_lv lvl a \<longleftrightarrow> arena_bounds a \<and> lvl 0 = 2
     \<and> (\<forall>i<ar_used a. lvl i \<le> 2)
     \<and> (\<forall>i<ar_used a. \<forall>j. is_valid (ent a i j) \<longrightarrow>
          (if lvl i = 0 then is_leaf (ent a i j)
           else \<exists>t. step1 a i j = Some t \<and> 0 < t \<and> t < ar_used a \<and> Suc (lvl t) = lvl i))
     \<and> (\<forall>i<ar_used a. \<forall>i'<ar_used a. \<forall>j j' t. 0 < lvl i \<longrightarrow> 0 < lvl i' \<longrightarrow>
          step1 a i j = Some t \<longrightarrow> step1 a i' j' = Some t \<longrightarrow> i = i' \<and> j = j')"

definition arena_inv :: "arena \<Rightarrow> bool" where
  "arena_inv a \<longleftrightarrow> (\<exists>lvl. arena_lv lvl a)"

lemma arena_lv_bounds: "arena_lv lvl a \<Longrightarrow> arena_bounds a \<and> lvl 0 = 2 \<and> 0 < ar_used a \<and> ar_used a \<le> length (ar_tables a)"
  by (simp add: arena_lv_def arena_bounds_def)

lemma arena_lv_valid:
  assumes "arena_lv lvl a" "i < ar_used a" "0 < lvl i" "is_valid (ent a i j)"
  shows "\<exists>t. step1 a i j = Some t \<and> 0 < t \<and> t < ar_used a \<and> Suc (lvl t) = lvl i"
proof -
  have "if lvl i = 0 then is_leaf (ent a i j)
        else \<exists>t. step1 a i j = Some t \<and> 0 < t \<and> t < ar_used a \<and> Suc (lvl t) = lvl i"
    using assms(1,2,4) unfolding arena_lv_def by blast
  with assms(3) show ?thesis by simp
qed

lemma arena_lv_step:
  assumes "arena_lv lvl a" "i < ar_used a" "0 < lvl i" "step1 a i j = Some t"
  shows "0 < t \<and> t < ar_used a \<and> Suc (lvl t) = lvl i"
proof -
  have "is_valid (ent a i j)" using assms(4) by (simp add: step1_def split: if_splits)
  from arena_lv_valid [OF assms(1-3) this] assms(4) show ?thesis by auto
qed

lemma arena_lv_invalid:
  assumes "arena_lv lvl a" "i < ar_used a" "0 < lvl i"
  shows "step1 a i j = None \<longleftrightarrow> \<not> is_valid (ent a i j)"
  using arena_lv_valid [OF assms, of j] by (auto simp: step1_def)

lemma arena_lv_leaf: "arena_lv lvl a \<Longrightarrow> i < ar_used a \<Longrightarrow> lvl i = 0 \<Longrightarrow> is_valid (ent a i j) \<Longrightarrow> is_leaf (ent a i j)"
  by (simp add: arena_lv_def)

lemma arena_lv_inj:
  "arena_lv lvl a \<Longrightarrow> i < ar_used a \<Longrightarrow> i' < ar_used a \<Longrightarrow> 0 < lvl i \<Longrightarrow> 0 < lvl i'
     \<Longrightarrow> step1 a i j = Some t \<Longrightarrow> step1 a i' j' = Some t \<Longrightarrow> i = i' \<and> j = j'"
  unfolding arena_lv_def by blast

lemma pa_of_value:
  assumes b: "arena_bounds a" and n: "n < length (ar_tables a)"
  shows "unat (pa_u64 (pa_of a n)) = unat (ar_base a) + 4096 * n \<and> take_bit 12 (pa_u64 (pa_of a n)) = 0"
proof -
  have bound: "unat (ar_base a) + 4096 * n < 2 ^ 56" using b n by (auto simp: arena_bounds_def)
  have mul: "unat (of_nat n * PAGE_SIZE) = 4096 * n"
    using bound by (simp add: PAGE_SIZE_def unat_word_ariths unat_of_nat take_bit_eq_mod mod_mult_left_eq)
  have val: "unat (pa_u64 (pa_of a n)) = unat (ar_base a) + 4096 * n"
    using bound mul by (simp add: pa_of_def unat_word_ariths)
  moreover have "unat (take_bit 12 (pa_u64 (pa_of a n))) = 0"
  proof -
    have "unat (take_bit 12 (ar_base a)) = 0" using b by (simp add: arena_bounds_def)
    then have "take_bit 12 (unat (ar_base a)) = 0" by (simp only: unsigned_take_bit_eq)
    then have "unat (ar_base a) mod 4096 = 0" by (simp add: take_bit_eq_mod)
    moreover have "take_bit 12 (unat (ar_base a) + 4096 * n) = unat (ar_base a) mod 4096"
      by (simp add: take_bit_eq_mod)
    ultimately show ?thesis by (simp only: unsigned_take_bit_eq val)
  qed
  ultimately show ?thesis by (simp add: unat_eq_0)
qed

lemma pointer_entry:
  assumes b: "arena_bounds a" and n: "n < length (ar_tables a)"
  shows "\<exists>e. pte_pointer (pa_of a n) = Ok e \<and> is_valid e \<and> \<not> is_leaf e \<and> table_index_of a e = n"
proof -
  let ?pa = "pa_of a n" and ?e = "Pte (PTE_V OR ppn_field (pa_of a n))"
  note V = pa_of_value [OF b n]
  have small: "unat (pa_u64 ?pa) < 2 ^ 56" using V b n by (auto simp: arena_bounds_def)
  have ok: "pte_pointer ?pa = Ok ?e" using V by (simp add: pte_pointer_def pa_aligned_def aligned_take_bit)
  have bits: "is_valid ?e" "\<not> is_leaf ?e"
    by (simp_all add: is_leaf_bits is_valid_bit flag_bits ppn_field_def PTE_V_def bit_or_iff bit_push_bit_iff)
  have "pte_ppn ?e = drop_bit 12 (pa_u64 ?pa)"
    using small by (rule pte_ppn_field) (simp add: PTE_V_def bit_or_iff bit_1_iff)
  then have "pte_ppn ?e * PAGE_SIZE = pa_u64 ?pa" using V by (simp add: aligned_ppn_mult)
  moreover have "unat ((pa_u64 ?pa - ar_base a) div PAGE_SIZE) = n"
  proof -
    have "unat (pa_u64 ?pa - ar_base a) = 4096 * n" using V by (simp add: unat_sub word_le_nat_alt)
    then show ?thesis by (simp add: unat_div PAGE_SIZE_def)
  qed
  ultimately have "table_index_of a ?e = n" by (simp add: table_index_of_def pte_ppn_def)
  with ok bits show ?thesis by blast
qed

definition leaf_result :: "pte \<Rightarrow> u64 \<Rightarrow> (phys_addr \<times> permissions) option" where
  "leaf_result e va =
     (if is_leaf e
      then Some (PhysAddr (pte_ppn e * PAGE_SIZE + (va AND (PAGE_SIZE - 1))),
        \<lparr>p_read = readable e, p_write = writable e, p_execute = executable e, p_user = pte_is_user e, p_device = False\<rparr>)
      else None)"

definition resolve :: "arena \<Rightarrow> u64 \<Rightarrow> (phys_addr \<times> permissions) option" where
  "resolve a va = (case step1 a 0 (vpn va 2) of None \<Rightarrow> None | Some c1 \<Rightarrow>
     (case step1 a c1 (vpn va 1) of None \<Rightarrow> None | Some c0 \<Rightarrow> leaf_result (ent a c0 (vpn va 0)) va))"

lemma walk_level_step1:
  "cur < length (ar_tables a) \<Longrightarrow> walk_level a cur va level = Some (step1 a cur (vpn va level))"
  by (auto simp: walk_level_def step1_def ent_def Let_def)

lemma upper_steps:
  assumes lv: "arena_lv lvl a" and c1: "step1 a 0 (vpn va 2) = Some c1"
  shows "c1 < ar_used a \<and> c1 \<noteq> 0 \<and> lvl c1 = 1"
    and "step1 a c1 (vpn va 1) = Some c0 \<Longrightarrow> c0 < ar_used a \<and> c0 \<noteq> 0 \<and> lvl c0 = 0"
proof -
  note B = arena_lv_bounds [OF lv]
  show 1: "c1 < ar_used a \<and> c1 \<noteq> 0 \<and> lvl c1 = 1"
    using arena_lv_step [OF lv _ _ c1] B by auto
  show "c0 < ar_used a \<and> c0 \<noteq> 0 \<and> lvl c0 = 0" if "step1 a c1 (vpn va 1) = Some c0"
    using arena_lv_step [OF lv _ _ that] 1 by auto
qed

lemma translate_resolve:
  assumes lv: "arena_lv lvl a"
  shows "translate a (VirtAddr va) = Some (resolve a va)"
proof -
  note B = arena_lv_bounds [OF lv]
  have w2: "walk_level a 0 va 2 = Some (step1 a 0 (vpn va 2))" using B by (intro walk_level_step1) auto
  show ?thesis
  proof (cases "step1 a 0 (vpn va 2)")
    case None
    then show ?thesis by (simp add: translate_def w2 resolve_def)
  next
    case (Some c1)
    note U = upper_steps [OF lv Some]
    have w1: "walk_level a c1 va 1 = Some (step1 a c1 (vpn va 1))" using B U(1) by (intro walk_level_step1) auto
    show ?thesis
    proof (cases "step1 a c1 (vpn va 1)")
      case None
      then show ?thesis using Some w1 by (simp add: translate_def w2 resolve_def)
    next
      case (Some c0)
      then have "c0 < length (ar_tables a)" using U(2) B by auto
      then show ?thesis
        using Some \<open>step1 a 0 (vpn va 2) = Some c1\<close> w1
        by (simp add: translate_def w2 resolve_def leaf_result_def ent_def pte_ppn_def Let_def)
    qed
  qed
qed

subsection \<open>Linking a fresh table\<close>

definition link_table :: "arena \<Rightarrow> nat \<Rightarrow> nat \<Rightarrow> pte \<Rightarrow> arena" where
  "link_table a i j e =
     table_set (a\<lparr>ar_tables := (ar_tables a)[ar_used a := table_zeroed], ar_used := ar_used a + 1\<rparr>) i j (pte_bits e)"

lemma table_index_cong: "ar_base a' = ar_base a \<Longrightarrow> table_index_of a' = table_index_of a"
  by (simp add: fun_eq_iff table_index_of_def)

lemma step1_cong: "ar_base a' = ar_base a \<Longrightarrow> ent a' i j = ent a x y \<Longrightarrow> step1 a' i j = step1 a x y"
  by (simp add: step1_def table_index_of_def)

lemma empty_entry: "\<not> is_valid (Pte 0)"
  by (simp add: is_valid_def)

lemma link_table_ent:
  assumes "i < ar_used a" "ar_used a < length (ar_tables a)" "x \<le> ar_used a"
  shows "ent (link_table a i j e) x y = (if x = i \<and> y = j then e else if x = ar_used a then Pte 0 else ent a x y)"
  using assms by (cases e) (auto simp: ent_def link_table_def table_set_def table_zeroed_def nth_list_update)

lemma link_table_fields:
  "ar_used (link_table a i j e) = Suc (ar_used a)" "ar_base (link_table a i j e) = ar_base a"
  "length (ar_tables (link_table a i j e)) = length (ar_tables a)"
  by (simp_all add: link_table_def table_set_def)

text \<open>A link is lawful: the slot is an invalid entry of an upper table, a table is free, and the
  new entry points to it.\<close>

definition link_ok :: "(nat \<Rightarrow> nat) \<Rightarrow> arena \<Rightarrow> nat \<Rightarrow> nat \<Rightarrow> pte \<Rightarrow> bool" where
  "link_ok lvl a i j e \<longleftrightarrow> arena_lv lvl a \<and> i < ar_used a \<and> 0 < lvl i \<and> \<not> is_valid (ent a i j)
     \<and> ar_used a < length (ar_tables a) \<and> is_valid e \<and> \<not> is_leaf e \<and> table_index_of a e = ar_used a"

lemma link_okD:
  assumes "link_ok lvl a i j e"
  shows "arena_lv lvl a" "i < ar_used a" "0 < lvl i" "\<not> is_valid (ent a i j)"
    "ar_used a < length (ar_tables a)" "is_valid e" "\<not> is_leaf e" "table_index_of a e = ar_used a"
  using assms by (simp_all add: link_ok_def)

lemma link_step1:
  assumes ok: "link_ok lvl a i j e" and x: "x \<le> ar_used a"
  shows "step1 (link_table a i j e) x y =
    (if x = i \<and> y = j then Some (ar_used a) else if x = ar_used a then None else step1 a x y)"
proof -
  note lv = link_okD(1) [OF ok] and i = link_okD(2,3) [OF ok] and fresh = link_okD(4) [OF ok]
    and room = link_okD(5) [OF ok] and e = link_okD(6-8) [OF ok]
  note E = link_table_ent [OF i(1) room x]
  have t: "table_index_of (link_table a i j e) = table_index_of a"
    by (rule table_index_cong) (simp add: link_table_fields)
  show ?thesis
    using i(1) e unfolding step1_def E t by (auto simp: empty_entry)
qed

lemma link_arena_lv:
  assumes ok: "link_ok lvl a i j e"
  shows "arena_lv (lvl(ar_used a := lvl i - 1)) (link_table a i j e)"
proof -
  note lv = link_okD(1) [OF ok] and i = link_okD(2,3) [OF ok] and fresh = link_okD(4) [OF ok]
    and room = link_okD(5) [OF ok] and e = link_okD(6-8) [OF ok]
  let ?a = "link_table a i j e" and ?n = "ar_used a"
  let ?lvl = "lvl(?n := lvl i - 1)"
  note B = arena_lv_bounds [OF lv]
  have bounds: "arena_bounds ?a" using B room by (simp add: arena_bounds_def link_table_fields)
  have le2: "?lvl x \<le> 2" if "x < Suc ?n" for x
    using that lv i by (auto simp: arena_lv_def less_Suc_eq)
  have targets: "if ?lvl x = 0 then is_leaf (ent ?a x y)
      else \<exists>t. step1 ?a x y = Some t \<and> 0 < t \<and> t < Suc ?n \<and> Suc (?lvl t) = ?lvl x"
    if x: "x < Suc ?n" and v: "is_valid (ent ?a x y)" for x y
  proof -
    have ent: "ent ?a x y = (if x = i \<and> y = j then e else if x = ?n then Pte 0 else ent a x y)"
      using x by (intro link_table_ent i(1) room) simp
    consider (new) "x = i" "y = j" | (old) "x < ?n" "\<not> (x = i \<and> y = j)"
      using ent v x empty_entry by (auto split: if_splits)
    then show ?thesis
    proof cases
      case new
      then show ?thesis using i B link_step1 [OF ok, of x y] by auto
    next
      case old
      then have same: "ent ?a x y = ent a x y" "step1 ?a x y = step1 a x y"
        using ent link_step1 [OF ok, of x y] by auto
      show ?thesis
      proof (cases "lvl x = 0")
        case True
        then show ?thesis using old same v arena_lv_leaf [OF lv, of x y] by simp
      next
        case False
        then obtain t where "step1 a x y = Some t" "0 < t" "t < ?n" "Suc (lvl t) = lvl x"
          using arena_lv_valid [OF lv old(1), of y] v same by auto
        then show ?thesis using old False same by auto
      qed
    qed
  qed
  have inj: "x = x' \<and> y = y'"
    if "x < Suc ?n" "x' < Suc ?n" "0 < ?lvl x" "0 < ?lvl x'" "step1 ?a x y = Some t" "step1 ?a x' y' = Some t"
    for x x' y y' t
  proof -
    have old: "t < ?n" if "z < ?n" "0 < lvl z" "step1 a z w = Some t" for z w
      using arena_lv_step [OF lv that] by simp
    show ?thesis
      using that link_step1 [OF ok, of x y] link_step1 [OF ok, of x' y']
        old [of x y] old [of x' y'] arena_lv_inj [OF lv, of x x' y t y']
      by (auto split: if_splits)
  qed
  have root: "?lvl 0 = 2" using B by simp
  show ?thesis
    unfolding arena_lv_def link_table_fields using bounds root le2 targets inj by blast
qed

lemma link_resolve:
  assumes ok: "link_ok lvl a i j e"
  shows "resolve (link_table a i j e) va = resolve a va"
proof -
  note lv = link_okD(1) [OF ok] and i = link_okD(2,3) [OF ok] and fresh = link_okD(4) [OF ok]
    and room = link_okD(5) [OF ok] and e = link_okD(6-8) [OF ok]
  let ?a = "link_table a i j e" and ?n = "ar_used a"
  note B = arena_lv_bounds [OF lv]
  have inv_none: "step1 a i j = None" using fresh by (simp add: step1_def)
  have s0: "step1 ?a 0 y = (if 0 = i \<and> y = j then Some ?n else step1 a 0 y)" for y
    using link_step1 [OF ok, of 0 y] B by auto
  have dead: "step1 ?a ?n y = None" for y using link_step1 [OF ok, of ?n y] i by auto
  show ?thesis
  proof (cases "i = 0 \<and> vpn va 2 = j")
    case True
    then show ?thesis using s0 [of "vpn va 2"] dead inv_none by (auto simp: resolve_def)
  next
    case False
    then have same: "step1 ?a 0 (vpn va 2) = step1 a 0 (vpn va 2)" using s0 by auto
    show ?thesis
    proof (cases "step1 a 0 (vpn va 2)")
      case None
      then show ?thesis using same by (simp add: resolve_def)
    next
      case (Some c1)
      note U = upper_steps [OF lv Some]
      have s1: "step1 ?a c1 y = (if c1 = i \<and> y = j then Some ?n else step1 a c1 y)" for y
        using link_step1 [OF ok, of c1 y] U(1) by auto
      show ?thesis
      proof (cases "c1 = i \<and> vpn va 1 = j")
        case True
        have "ent ?a ?n (vpn va 0) = Pte 0" using link_table_ent [OF i(1) room, of ?n] i(1) by simp
        then show ?thesis
          using True Some same s1 inv_none by (simp add: resolve_def leaf_result_def is_leaf_def empty_entry)
      next
        case False
        then have same1: "step1 ?a c1 (vpn va 1) = step1 a c1 (vpn va 1)" using s1 by auto
        have "ent ?a c0 (vpn va 0) = ent a c0 (vpn va 0)" if "step1 a c1 (vpn va 1) = Some c0" for c0
        proof -
          have "c0 < ?n" "c0 \<noteq> i" using U(2) [OF that] i(2) by auto
          then show ?thesis using link_table_ent [OF i(1) room, of c0] by auto
        qed
        then show ?thesis using Some same same1 by (auto simp: resolve_def split: option.splits)
      qed
    qed
  qed
qed


subsection \<open>Setting a leaf\<close>

lemma table_set_ent:
  assumes "cur < length (ar_tables a)"
  shows "ent (table_set a cur idx w) x y = (if x = cur \<and> y = idx then Pte w else ent a x y)"
  using assms by (auto simp: ent_def table_set_def nth_list_update)

lemma table_set_fields [simp]:
  "ar_used (table_set a cur idx w) = ar_used a" "ar_base (table_set a cur idx w) = ar_base a"
  "length (ar_tables (table_set a cur idx w)) = length (ar_tables a)"
  by (simp_all add: table_set_def)

definition leaf_ok :: "(nat \<Rightarrow> nat) \<Rightarrow> arena \<Rightarrow> nat \<Rightarrow> u64 \<Rightarrow> bool" where
  "leaf_ok lvl a cur w \<longleftrightarrow> arena_lv lvl a \<and> cur < ar_used a \<and> lvl cur = 0 \<and> is_leaf (Pte w)"

lemma leaf_okD:
  assumes "leaf_ok lvl a cur w"
  shows "arena_lv lvl a" "cur < ar_used a" "lvl cur = 0" "is_leaf (Pte w)"
  using assms by (simp_all add: leaf_ok_def)

lemma leaf_step1:
  assumes ok: "leaf_ok lvl a cur w"
  shows "step1 (table_set a cur idx w) x y = (if x = cur \<and> y = idx then None else step1 a x y)"
proof -
  note lv = leaf_okD(1) [OF ok] and cur = leaf_okD(2,3) [OF ok] and leaf = leaf_okD(4) [OF ok]
  have "cur < length (ar_tables a)" using cur arena_lv_bounds [OF lv] by auto
  note E = table_set_ent [OF this]
  have t: "table_index_of (table_set a cur idx w) = table_index_of a" by (rule table_index_cong) simp
  show ?thesis using leaf by (auto simp: step1_def E t)
qed

lemma leaf_arena_lv:
  assumes ok: "leaf_ok lvl a cur w"
  shows "arena_lv lvl (table_set a cur idx w)"
proof -
  note lv = leaf_okD(1) [OF ok] and cur = leaf_okD(2,3) [OF ok] and leaf = leaf_okD(4) [OF ok]
  let ?a = "table_set a cur idx w"
  note B = arena_lv_bounds [OF lv]
  have len: "cur < length (ar_tables a)" using cur B by auto
  have targets: "if lvl x = 0 then is_leaf (ent ?a x y)
      else \<exists>t. step1 ?a x y = Some t \<and> 0 < t \<and> t < ar_used a \<and> Suc (lvl t) = lvl x"
    if x: "x < ar_used a" and v: "is_valid (ent ?a x y)" for x y
  proof (cases "lvl x = 0")
    case True
    then show ?thesis
      using leaf v x arena_lv_leaf [OF lv x True, of y] by (auto simp: table_set_ent [OF len] split: if_splits)
  next
    case False
    then have "x \<noteq> cur" using cur by auto
    then show ?thesis
      using False v x arena_lv_valid [OF lv x, of y] by (auto simp: table_set_ent [OF len] leaf_step1 [OF ok])
  qed
  have inj: "x = x' \<and> y = y'"
    if "x < ar_used a" "x' < ar_used a" "0 < lvl x" "0 < lvl x'" "step1 ?a x y = Some t" "step1 ?a x' y' = Some t"
    for x x' y y' t
    using that arena_lv_inj [OF lv, of x x' y t y'] by (auto simp: leaf_step1 [OF ok] split: if_splits)
  have "arena_bounds ?a" using B by (simp add: arena_bounds_def)
  then show ?thesis
    using B lv targets inj unfolding arena_lv_def table_set_fields by blast
qed

lemma leaf_resolve:
  assumes ok: "leaf_ok lvl a cur w" and c1: "step1 a 0 v2 = Some c1" and c0: "step1 a c1 v1 = Some cur"
  shows "resolve (table_set a cur idx w) va =
    (if vpn va 2 = v2 \<and> vpn va 1 = v1 \<and> vpn va 0 = idx then leaf_result (Pte w) va else resolve a va)"
proof -
  note lv = leaf_okD(1) [OF ok] and cur = leaf_okD(2,3) [OF ok] and leaf = leaf_okD(4) [OF ok]
  let ?a = "table_set a cur idx w"
  note B = arena_lv_bounds [OF lv]
  have len: "cur < length (ar_tables a)" using cur B by auto
  have lc1: "c1 < ar_used a" "lvl c1 = 1" using arena_lv_step [OF lv _ _ c1] B by auto
  have "lvl cur \<noteq> lvl 0" "lvl cur \<noteq> lvl c1" using cur B lc1 by simp_all
  then have ne: "cur \<noteq> 0" "cur \<noteq> c1" by metis+
  have s0: "step1 ?a 0 y = step1 a 0 y" for y using ne by (simp add: leaf_step1 [OF ok])
  show ?thesis
  proof (cases "step1 a 0 (vpn va 2)")
    case None
    then show ?thesis using c1 s0 by (auto simp: resolve_def)
  next
    case (Some d1)
    note U = upper_steps [OF lv Some]
    have "d1 \<noteq> cur" using U(1) cur by auto
    then have s1: "step1 ?a d1 y = step1 a d1 y" for y by (simp add: leaf_step1 [OF ok])
    show ?thesis
    proof (cases "step1 a d1 (vpn va 1)")
      case None
      then have "\<not> (vpn va 2 = v2 \<and> vpn va 1 = v1)" using Some c1 c0 by auto
      then show ?thesis using None Some s0 s1 by (auto simp: resolve_def)
    next
      case (Some d0)
      have "vpn va 2 = v2 \<and> vpn va 1 = v1 \<longleftrightarrow> d0 = cur"
      proof
        assume "vpn va 2 = v2 \<and> vpn va 1 = v1"
        then show "d0 = cur" using Some \<open>step1 a 0 (vpn va 2) = Some d1\<close> c1 c0 by auto
      next
        assume "d0 = cur"
        then have "d1 = c1 \<and> vpn va 1 = v1"
          using arena_lv_inj [OF lv _ _ _ _ _ c0, of d1 "vpn va 1"] Some U(1) lc1 by auto
        moreover from this have "vpn va 2 = v2"
          using arena_lv_inj [OF lv _ _ _ _ _ c1, of 0 "vpn va 2"] \<open>step1 a 0 (vpn va 2) = Some d1\<close> B by auto
        ultimately show "vpn va 2 = v2 \<and> vpn va 1 = v1" by simp
      qed
      then show ?thesis
        using Some \<open>step1 a 0 (vpn va 2) = Some d1\<close> s0 s1
        by (auto simp: resolve_def table_set_ent [OF len])
    qed
  qed
qed

section \<open>Mapping a page\<close>

lemma map_level_result:
  assumes lv: "arena_lv lvl a" and cur: "cur < ar_used a" "0 < lvl cur"
  shows "\<exists>a' r lvl'. map_level a cur va level = Some (a', r) \<and> arena_lv lvl' a' \<and> (\<forall>v. resolve a' v = resolve a v)
    \<and> ar_used a \<le> ar_used a' \<and> (\<forall>x<ar_used a. lvl' x = lvl x)
    \<and> length (ar_tables a') = length (ar_tables a) \<and> ar_base a' = ar_base a
    \<and> (\<forall>x<ar_used a. \<forall>y. x \<noteq> cur \<longrightarrow> step1 a' x y = step1 a x y)
    \<and> (case r of Ok c \<Rightarrow> step1 a' cur (vpn va level) = Some c | Err e \<Rightarrow> e = OutOfTables \<and> ar_used a = length (ar_tables a))"
proof -
  note B = arena_lv_bounds [OF lv]
  let ?e = "ent a cur (vpn va level)"
  have len: "\<not> cur \<ge> length (ar_tables a)" using cur B by auto
  have ee: "Pte ((ar_tables a ! cur) (vpn va level)) = ?e" by (simp add: ent_def)
  show ?thesis
  proof (cases "is_valid ?e")
    case True
    then obtain t where t: "step1 a cur (vpn va level) = Some t" using arena_lv_valid [OF lv cur] by blast
    then have "\<not> is_leaf ?e" "t = table_index_of a ?e" by (auto simp: step1_def split: if_splits)
    then have "map_level a cur va level = Some (a, Ok t)"
      using True len by (simp add: map_level_def ee)
    with lv t show ?thesis by (intro exI [of _ a] exI [of _ "Ok t"] exI [of _ lvl]) simp
  next
    case False
    then have nl: "\<not> is_leaf ?e" by (simp add: is_leaf_def)
    show ?thesis
    proof (cases "ar_used a < length (ar_tables a)")
      case False
      then have "map_level a cur va level = Some (a, Err OutOfTables)"
        using len nl \<open>\<not> is_valid ?e\<close> by (simp add: map_level_def ee arena_alloc_def)
      with lv False B show ?thesis by (intro exI [of _ a] exI [of _ "Err OutOfTables"] exI [of _ lvl]) simp
    next
      case True
      obtain p where p: "pte_pointer (pa_of a (ar_used a)) = Ok p" "is_valid p" "\<not> is_leaf p" "table_index_of a p = ar_used a"
        using pointer_entry [of a "ar_used a"] B True by blast
      have ok: "link_ok lvl a cur (vpn va level) p"
        using lv cur \<open>\<not> is_valid ?e\<close> True p by (simp add: link_ok_def)
      have "map_level a cur va level = Some (link_table a cur (vpn va level) p, Ok (ar_used a))"
        using len nl \<open>\<not> is_valid ?e\<close> True p(1)
        by (simp add: map_level_def ee arena_alloc_def link_table_def pa_of_def)
      moreover have "step1 (link_table a cur (vpn va level) p) x y = step1 a x y" if "x < ar_used a" "x \<noteq> cur" for x y
        using that link_step1 [OF ok, of x y] by auto
      moreover have "step1 (link_table a cur (vpn va level) p) cur (vpn va level) = Some (ar_used a)"
        using cur link_step1 [OF ok, of cur "vpn va level"] by simp
      ultimately show ?thesis
        using link_arena_lv [OF ok] link_resolve [OF ok]
        by (intro exI [of _ "link_table a cur (vpn va level) p"] exI [of _ "Ok (ar_used a)"]
            exI [of _ "lvl(ar_used a := lvl cur - 1)"]) (simp add: link_table_fields)
    qed
  qed
qed

lemma pte_leaf_Ok:
  assumes ok: "pte_leaf pa p = Ok e" and small: "unat (pa_u64 pa) < 2 ^ 56"
  shows "is_leaf e \<and> pa_aligned pa \<and> pte_ppn e * PAGE_SIZE = pa_u64 pa
    \<and> readable e = p_read p \<and> writable e = p_write p \<and> executable e = p_execute p \<and> pte_is_user e = p_user p"
proof -
  have al: "pa_aligned pa" and acc: "p_read p \<or> p_write p \<or> p_execute p"
    using ok by (auto simp: pte_leaf_def split: if_splits)
  have bits: "bit (pte_bits e) k \<longleftrightarrow> k = 0 \<or> (p_read p \<and> k = 1) \<or> (p_write p \<and> k = 2) \<or> (p_execute p \<and> k = 3)
      \<or> (p_user p \<and> k = 4) \<or> k = 6 \<or> k = 7 \<or> bit (ppn_field pa) k" for k
    using ok by (auto simp: pte_leaf_def Let_def pte_flag_bit bit_or_iff split: if_splits)
  have low: "\<not> bit (ppn_field pa) k" if "k < 10" for k
    using that by (simp add: ppn_field_def bit_push_bit_iff)
  have "pte_ppn (Pte (pte_bits e)) = drop_bit 12 (pa_u64 pa)"
    using small by (rule pte_ppn_field) (auto simp: bits)
  then have "pte_ppn e * PAGE_SIZE = pa_u64 pa"
    using al by (cases e) (simp add: pa_aligned_def aligned_take_bit aligned_ppn_mult)
  moreover have "is_valid e" "readable e = p_read p" "writable e = p_write p" "executable e = p_execute p" "pte_is_user e = p_user p"
    using low by (simp_all add: is_valid_bit flag_bits bits)
  ultimately show ?thesis using al acc by (auto simp: is_leaf_bits)
qed

lemma map_page_result:
  assumes lv: "arena_lv lvl a" and small: "unat (pa_u64 pa) < 2 ^ 56"
  shows "\<exists>a' r. map_page a va pa p = Some (a', r) \<and> arena_inv a'
    \<and> length (ar_tables a') = length (ar_tables a) \<and> ar_base a' = ar_base a \<and> ar_used a \<le> ar_used a'
    \<and> (case r of
         Err e \<Rightarrow> (\<forall>v. resolve a' v = resolve a v) \<and> (e = PAlreadyMapped \<longrightarrow> resolve a (va_u64 va) \<noteq> None)
           \<and> e \<noteq> UnexpectedLeaf
       | Ok _ \<Rightarrow> va_aligned va \<and> pa_aligned pa \<and> resolve a (va_u64 va) = None
           \<and> (\<forall>v. resolve a' v = (if vpn v 2 = vpn (va_u64 va) 2 \<and> vpn v 1 = vpn (va_u64 va) 1 \<and> vpn v 0 = vpn (va_u64 va) 0
                then Some (PhysAddr (pa_u64 pa + (v AND (PAGE_SIZE - 1))), p\<lparr>p_device := False\<rparr>) else resolve a v)))"
proof -
  have inv: "arena_inv a" using lv by (auto simp: arena_inv_def)
  note B = arena_lv_bounds [OF lv]
  show ?thesis
  proof (cases "\<not> va_aligned va \<or> \<not> pa_aligned pa")
    case True
    then show ?thesis using inv by (simp add: map_page_def)
  next
    case al: False
    show ?thesis
    proof (cases "pte_leaf pa p")
      case (Err e)
      then show ?thesis using inv al by (simp add: map_page_def)
    next
      case (Ok leaf)
      note L = pte_leaf_Ok [OF Ok small]
      from map_level_result [OF lv, of 0 "va_u64 va" 2] B obtain a1 r1 lvl1 where
        m1: "map_level a 0 (va_u64 va) 2 = Some (a1, r1)" and lv1: "arena_lv lvl1 a1"
        and res1: "\<forall>v. resolve a1 v = resolve a v" and u1: "ar_used a \<le> ar_used a1"
        and f1: "length (ar_tables a1) = length (ar_tables a)" "ar_base a1 = ar_base a"
        and r1: "case r1 of Ok c \<Rightarrow> step1 a1 0 (vpn (va_u64 va) 2) = Some c
            | Err e \<Rightarrow> e = OutOfTables \<and> ar_used a = length (ar_tables a)"
        by auto
      show ?thesis
      proof (cases r1)
        case (Err e)
        then show ?thesis
          using al Ok m1 lv1 res1 u1 f1 r1 by (auto simp: map_page_def arena_inv_def)
      next
        case c1: (Ok c1)
        then have s1: "step1 a1 0 (vpn (va_u64 va) 2) = Some c1" using r1 by simp
        note U = upper_steps [OF lv1 s1]
        from map_level_result [OF lv1, of c1 "va_u64 va" 1] U(1) obtain a2 r2 lvl2 where
          m2: "map_level a1 c1 (va_u64 va) 1 = Some (a2, r2)" and lv2: "arena_lv lvl2 a2"
          and res2: "\<forall>v. resolve a2 v = resolve a1 v" and u2: "ar_used a1 \<le> ar_used a2"
          and f2: "length (ar_tables a2) = length (ar_tables a1)" "ar_base a2 = ar_base a1"
          and keep: "\<forall>x<ar_used a1. \<forall>y. x \<noteq> c1 \<longrightarrow> step1 a2 x y = step1 a1 x y"
          and r2: "case r2 of Ok c \<Rightarrow> step1 a2 c1 (vpn (va_u64 va) 1) = Some c
            | Err e \<Rightarrow> e = OutOfTables \<and> ar_used a1 = length (ar_tables a1)"
          by auto
        show ?thesis
        proof (cases r2)
          case (Err e)
          then show ?thesis
            using al Ok m1 c1 m2 lv2 res1 res2 u1 u2 f1 f2 r2 by (auto simp: map_page_def arena_inv_def)
        next
          case c0: (Ok c0)
          have t1: "step1 a2 0 (vpn (va_u64 va) 2) = Some c1"
            using keep s1 U(1) arena_lv_bounds [OF lv1] by auto
          have t0: "step1 a2 c1 (vpn (va_u64 va) 1) = Some c0" using r2 c0 by simp
          have c0b: "c0 < ar_used a2" "lvl2 c0 = 0" using upper_steps(2) [OF lv2 t1 t0] by auto
          then have len: "\<not> c0 \<ge> length (ar_tables a2)" using arena_lv_bounds [OF lv2] by auto
          let ?idx = "vpn (va_u64 va) 0"
          have here: "resolve a (va_u64 va) = leaf_result (ent a2 c0 ?idx) (va_u64 va)"
            using res1 res2 t1 t0 by (metis (no_types, lifting) option.simps(5) resolve_def)
          show ?thesis
          proof (cases "is_valid (ent a2 c0 ?idx)")
            case True
            then have "is_leaf (ent a2 c0 ?idx)" using arena_lv_leaf [OF lv2 c0b] by blast
            then have "resolve a (va_u64 va) \<noteq> None" by (simp add: here leaf_result_def)
            then show ?thesis
              using True al Ok m1 c1 m2 c0 len lv2 res1 res2 u1 u2 f1 f2
              by (auto simp: map_page_def arena_inv_def ent_def)
          next
            case False
            then have none: "resolve a (va_u64 va) = None" by (simp add: here leaf_result_def is_leaf_def)
            have lok: "leaf_ok lvl2 a2 c0 (pte_bits leaf)"
              using lv2 c0b L by (cases leaf) (simp add: leaf_ok_def)
            have run: "map_page a va pa p = Some (table_set a2 c0 ?idx (pte_bits leaf), Ok ())"
              using False al Ok m1 c1 m2 c0 len by (simp add: map_page_def ent_def)
            have "leaf_result (Pte (pte_bits leaf)) v = Some (PhysAddr (pa_u64 pa + (v AND (PAGE_SIZE - 1))), p\<lparr>p_device := False\<rparr>)" for v
              using L by (cases leaf) (simp add: leaf_result_def)
            moreover have "arena_inv (table_set a2 c0 ?idx (pte_bits leaf))"
              unfolding arena_inv_def using leaf_arena_lv [OF lok] by blast
            ultimately show ?thesis
              using run al none leaf_resolve [OF lok t1 t0, of ?idx] res1 res2 u1 u2 f1 f2 by auto
          qed
        qed
      qed
    qed
  qed
qed

lemma vpn_take_bit: "vpn va level = unat (take_bit 9 (drop_bit (12 + level * 9) va))"
proof -
  have "(0x1ff :: u64) = mask 9" by (simp add: mask_eq_exp_minus_1)
  then show ?thesis by (simp add: vpn_def take_bit_eq_mask)
qed

lemma vpn_eq_bits:
  "vpn x l = vpn y l \<longleftrightarrow> (\<forall>k<9. bit x (12 + l * 9 + k) = bit y (12 + l * 9 + k))"
proof -
  have "vpn x l = vpn y l \<longleftrightarrow> take_bit 9 (drop_bit (12 + l * 9) x) = take_bit 9 (drop_bit (12 + l * 9) y)"
    by (simp add: vpn_take_bit word_unat_eq_iff)
  also have "\<dots> \<longleftrightarrow> (\<forall>k<9. bit x (12 + l * 9 + k) = bit y (12 + l * 9 + k))"
  proof -
    have "(\<forall>n<64. (n < 9 \<and> P n) = (n < 9 \<and> Q n)) \<longleftrightarrow> (\<forall>n<9. P n = Q n)" for P Q :: "nat \<Rightarrow> bool"
    proof
      assume h: "\<forall>n<64. (n < 9 \<and> P n) = (n < 9 \<and> Q n)"
      show "\<forall>n<9. P n = Q n"
      proof (intro allI impI)
        fix n :: nat assume "n < 9"
        with h [rule_format, of n] show "P n = Q n" by simp
      qed
    qed auto
    then show ?thesis by (simp add: bit_eq_iff bit_take_bit_iff bit_drop_bit_eq)
  qed
  finally show ?thesis .
qed

text \<open>Within the 39-bit address space the three indexes determine the page and nothing else.\<close>

lemma vpn_page_iff:
  assumes "unat x < 2 ^ 39" "unat y < 2 ^ 39"
  shows "vpn x 2 = vpn y 2 \<and> vpn x 1 = vpn y 1 \<and> vpn x 0 = vpn y 0 \<longleftrightarrow> drop_bit 12 x = drop_bit 12 y"
proof
  have high: "k < 39" if "bit w k" "unat w < 2 ^ 39" for w :: u64 and k
  proof -
    have "take_bit 39 w = w" using that(2) by (simp add: word_unat_eq_iff unsigned_take_bit_eq take_bit_nat_eq_self)
    with that(1) have "bit (take_bit 39 w) k" by simp
    then show ?thesis by (simp add: bit_take_bit_iff)
  qed
  assume eq: "vpn x 2 = vpn y 2 \<and> vpn x 1 = vpn y 1 \<and> vpn x 0 = vpn y 0"
  show "drop_bit 12 x = drop_bit 12 y"
  proof (rule bit_word_eqI)
    fix k assume "k < LENGTH(64)"
    consider "k < 9" | "9 \<le> k" "k < 18" | "18 \<le> k" "k < 27" | "27 \<le> k" by linarith
    then show "bit (drop_bit 12 x) k = bit (drop_bit 12 y) k"
    proof cases
      case 1
      with eq show ?thesis by (simp add: vpn_eq_bits bit_drop_bit_eq)
    next
      case 2
      have "\<forall>k<9. bit x (12 + 1 * 9 + k) = bit y (12 + 1 * 9 + k)" using eq vpn_eq_bits [of x 1 y] by simp
      from this [rule_format, of "k - 9"] 2
      have "bit x (12 + 1 * 9 + (k - 9)) = bit y (12 + 1 * 9 + (k - 9))" by linarith
      with 2 show ?thesis by (simp add: bit_drop_bit_eq)
    next
      case 3
      have "\<forall>k<9. bit x (12 + 2 * 9 + k) = bit y (12 + 2 * 9 + k)" using eq vpn_eq_bits [of x 2 y] by simp
      from this [rule_format, of "k - 18"] 3
      have "bit x (12 + 2 * 9 + (k - 18)) = bit y (12 + 2 * 9 + (k - 18))" by linarith
      with 3 show ?thesis by (simp add: bit_drop_bit_eq)
    next
      case 4
      then show ?thesis using high [of x "12 + k"] high [of y "12 + k"] assms by (auto simp: bit_drop_bit_eq)
    qed
  qed
next
  assume "drop_bit 12 x = drop_bit 12 y"
  then have low: "bit x (12 + k) = bit y (12 + k)" for k by (metis bit_drop_bit_eq comp_apply)
  have "vpn x l = vpn y l" for l
    unfolding vpn_eq_bits using low [of "l * 9 + k" for k] by (simp add: add.assoc)
  then show "vpn x 2 = vpn y 2 \<and> vpn x 1 = vpn y 1 \<and> vpn x 0 = vpn y 0"
    by blast
qed

lemma arena_inv_new:
  assumes "tables \<noteq> []" "tables ! 0 = table_zeroed" "take_bit 12 base = 0"
    and "unat base + 4096 * length tables \<le> 2 ^ 56"
  shows "arena_inv (arena_new tables base)"
proof -
  have "\<not> is_valid (ent (arena_new tables base) 0 j)" for j
    using assms(2) empty_entry by (simp add: ent_def arena_new_def table_zeroed_def)
  then have "arena_lv (\<lambda>_. 2) (arena_new tables base)"
    using assms by (auto simp: arena_lv_def arena_bounds_def arena_new_def step1_def Suc_le_eq)
  then show ?thesis by (auto simp: arena_inv_def)
qed

lemma aligned_dvd: "take_bit 12 (x :: u64) = 0 \<longleftrightarrow> 4096 dvd unat x"
proof -
  have "take_bit 12 (unat x) = unat (take_bit 12 x)" by (simp only: unsigned_take_bit_eq)
  then show ?thesis by (simp add: take_bit_eq_mod dvd_eq_mod_eq_0 unat_eq_0)
qed

lemma page_of_aligned:
  fixes addr v :: u64
  assumes "take_bit 12 addr = 0"
  shows "drop_bit 12 v = drop_bit 12 addr \<longleftrightarrow> unat addr \<le> unat v \<and> unat v < unat addr + 4096"
    and "drop_bit 12 v = drop_bit 12 addr \<Longrightarrow> addr + (v AND 0xfff) = v"
proof -
  have a: "4096 dvd unat addr" using assms by (simp add: aligned_dvd)
  have "drop_bit 12 v = drop_bit 12 addr \<longleftrightarrow> unat v div 4096 = unat addr div 4096"
    by (simp add: word_unat_eq_iff drop_bit_eq_div unat_div)
  also have "\<dots> \<longleftrightarrow> unat addr \<le> unat v \<and> unat v < unat addr + 4096"
  proof -
    obtain q where "unat addr = 4096 * q" using a by (auto elim: dvdE)
    moreover have "unat v div 4096 = q \<longleftrightarrow> 4096 * q \<le> unat v \<and> unat v < 4096 * q + 4096" by arith
    ultimately show ?thesis by simp
  qed
  finally show "drop_bit 12 v = drop_bit 12 addr \<longleftrightarrow> unat addr \<le> unat v \<and> unat v < unat addr + 4096" .
  have "(0xfff :: u64) = mask 12" by (simp add: mask_eq_exp_minus_1)
  then have m: "v AND 0xfff = take_bit 12 v" by (simp add: take_bit_eq_mask)
  assume "drop_bit 12 v = drop_bit 12 addr"
  moreover have "push_bit 12 (drop_bit 12 addr) = addr" using bits_ident [of 12 addr] assms by simp
  ultimately show "addr + (v AND 0xfff) = v" using bits_ident [of 12 v] m by simp
qed

section \<open>Properties\<close>

text \<open>C15. \<open>map_page\<close> and the hardware walk agree: on a well-formed arena mapping
  never panics and keeps the arena well-formed. On success the page translates to the given frame, offset
  by offset, with the given permissions, it was unmapped before, and every other 39-bit address translates
  exactly as before. On every error, running out of tables half-way included, no address translates
  differently, and \<open>AlreadyMapped\<close> is reported only for a page that translates.\<close>

theorem map_page_translate:
  assumes "arena_inv a" and "unat (pa_u64 pa) < 2 ^ 56" and "unat (va_u64 va) < 2 ^ 39"
  shows "\<exists>a' r. map_page a va pa p = Some (a', r) \<and> arena_inv a' \<and>
    (case r of
       Ok _ \<Rightarrow> translate a va = Some None
         \<and> (\<forall>v. unat v < 2 ^ 39 \<longrightarrow> translate a' (VirtAddr v) =
              (if drop_bit 12 v = drop_bit 12 (va_u64 va)
               then Some (Some (PhysAddr (pa_u64 pa + (v AND 0xfff)), p\<lparr>p_device := False\<rparr>))
               else translate a (VirtAddr v)))
     | Err e \<Rightarrow> (\<forall>v. translate a' (VirtAddr v) = translate a (VirtAddr v))
         \<and> (e = PAlreadyMapped \<longrightarrow> translate a va \<noteq> Some None))"
proof -
  obtain lvl where lv: "arena_lv lvl a" using assms(1) by (auto simp: arena_inv_def)
  have tr: "translate b (VirtAddr v) = Some (resolve b v)" if "arena_inv b" for b v
    using that translate_resolve by (auto simp: arena_inv_def)
  obtain v0 where va: "va = VirtAddr v0" by (cases va)
  obtain a' r where run: "map_page a va pa p = Some (a', r)" "arena_inv a'"
    and R: "case r of
         Err e \<Rightarrow> (\<forall>v. resolve a' v = resolve a v) \<and> (e = PAlreadyMapped \<longrightarrow> resolve a (va_u64 va) \<noteq> None)
           \<and> e \<noteq> UnexpectedLeaf
       | Ok _ \<Rightarrow> va_aligned va \<and> pa_aligned pa \<and> resolve a (va_u64 va) = None
           \<and> (\<forall>v. resolve a' v = (if vpn v 2 = vpn (va_u64 va) 2 \<and> vpn v 1 = vpn (va_u64 va) 1 \<and> vpn v 0 = vpn (va_u64 va) 0
                then Some (PhysAddr (pa_u64 pa + (v AND (PAGE_SIZE - 1))), p\<lparr>p_device := False\<rparr>) else resolve a v))"
    using map_page_result [OF lv assms(2), of va p] by blast
  show ?thesis
  proof (cases r)
    case (Err e)
    with run R show ?thesis by (simp add: tr [OF assms(1)] tr [OF run(2)] va)
  next
    case (Ok u)
    have "translate a' (VirtAddr v) = (if drop_bit 12 v = drop_bit 12 (va_u64 va)
               then Some (Some (PhysAddr (pa_u64 pa + (v AND 0xfff)), p\<lparr>p_device := False\<rparr>))
               else translate a (VirtAddr v))" if "unat v < 2 ^ 39" for v
      using Ok R vpn_page_iff [OF that assms(3)] by (simp add: tr [OF assms(1)] tr [OF run(2)] PAGE_SIZE_def)
    then show ?thesis using Ok R run by (simp add: tr [OF assms(1)] va)
  qed
qed

theorem map_page_translate_witness:
  "\<exists>a'. map_page (arena_new (replicate 3 table_zeroed) 0x80000000) (VirtAddr 0x10000) (PhysAddr 0x84000000) user_rw
      = Some (a', Ok ())
     \<and> translate a' (VirtAddr 0x10123) = Some (Some (PhysAddr 0x84000123, user_rw))"
proof -
  let ?a = "arena_new (replicate 3 table_zeroed) 0x80000000"
  have inv: "arena_inv ?a"
    by (rule arena_inv_new) (simp_all add: take_bit_eq_mod)
  obtain a' where ok: "map_page ?a (VirtAddr 0x10000) (PhysAddr 0x84000000) user_rw = Some (a', Ok ())"
    by (simp add: map_page_def va_aligned_def pa_aligned_def is_multiple_of_def PAGE_SIZE_def pte_leaf_def user_rw_def
        map_level_def arena_new_def table_zeroed_def is_leaf_def is_valid_def arena_alloc_def pte_pointer_def pa_of_def
        table_set_def table_index_of_def ppn_field_def pte_flags vpn_def)
  have "unat (pa_u64 (PhysAddr 0x84000000)) < 2 ^ 56" "unat (va_u64 (VirtAddr 0x10000)) < 2 ^ 39" by simp_all
  from map_page_translate [OF inv this, where p = user_rw] ok
  have "\<forall>v. unat v < 2 ^ 39 \<longrightarrow> translate a' (VirtAddr v) =
      (if drop_bit 12 v = drop_bit 12 (va_u64 (VirtAddr 0x10000))
       then Some (Some (PhysAddr (pa_u64 (PhysAddr 0x84000000) + (v AND 0xfff)), user_rw\<lparr>p_device := False\<rparr>))
       else translate ?a (VirtAddr v))" by simp
  then have "unat (0x10123 :: u64) < 2 ^ 39 \<longrightarrow> translate a' (VirtAddr 0x10123) =
      (if drop_bit 12 (0x10123 :: u64) = drop_bit 12 (va_u64 (VirtAddr 0x10000))
       then Some (Some (PhysAddr (pa_u64 (PhysAddr 0x84000000) + (0x10123 AND 0xfff)), user_rw\<lparr>p_device := False\<rparr>))
       else translate ?a (VirtAddr 0x10123))" by (rule spec)
  with ok show ?thesis by (simp add: user_rw_def)
qed

lemma identity_map_loop_result:
  assumes "arena_inv a" "take_bit 12 addr = 0" "take_bit 12 lim = 0" "unat lim \<le> 2 ^ 39"
  shows "\<exists>a' r. identity_map_loop a addr lim p = Some (a', r) \<and> arena_inv a'
    \<and> (\<forall>v. unat v < 2 ^ 39 \<longrightarrow> \<not> (unat addr \<le> unat v \<and> unat v < unat lim) \<longrightarrow> resolve a' v = resolve a v)
    \<and> (is_ok r \<longrightarrow> (\<forall>v. unat addr \<le> unat v \<and> unat v < unat lim \<longrightarrow> resolve a' v = Some (PhysAddr v, p\<lparr>p_device := False\<rparr>)))"
  using assms
proof (induction "unat lim - unat addr" arbitrary: a addr rule: less_induct)
  case less
  show ?case
  proof (cases "addr < lim")
    case False
    then show ?thesis
      using less.prems(1) by (subst identity_map_loop.simps) (auto simp: word_less_nat_alt)
  next
    case True
    then have lt: "unat addr < unat lim" by (simp add: word_less_nat_alt)
    obtain lvl where lv: "arena_lv lvl a" using less.prems(1) by (auto simp: arena_inv_def)
    have small: "unat (pa_u64 (PhysAddr addr)) < 2 ^ 56" and small39: "unat addr < 2 ^ 39"
      using lt less.prems(4) by simp_all
    obtain a1 r1 where m: "map_page a (VirtAddr addr) (PhysAddr addr) p = Some (a1, r1)" "arena_inv a1"
      and R: "case r1 of
         Err e \<Rightarrow> (\<forall>v. resolve a1 v = resolve a v) \<and> (e = PAlreadyMapped \<longrightarrow> resolve a addr \<noteq> None) \<and> e \<noteq> UnexpectedLeaf
       | Ok _ \<Rightarrow> va_aligned (VirtAddr addr) \<and> pa_aligned (PhysAddr addr) \<and> resolve a addr = None
           \<and> (\<forall>v. resolve a1 v = (if vpn v 2 = vpn addr 2 \<and> vpn v 1 = vpn addr 1 \<and> vpn v 0 = vpn addr 0
                then Some (PhysAddr (addr + (v AND (PAGE_SIZE - 1))), p\<lparr>p_device := False\<rparr>) else resolve a v))"
      using map_page_result [OF lv small, of "VirtAddr addr" p] unfolding va_u64.simps pa_u64.simps by blast
    show ?thesis
    proof (cases r1)
      case (Err e)
      with m R True show ?thesis by (subst identity_map_loop.simps) simp
    next
      case (Ok u)
      have page: "resolve a1 v = (if unat addr \<le> unat v \<and> unat v < unat addr + 4096
          then Some (PhysAddr v, p\<lparr>p_device := False\<rparr>) else resolve a v)" if "unat v < 2 ^ 39" for v
        using R Ok vpn_page_iff [OF that small39] page_of_aligned [OF less.prems(2), of v]
        by (auto simp: PAGE_SIZE_def)
      obtain q where q: "unat addr = 4096 * q" using less.prems(2) by (auto simp: aligned_dvd elim: dvdE)
      obtain q' where q': "unat lim = 4096 * q'" using less.prems(3) by (auto simp: aligned_dvd elim: dvdE)
      have next_le: "unat addr + 4096 \<le> unat lim" using lt q q' by auto
      have next_val: "unat (addr + PAGE_SIZE) = unat addr + 4096"
        using next_le less.prems(4) by (simp add: PAGE_SIZE_def unat_word_ariths)
      have next_al: "take_bit 12 (addr + PAGE_SIZE) = 0"
        unfolding aligned_dvd next_val by (simp add: q)
      have dec: "unat lim - unat (addr + PAGE_SIZE) < unat lim - unat addr" using next_val lt by linarith
      from less.hyps [OF dec m(2) next_al less.prems(3,4)] obtain a' r where
        rec: "identity_map_loop a1 (addr + PAGE_SIZE) lim p = Some (a', r)" "arena_inv a'"
        and out: "\<forall>v. unat v < 2 ^ 39 \<longrightarrow> \<not> (unat addr + 4096 \<le> unat v \<and> unat v < unat lim) \<longrightarrow> resolve a' v = resolve a1 v"
        and ins: "is_ok r \<longrightarrow> (\<forall>v. unat addr + 4096 \<le> unat v \<and> unat v < unat lim \<longrightarrow> resolve a' v = Some (PhysAddr v, p\<lparr>p_device := False\<rparr>))"
        unfolding next_val by blast
      have loop: "identity_map_loop a addr lim p = Some (a', r)"
        using True m(1) Ok rec(1) by (subst identity_map_loop.simps) simp
      have out': "resolve a' v = resolve a v" if "unat v < 2 ^ 39" "\<not> (unat addr \<le> unat v \<and> unat v < unat lim)" for v
        using out page [OF that(1)] that next_le by auto
      have ins': "resolve a' v = Some (PhysAddr v, p\<lparr>p_device := False\<rparr>)"
        if "is_ok r" "unat addr \<le> unat v" "unat v < unat lim" for v
      proof (cases "unat addr + 4096 \<le> unat v")
        case True
        then show ?thesis using ins that by blast
      next
        case False
        have "unat v < 2 ^ 39" using that(3) less.prems(4) by simp
        then show ?thesis using False out page [of v] that by simp
      qed
      show ?thesis using loop rec(2) out' ins' by blast
    qed
  qed
qed

text \<open>C36. \<open>identity_map_range\<close> terminates and is exact: for a page-aligned range
  below the 39-bit limit the loop returns without a panic. When it reports success, precisely the
  addresses of the range translate to themselves with the given permissions and all other addresses
  translate as before; when it reports an error, no address outside the range changed.\<close>

theorem identity_map_range_exact:
  assumes "arena_inv a" and "is_multiple_of start PAGE_SIZE" and "is_multiple_of lim PAGE_SIZE"
    and "unat lim \<le> 2 ^ 39"
  shows "\<exists>a' r. identity_map_range a start lim p = Some (a', r) \<and> arena_inv a'
    \<and> (\<forall>v. unat v < 2 ^ 39 \<longrightarrow> \<not> (start \<le> v \<and> v < lim) \<longrightarrow> translate a' (VirtAddr v) = translate a (VirtAddr v))
    \<and> (is_ok r \<longrightarrow> (\<forall>v. start \<le> v \<and> v < lim \<longrightarrow>
           translate a' (VirtAddr v) = Some (Some (PhysAddr v, p\<lparr>p_device := False\<rparr>))))"
proof -
  have tr: "translate b (VirtAddr v) = Some (resolve b v)" if "arena_inv b" for b v
    using that translate_resolve by (auto simp: arena_inv_def)
  obtain a' r where run: "identity_map_loop a start lim p = Some (a', r)" "arena_inv a'"
    and out: "\<forall>v. unat v < 2 ^ 39 \<longrightarrow> \<not> (unat start \<le> unat v \<and> unat v < unat lim) \<longrightarrow> resolve a' v = resolve a v"
    and ins: "is_ok r \<longrightarrow> (\<forall>v. unat start \<le> unat v \<and> unat v < unat lim \<longrightarrow> resolve a' v = Some (PhysAddr v, p\<lparr>p_device := False\<rparr>))"
    using identity_map_loop_result [OF assms(1), of start lim p] assms(2-4) unfolding aligned_take_bit by blast
  show ?thesis
    unfolding identity_map_range_def word_le_nat_alt word_less_nat_alt using run out ins
      tr [OF assms(1)] tr [OF run(2)]
    by (intro exI [of _ a'] exI [of _ r]) simp
qed

theorem identity_map_range_exact_witness:
  "\<exists>a' r. identity_map_range (arena_new (replicate 4 table_zeroed) 0x80000000) 0x80200000 0x80203000 kernel_rw = Some (a', r)
     \<and> arena_inv a' \<and> translate a' (VirtAddr 0x1000) =
        translate (arena_new (replicate 4 table_zeroed) 0x80000000) (VirtAddr 0x1000)"
proof -
  let ?a = "arena_new (replicate 4 table_zeroed) 0x80000000"
  have "arena_inv ?a" by (rule arena_inv_new) (simp_all add: take_bit_eq_mod)
  moreover have "is_multiple_of 0x80200000 PAGE_SIZE" "is_multiple_of 0x80203000 PAGE_SIZE"
      "unat (0x80203000 :: u64) \<le> 2 ^ 39"
    by (simp_all add: is_multiple_of_def PAGE_SIZE_def)
  ultimately obtain a' r where "identity_map_range ?a 0x80200000 0x80203000 kernel_rw = Some (a', r)" "arena_inv a'"
    and out: "\<forall>v. unat v < 2 ^ 39 \<longrightarrow> \<not> (0x80200000 \<le> v \<and> v < 0x80203000) \<longrightarrow> translate a' (VirtAddr v) = translate ?a (VirtAddr v)"
    using identity_map_range_exact [of ?a "0x80200000" "0x80203000" kernel_rw] by blast
  moreover from out have "unat (0x1000 :: u64) < 2 ^ 39 \<longrightarrow> \<not> ((0x80200000 :: u64) \<le> 0x1000 \<and> (0x1000 :: u64) < 0x80203000)
      \<longrightarrow> translate a' (VirtAddr 0x1000) = translate ?a (VirtAddr 0x1000)" by (rule spec)
  ultimately show ?thesis by (auto simp: word_le_nat_alt)
qed

text \<open>Hardware entries realise the permission rules of the model: a leaf entry exists only for
  an aligned frame, its R, W, X, U bits and page number read back exactly as given, it is never
  user-accessible and both writable and executable, never writable without being readable. The
  encoder accepts every permission set the page table model accepts except write-without-read;
  conversely the only sets it accepts that the model rejects are user device mappings.\<close>

theorem pte_leaf_realises_model:
  assumes "unat (pa_u64 pa) < 2 ^ 56"
  shows "(is_ok (pte_leaf pa p) \<longleftrightarrow> pa_aligned pa \<and> \<not> (p_write p \<and> \<not> p_read p)
            \<and> (is_ok (validate_perms p) \<or> p_user p \<and> p_device p \<and> is_ok (validate_perms (p\<lparr>p_user := False\<rparr>))
                 \<and> \<not> (p_write p \<and> p_execute p)))
    \<and> (\<forall>e. pte_leaf pa p = Ok e \<longrightarrow> is_leaf e \<and> pte_ppn e * PAGE_SIZE = pa_u64 pa
          \<and> readable e = p_read p \<and> writable e = p_write p \<and> executable e = p_execute p \<and> pte_is_user e = p_user p
          \<and> \<not> (pte_is_user e \<and> writable e \<and> executable e) \<and> (writable e \<longrightarrow> readable e))"
proof -
  have "is_leaf e \<and> pte_ppn e * PAGE_SIZE = pa_u64 pa
          \<and> readable e = p_read p \<and> writable e = p_write p \<and> executable e = p_execute p \<and> pte_is_user e = p_user p
          \<and> \<not> (pte_is_user e \<and> writable e \<and> executable e) \<and> (writable e \<longrightarrow> readable e)"
    if ok: "pte_leaf pa p = Ok e" for e
    using pte_leaf_Ok [OF ok assms] ok by (auto simp: pte_leaf_def split: if_splits)
  moreover have "is_ok (pte_leaf pa p) \<longleftrightarrow> pa_aligned pa \<and> \<not> (p_write p \<and> \<not> p_read p)
            \<and> (is_ok (validate_perms p) \<or> p_user p \<and> p_device p \<and> is_ok (validate_perms (p\<lparr>p_user := False\<rparr>))
                 \<and> \<not> (p_write p \<and> p_execute p))"
    by (auto simp: pte_leaf_def validate_perms_def Let_def)
  ultimately show ?thesis by blast
qed

theorem pte_leaf_realises_model_witness:
  "is_ok (pte_leaf (PhysAddr 0x84000000) user_rx) \<and> \<not> is_ok (pte_leaf (PhysAddr 0x84000000) (user_rx\<lparr>p_write := True\<rparr>))"
proof -
  have "unat (pa_u64 (PhysAddr 0x84000000)) < 2 ^ 56" by simp
  from pte_leaf_realises_model [OF this, of user_rx] pte_leaf_realises_model [OF this, of "user_rx\<lparr>p_write := True\<rparr>"]
  show ?thesis by (simp add: user_rx_def validate_perms_def pa_aligned_def is_multiple_of_def PAGE_SIZE_def)
qed

end
