(* ===== verification/Devices.thy ===== *)
theory Devices
  imports Caps
begin

text \<open>
  The device object model of the driver framework (\<open>kernel/src/device/mod.rs\<close>) and the
  restricted image admission rule (\<open>kernel/src/loader/mod.rs\<close>): device rights (an instance of
  the rights algebra), the device table with its single check point, the outcome of raising an
  interrupt, the bounds rule of mediated accesses, and the decision whether a described image
  layout may be mapped.
\<close>

section \<open>Device objects\<close>

datatype device_id = DeviceId u32

datatype device_kind = BlockDeviceSkeleton | SyntheticNetwork

record mmio_region =
  mmio_base :: u64
  mmio_size :: u64

record irq_line =
  irq_endpoint :: u32

record dma_region =
  dma_base :: u64
  dma_size :: u64

record device_object =
  dev_id :: device_id
  dev_kind :: device_kind
  dev_mmio :: mmio_region
  dev_irq :: irq_line
  dev_dma :: dma_region

section \<open>Device rights\<close>

datatype device_rights = DeviceRights u16

definition D_NONE :: device_rights where "D_NONE = DeviceRights 0"
definition DEVICE_INFO :: device_rights where "DEVICE_INFO = DeviceRights (push_bit 0 1)"
definition MMIO_READ :: device_rights where "MMIO_READ = DeviceRights (push_bit 1 1)"
definition MMIO_WRITE :: device_rights where "MMIO_WRITE = DeviceRights (push_bit 2 1)"
definition DMA_READ :: device_rights where "DMA_READ = DeviceRights (push_bit 3 1)"
definition DMA_WRITE :: device_rights where "DMA_WRITE = DeviceRights (push_bit 4 1)"
definition IRQ_RECEIVE :: device_rights where "IRQ_RECEIVE = DeviceRights (push_bit 5 1)"
definition DRIVER_CONTROL :: device_rights where "DRIVER_CONTROL = DeviceRights (push_bit 6 1)"
definition NETWORK_DRIVER :: device_rights where "NETWORK_DRIVER = DeviceRights (push_bit 7 1)"

lemmas device_rights_consts [ax_const] = D_NONE_def DEVICE_INFO_def MMIO_READ_def MMIO_WRITE_def
  DMA_READ_def DMA_WRITE_def IRQ_RECEIVE_def DRIVER_CONTROL_def NETWORK_DRIVER_def

fun drights_bits :: "device_rights \<Rightarrow> u16" where
  "drights_bits (DeviceRights b) = b"

definition drights_union :: "device_rights \<Rightarrow> device_rights \<Rightarrow> device_rights" where
  "drights_union a b = DeviceRights (drights_bits a OR drights_bits b)"

definition drights_contains :: "device_rights \<Rightarrow> device_rights \<Rightarrow> bool" where
  "drights_contains a required \<longleftrightarrow> drights_bits a AND drights_bits required = drights_bits required"

definition drights_diminish :: "device_rights \<Rightarrow> device_rights \<Rightarrow> device_rights" where
  "drights_diminish a removed = DeviceRights (drights_bits a AND NOT (drights_bits removed))"

interpretation dev_rights: rights_algebra drights_bits D_NONE drights_union drights_contains drights_diminish
proof unfold_locales
  show "drights_bits a = drights_bits b \<Longrightarrow> a = b" for a b
    by (cases a; cases b) simp
qed (simp_all add: D_NONE_def drights_union_def drights_contains_def drights_diminish_def)

record device_capability =
  dcap_device :: device_id
  dcap_rights :: device_rights

definition device_capability_new :: "device_id \<Rightarrow> device_rights \<Rightarrow> device_capability" where
  "device_capability_new d r = \<lparr>dcap_device = d, dcap_rights = r\<rparr>"

definition dcap_derive_diminished :: "device_capability \<Rightarrow> device_rights \<Rightarrow> device_capability" where
  "dcap_derive_diminished c removed =
     \<lparr>dcap_device = dcap_device c, dcap_rights = drights_diminish (dcap_rights c) removed\<rparr>"

section \<open>The device table\<close>

datatype device_access_error = NoCapability | UnknownDevice | WrongDevice | DInsufficientRights | OutOfBounds

record device_table =
  dt_devices :: "device_object list"

definition dt_get :: "device_table \<Rightarrow> device_id \<Rightarrow> device_object option" where
  "dt_get t i = find (\<lambda>d. dev_id d = i) (dt_devices t)"

definition dt_check :: "device_table \<Rightarrow> device_capability option \<Rightarrow> device_id \<Rightarrow> device_rights
    \<Rightarrow> (device_access_error, device_object) result" where
  "dt_check t cap target required =
     (case cap of
        None \<Rightarrow> Err NoCapability
      | Some c \<Rightarrow>
          (case dt_get t (dcap_device c) of
             None \<Rightarrow> Err UnknownDevice
           | Some dev \<Rightarrow>
               if dev_id dev \<noteq> target then Err WrongDevice
               else if \<not> drights_contains (dcap_rights c) required then Err DInsufficientRights
               else Ok dev))"

datatype irq_raise_outcome = IrqDelivered | IrqPending | IrqDropped

definition irq_raise_outcome_of :: "bool \<Rightarrow> bool \<Rightarrow> bool \<Rightarrow> irq_raise_outcome" where
  "irq_raise_outcome_of receiver_registered receiver_alive receiver_waiting =
     (if \<not> receiver_registered \<or> \<not> receiver_alive then IrqDropped
      else if receiver_waiting then IrqDelivered else IrqPending)"

definition access_in_bounds :: "u64 \<Rightarrow> u64 \<Rightarrow> u64 \<Rightarrow> bool" where
  "access_in_bounds region_size offset width \<longleftrightarrow>
     (width = 1 \<or> width = 2 \<or> width = 4)
     \<and> is_multiple_of offset width
     \<and> (case checked_add offset width of None \<Rightarrow> False | Some e \<Rightarrow> e \<le> region_size)"

section \<open>Image admission\<close>

definition KERNEL_BASE :: u64 where "KERNEL_BASE = 0x80000000"
definition MAX_IMAGE_BYTES :: u64 where "MAX_IMAGE_BYTES = 131072"

record image_layout =
  il_base_va :: u64
  il_entry_offset :: u64
  il_text_size :: u64
  il_rodata_size :: u64
  il_stack_pages :: u64

datatype map_reject = EmptyText | EntryOutOfText | Oversized | KernelAddress | StackPolicy

definition admit_image_mapping :: "image_layout \<Rightarrow> (map_reject, unit) result" where
  "admit_image_mapping l =
     (if il_text_size l = 0 then Err EmptyText
      else if il_entry_offset l \<ge> il_text_size l then Err EntryOutOfText
      else case checked_add (il_text_size l) (il_rodata_size l) of
        None \<Rightarrow> Err Oversized
      | Some image_bytes \<Rightarrow>
          if image_bytes > MAX_IMAGE_BYTES then Err Oversized
          else if il_stack_pages l \<noteq> 1 then Err StackPolicy
          else let stack_bytes = saturating_mul (il_stack_pages l) 4096;
                   end_va = (case checked_add image_bytes stack_bytes of
                       None \<Rightarrow> None | Some span \<Rightarrow> checked_add (il_base_va l) span)
               in case end_va of
                 Some e \<Rightarrow> if il_base_va l < KERNEL_BASE \<and> e \<le> KERNEL_BASE then Ok () else Err KernelAddress
               | None \<Rightarrow> Err KernelAddress)"

section \<open>Lemmas\<close>

lemma access_in_bounds_iff:
  "access_in_bounds region_size offset width \<longleftrightarrow> unat width \<in> {1, 2, 4} \<and> unat width dvd unat offset
     \<and> unat offset + unat width \<le> unat region_size"
proof -
  have w: "width = 1 \<or> width = 2 \<or> width = 4 \<longleftrightarrow> unat width \<in> {1, 2, 4}"
    by (auto simp: word_unat_eq_iff)
  have m: "is_multiple_of offset width \<longleftrightarrow> unat width dvd unat offset" if "unat width \<in> {1, 2, 4}"
    using that by (intro is_multiple_of_dvd) auto
  have c: "(case checked_add offset width of None \<Rightarrow> False | Some e \<Rightarrow> e \<le> region_size)
      \<longleftrightarrow> unat offset + unat width \<le> unat region_size"
  proof (cases "checked_add offset width")
    case None
    then have "2 ^ 64 \<le> unat offset + unat width" by (simp add: checked_add_None_iff)
    moreover have "unat region_size < 2 ^ 64" using unsigned_less [of region_size] by simp
    ultimately show ?thesis using None by simp
  next
    case (Some e)
    then have "unat e = unat offset + unat width" by (simp only: checked_add_Some_iff)
    with Some show ?thesis by (simp add: word_le_nat_alt)
  qed
  show ?thesis unfolding access_in_bounds_def using w m c by blast
qed

lemma dt_get_Some: "dt_get t i = Some d \<Longrightarrow> d \<in> set (dt_devices t) \<and> dev_id d = i"
  by (auto simp: dt_get_def find_Some_iff in_set_conv_nth)

lemma dt_check_Ok_iff:
  "dt_check t cap target required = Ok dev \<longleftrightarrow>
     (\<exists>c. cap = Some c \<and> dcap_device c = target \<and> dt_get t target = Some dev
        \<and> drights_contains (dcap_rights c) required)"
proof (cases cap)
  case None
  then show ?thesis by (simp add: dt_check_def)
next
  case (Some c)
  show ?thesis
  proof (cases "dt_get t (dcap_device c)")
    case None
    with Some show ?thesis by (auto simp: dt_check_def)
  next
    case get: (Some d)
    then have "dev_id d = dcap_device c" by (simp add: dt_get_Some)
    with Some get show ?thesis by (auto simp: dt_check_def)
  qed
qed

section \<open>Properties\<close>

text \<open>Device access is deny-by-default: the check point hands out a device object only when a
  capability is presented whose device is in the table, is the device addressed by the operation,
  and whose rights include every required right; then the object is the table entry with exactly
  that identity. Deriving a weaker capability never turns a denied access into a granted one.\<close>

theorem device_check_deny_by_default:
  "(dt_check t cap target required = Ok dev \<longleftrightarrow>
      (\<exists>c. cap = Some c \<and> dcap_device c = target \<and> dt_get t target = Some dev
         \<and> drights_contains (dcap_rights c) required))
   \<and> (is_ok (dt_check t (Some (dcap_derive_diminished c0 removed)) target required)
        \<longrightarrow> is_ok (dt_check t (Some c0) target required))"
proof -
  have ok: "is_ok r \<longleftrightarrow> (\<exists>v. r = Ok v)" for r :: "(device_access_error, device_object) result"
    by (cases r) simp_all
  have "is_ok (dt_check t (Some c0) target required)"
    if "is_ok (dt_check t (Some (dcap_derive_diminished c0 removed)) target required)"
    using that by (auto simp: ok dt_check_Ok_iff dcap_derive_diminished_def dest: dev_rights.diminish_no_amplify)
  then show ?thesis by (simp add: dt_check_Ok_iff)
qed

theorem device_check_deny_by_default_witness:
  "is_ok (dt_check \<lparr>dt_devices = [\<lparr>dev_id = DeviceId 0, dev_kind = BlockDeviceSkeleton,
        dev_mmio = \<lparr>mmio_base = 0x10001000, mmio_size = 0x200\<rparr>, dev_irq = \<lparr>irq_endpoint = 8\<rparr>,
        dev_dma = \<lparr>dma_base = 0x80600000, dma_size = 4096\<rparr>\<rparr>]\<rparr>
      (Some (device_capability_new (DeviceId 0) (drights_union MMIO_READ MMIO_WRITE))) (DeviceId 0) MMIO_READ)"
proof -
  let ?t = "\<lparr>dt_devices = [\<lparr>dev_id = DeviceId 0, dev_kind = BlockDeviceSkeleton,
        dev_mmio = \<lparr>mmio_base = 0x10001000, mmio_size = 0x200\<rparr>, dev_irq = \<lparr>irq_endpoint = 8\<rparr>,
        dev_dma = \<lparr>dma_base = 0x80600000, dma_size = 4096\<rparr>\<rparr>]\<rparr>"
  let ?c = "device_capability_new (DeviceId 0) (drights_union MMIO_READ MMIO_WRITE)"
  have "is_ok (dt_check ?t (Some (dcap_derive_diminished ?c MMIO_WRITE)) (DeviceId 0) MMIO_READ)"
    by (simp add: dt_check_def dt_get_def device_capability_new_def dcap_derive_diminished_def
        drights_contains_def drights_diminish_def drights_union_def MMIO_READ_def MMIO_WRITE_def)
  with device_check_deny_by_default show ?thesis by blast
qed

text \<open>C40. Image admission is exact: a layout is admitted if and only if its text is non-empty and
  contains the entry, text and rodata together are at most 128 KiB, the stack is one page, and
  image plus stack end at or below the kernel base, all computed without wrap-around.\<close>

theorem image_admission_exact:
  "is_ok (admit_image_mapping l) \<longleftrightarrow>
     unat (il_entry_offset l) < unat (il_text_size l)
     \<and> unat (il_text_size l) + unat (il_rodata_size l) \<le> 131072
     \<and> il_stack_pages l = 1
     \<and> unat (il_base_va l) + unat (il_text_size l) + unat (il_rodata_size l) + 4096 \<le> unat KERNEL_BASE"
proof -
  have sum: "checked_add a b = Some c \<Longrightarrow> unat c = unat a + unat b" for a b c :: u64
    by (simp add: checked_add_Some_iff)
  have none: "checked_add a b = None \<Longrightarrow> 2 ^ 64 \<le> unat a + unat b" for a b :: u64
    by (simp add: checked_add_None_iff)
  have sat: "saturating_mul 1 4096 = (4096 :: u64)" by (simp add: saturating_mul_def)
  show ?thesis
    by (auto simp: admit_image_mapping_def MAX_IMAGE_BYTES_def KERNEL_BASE_def Let_def sat
        word_le_nat_alt word_less_nat_alt unat_eq_0 dest!: sum none split: option.splits)
qed

end
