(* ===== verification/Monitor.thy ===== *)
theory Monitor
  imports Faults
begin

text \<open>
  Runtime monitoring (\<open>kernel/src/monitor\<close>): the structured monitoring event (\<open>event.rs\<close>) and
  its rendering into one serial line through a fixed buffer (\<open>serial.rs\<close>). Text is a list of
  characters; the bytes of the source are their ASCII codes.
\<close>

section \<open>Monitoring events\<close>

datatype monitor_event_type = TaskStarted | TaskExited | TaskFaulted | CapDenied | IpcDenied
  | MPageFault | DeadlineMissed | MWatchdogTimeout | RecoveryApplied

fun event_type_name :: "monitor_event_type \<Rightarrow> string" where
  "event_type_name TaskStarted = ''TASK_STARTED''"
| "event_type_name TaskExited = ''TASK_EXITED''"
| "event_type_name TaskFaulted = ''TASK_FAULTED''"
| "event_type_name CapDenied = ''CAP_DENIED''"
| "event_type_name IpcDenied = ''IPC_DENIED''"
| "event_type_name MPageFault = ''PAGE_FAULT''"
| "event_type_name DeadlineMissed = ''DEADLINE_MISSED''"
| "event_type_name MWatchdogTimeout = ''WATCHDOG_TIMEOUT''"
| "event_type_name RecoveryApplied = ''RECOVERY_APPLIED''"

fun event_type_severity :: "monitor_event_type \<Rightarrow> severity" where
  "event_type_severity TaskStarted = Info"
| "event_type_severity TaskExited = Info"
| "event_type_severity RecoveryApplied = Info"
| "event_type_severity TaskFaulted = Error"
| "event_type_severity CapDenied = Error"
| "event_type_severity IpcDenied = Error"
| "event_type_severity MPageFault = Error"
| "event_type_severity DeadlineMissed = Error"
| "event_type_severity MWatchdogTimeout = Critical"

datatype kernel_phase = Boot | Trap | Syscall | Sched | PIpc | Fault | PUser

fun phase_name :: "kernel_phase \<Rightarrow> string" where
  "phase_name Boot = ''boot''"
| "phase_name Trap = ''trap''"
| "phase_name Syscall = ''syscall''"
| "phase_name Sched = ''sched''"
| "phase_name PIpc = ''ipc''"
| "phase_name Fault = ''fault''"
| "phase_name PUser = ''user''"

record monitor_event =
  me_timestamp :: u64
  me_task :: thread_id
  me_event_type :: monitor_event_type
  me_severity :: severity
  me_phase :: kernel_phase
  me_policy_result :: "recovery_decision option"
  me_related_cap :: "u32 option"
  me_related_syscall :: "u64 option"

definition monitor_event_new :: "u64 \<Rightarrow> thread_id \<Rightarrow> monitor_event_type \<Rightarrow> kernel_phase \<Rightarrow> monitor_event" where
  "monitor_event_new ts task ty phase =
     \<lparr>me_timestamp = ts, me_task = task, me_event_type = ty, me_severity = event_type_severity ty,
      me_phase = phase, me_policy_result = None, me_related_cap = None, me_related_syscall = None\<rparr>"

section \<open>Rendering through a fixed buffer\<close>

definition LINE_CAPACITY :: nat where "LINE_CAPACITY = 192"

record event_line =
  el_buf :: string
  el_len :: nat
  el_truncated :: bool

definition line_as_str :: "event_line \<Rightarrow> string" where
  "line_as_str l = take (el_len l) (el_buf l)"

record buf_writer =
  bw_buf :: string
  bw_len :: nat
  bw_overflow :: bool

definition write_str :: "buf_writer \<Rightarrow> string \<Rightarrow> buf_writer \<times> bool" where
  "write_str w s =
     (let space = length (bw_buf w) - bw_len w
      in if length s > space
         then (w\<lparr>bw_buf := take (bw_len w) (bw_buf w) @ take space s, bw_len := length (bw_buf w),
                 bw_overflow := True\<rparr>, False)
         else (w\<lparr>bw_buf := take (bw_len w) (bw_buf w) @ s @ drop (bw_len w + length s) (bw_buf w),
                 bw_len := bw_len w + length s\<rparr>, True))"

text \<open>\<open>write!\<close>: the formatting machinery hands the pieces of the format string and the displayed
  arguments to \<open>write_str\<close> in order and stops at the first error.\<close>

fun write_fmt :: "buf_writer \<Rightarrow> string list \<Rightarrow> buf_writer \<times> bool" where
  "write_fmt w [] = (w, True)"
| "write_fmt w (p # ps) =
     (case write_str w p of
        (w', True) \<Rightarrow> write_fmt w' ps
      | (w', False) \<Rightarrow> (w', False))"

fun severity_name :: "severity \<Rightarrow> string" where
  "severity_name Info = ''info''"
| "severity_name Error = ''error''"
| "severity_name Critical = ''critical''"
| "severity_name Fatal = ''fatal''"

fun policy_name :: "recovery_decision \<Rightarrow> string" where
  "policy_name Kill = ''kill''"
| "policy_name Restart = ''restart''"
| "policy_name Suspend = ''suspend''"
| "policy_name Quarantine = ''quarantine''"
| "policy_name Escalate = ''escalate''"

definition MARKER :: string where "MARKER = '' !truncated''"

definition render :: "monitor_event \<Rightarrow> event_line" where
  "render e =
     (let buf = replicate LINE_CAPACITY (char_of (0 :: nat));
          writable = LINE_CAPACITY - length MARKER;
          w0 = \<lparr>bw_buf = take writable buf, bw_len = 0, bw_overflow = False\<rparr>;
          (w1, r1) = write_fmt w0
            [''EVT type='', event_type_name (me_event_type e), '' ts='', dec_string (unat (me_timestamp e)),
             '' task='', dec_string (unat (as_u32 (me_task e))), '' sev='', severity_name (me_severity e),
             '' phase='', phase_name (me_phase e)];
          (w2, r2) = (if r1 then case me_policy_result e of
              Some policy \<Rightarrow> write_fmt w1 ['' policy='', policy_name policy] | None \<Rightarrow> (w1, r1) else (w1, r1));
          (w3, r3) = (if r2 then case me_related_cap e of
              Some cap \<Rightarrow> write_fmt w2 ['' cap='', dec_string (unat cap)] | None \<Rightarrow> (w2, r2) else (w2, r2));
          (w4, r4) = (if r3 then case me_related_syscall e of
              Some sys \<Rightarrow> write_fmt w3 ['' syscall='', dec_string (unat sys)] | None \<Rightarrow> (w3, r3) else (w3, r3));
          line_buf = bw_buf w4 @ drop writable buf
      in if \<not> r4
         then \<lparr>el_buf = take (bw_len w4) line_buf @ MARKER @ drop (bw_len w4 + length MARKER) line_buf,
               el_len = bw_len w4 + length MARKER, el_truncated = True\<rparr>
         else \<lparr>el_buf = line_buf, el_len = bw_len w4, el_truncated = False\<rparr>)"

text \<open>\<open>export\<close> hands the line and a newline to the sink; the result is what the sink receives.\<close>

definition export :: "monitor_event \<Rightarrow> string list" where
  "export e = [line_as_str (render e), [char_of (10 :: nat)]]"

section \<open>The text of an event\<close>

definition event_pieces :: "monitor_event \<Rightarrow> string list" where
  "event_pieces e =
     [''EVT type='', event_type_name (me_event_type e), '' ts='', dec_string (unat (me_timestamp e)),
      '' task='', dec_string (unat (as_u32 (me_task e))), '' sev='', severity_name (me_severity e),
      '' phase='', phase_name (me_phase e)]
     @ (case me_policy_result e of Some p \<Rightarrow> ['' policy='', policy_name p] | None \<Rightarrow> [])
     @ (case me_related_cap e of Some c \<Rightarrow> ['' cap='', dec_string (unat c)] | None \<Rightarrow> [])
     @ (case me_related_syscall e of Some s \<Rightarrow> ['' syscall='', dec_string (unat s)] | None \<Rightarrow> [])"

definition bw_text :: "buf_writer \<Rightarrow> string" where
  "bw_text w = take (bw_len w) (bw_buf w)"

definition bw_inv :: "buf_writer \<Rightarrow> bool" where
  "bw_inv w \<longleftrightarrow> bw_len w \<le> length (bw_buf w)"

lemma write_str_fits:
  assumes "bw_inv w" "length (bw_text w) + length s \<le> length (bw_buf w)"
  shows "\<exists>w'. write_str w s = (w', True) \<and> bw_inv w' \<and> bw_text w' = bw_text w @ s \<and> length (bw_buf w') = length (bw_buf w)"
  using assms by (auto simp: write_str_def bw_inv_def bw_text_def Let_def)

lemma write_fmt_fits:
  assumes "bw_inv w" "length (bw_text w) + length (concat ps) \<le> length (bw_buf w)"
  shows "\<exists>w'. write_fmt w ps = (w', True) \<and> bw_inv w' \<and> bw_text w' = bw_text w @ concat ps \<and> length (bw_buf w') = length (bw_buf w)"
  using assms
proof (induction ps arbitrary: w)
  case (Cons p ps)
  then obtain w1 where w1: "write_str w p = (w1, True)" "bw_inv w1" "bw_text w1 = bw_text w @ p"
    "length (bw_buf w1) = length (bw_buf w)"
    using write_str_fits [of w p] by auto
  then have "length (bw_text w1) + length (concat ps) \<le> length (bw_buf w1)" using Cons.prems(2) by simp
  from Cons.IH [OF w1(2) this] w1 show ?case by auto
qed simp

lemma write_fmt_append:
  "write_fmt w (ps @ qs) = (case write_fmt w ps of (w', True) \<Rightarrow> write_fmt w' qs | (w', False) \<Rightarrow> (w', False))"
  by (induction ps arbitrary: w) (auto split: prod.splits bool.splits)

lemma length_dec_word64: "length (dec_string (unat (n :: u64))) \<le> 20"
proof (rule length_dec_string_le)
  have "unat n < 2 ^ 64" using unsigned_less [of n] by simp
  then show "unat n < 10 ^ 20" by simp
qed simp

lemma length_dec_word32: "length (dec_string (unat (n :: u32))) \<le> 10"
proof (rule length_dec_string_le)
  have "unat n < 2 ^ 32" using unsigned_less [of n] by simp
  then show "unat n < 10 ^ 10" by simp
qed simp

lemma event_text_bound: "length (concat (event_pieces e)) \<le> 154"
proof -
  have "length (event_type_name t) \<le> 16" for t by (cases t) simp_all
  moreover have "length (severity_name s) \<le> 8" for s by (cases s) simp_all
  moreover have "length (phase_name p) \<le> 7" for p by (cases p) simp_all
  moreover have "length (policy_name d) \<le> 10" for d by (cases d) simp_all
  ultimately have "length (event_type_name (me_event_type e)) \<le> 16" "length (severity_name (me_severity e)) \<le> 8"
    "length (phase_name (me_phase e)) \<le> 7"
    "length (concat (case me_policy_result e of Some p \<Rightarrow> ['' policy='', policy_name p] | None \<Rightarrow> [])) \<le> 18"
    by (auto split: option.splits)
  moreover have "length (concat (case me_related_cap e of Some c \<Rightarrow> ['' cap='', dec_string (unat c)] | None \<Rightarrow> [])) \<le> 15"
    using length_dec_word32 by (auto split: option.splits)
  moreover have "length (concat (case me_related_syscall e of Some s \<Rightarrow> ['' syscall='', dec_string (unat s)] | None \<Rightarrow> [])) \<le> 29"
    using length_dec_word64 by (auto split: option.splits)
  ultimately show ?thesis
    using length_dec_word64 [of "me_timestamp e"] length_dec_word32 [of "as_u32 (me_task e)"]
    unfolding event_pieces_def concat_append length_append by simp
qed

lemma render_write_fmt:
  assumes "write_fmt \<lparr>bw_buf = replicate 181 (char_of (0 :: nat)), bw_len = 0, bw_overflow = False\<rparr> (event_pieces e) = (w, True)"
  shows "render e = \<lparr>el_buf = bw_buf w @ drop 181 (replicate LINE_CAPACITY (char_of (0 :: nat))),
    el_len = bw_len w, el_truncated = False\<rparr>"
proof -
  have cut: "take 181 (replicate LINE_CAPACITY c) = replicate 181 c" for c :: char
    by (simp add: LINE_CAPACITY_def)
  have k: "LINE_CAPACITY - length MARKER = 181" by (simp add: LINE_CAPACITY_def MARKER_def)
  show ?thesis
    using assms unfolding event_pieces_def write_fmt_append render_def Let_def k cut
    by (cases "me_policy_result e"; cases "me_related_cap e"; cases "me_related_syscall e")
      (auto simp del: write_fmt.simps(2) split: prod.splits bool.splits)
qed

section \<open>Properties\<close>

text \<open>No monitoring event is ever truncated: for every event, whatever its numbers and optional
  fields, the rendered line is exactly the text of its fields in order, is at most 154 bytes long
  (the buffer leaves 181), carries no truncation mark, and is what \<open>export\<close> sends, followed by a
  newline.\<close>

theorem render_never_truncates:
  "line_as_str (render e) = concat (event_pieces e) \<and> \<not> el_truncated (render e)
   \<and> length (line_as_str (render e)) \<le> 154
   \<and> export e = [concat (event_pieces e), [char_of (10 :: nat)]]"
proof -
  let ?w0 = "\<lparr>bw_buf = replicate 181 (char_of (0 :: nat)), bw_len = 0, bw_overflow = False\<rparr>"
  have "bw_inv ?w0" "bw_text ?w0 = []" by (simp_all add: bw_inv_def bw_text_def)
  then obtain w where w: "write_fmt ?w0 (event_pieces e) = (w, True)" "bw_inv w"
    "bw_text w = concat (event_pieces e)"
    using write_fmt_fits [of ?w0 "event_pieces e"] event_text_bound [of e] by auto
  note R = render_write_fmt [OF w(1)]
  have "line_as_str (render e) = concat (event_pieces e)"
    using w(2,3) by (simp add: R line_as_str_def bw_inv_def bw_text_def)
  then show ?thesis using event_text_bound [of e] by (simp add: R export_def)
qed

end
