(* ===== verification/Network.thy ===== *)
theory Network
  imports Caps
begin

text \<open>
  The bounded network-service protocol model (\<open>kernel/src/network.rs\<close>): request decoding for
  the service and the driver, the network rights (an instance of the rights algebra) and the
  synthetic driver with its checked counters. A message is a byte list; the byte string
  literals of the source are character lists mapped to their codes.
\<close>

definition MAX_NETWORK_MESSAGE_BYTES :: nat where "MAX_NETWORK_MESSAGE_BYTES = 128"
definition TEST_PACKET_BYTES :: nat where "TEST_PACKET_BYTES = 64"

datatype protocol_error = Malformed | PTooLarge | Unsupported

fun protocol_reply :: "protocol_error \<Rightarrow> u8 list" where
  "protocol_reply Malformed = bytes ''ERR malformed''"
| "protocol_reply PTooLarge = bytes ''ERR too_large''"
| "protocol_reply Unsupported = bytes ''ERR unsupported''"

definition validate :: "u8 list \<Rightarrow> (protocol_error, unit) result" where
  "validate m =
     (if m = [] then Err Malformed
      else if length m > MAX_NETWORK_MESSAGE_BYTES then Err PTooLarge
      else Ok ())"

datatype service_request = SStatus | SStats | SSendTest | SRxCount | SFault | SRestart

definition service_decode :: "u8 list \<Rightarrow> (protocol_error, service_request) result" where
  "service_decode m =
     (case validate m of
        Err e \<Rightarrow> Err e
      | Ok _ \<Rightarrow>
          if m = bytes ''NET_STATUS'' then Ok SStatus
          else if m = bytes ''NET_STATS'' then Ok SStats
          else if m = bytes ''NET_SEND_TEST'' then Ok SSendTest
          else if m = bytes ''NET_RX_COUNT'' then Ok SRxCount
          else if m = bytes ''NET_FAULT'' then Ok SFault
          else if m = bytes ''NET_RESTART'' then Ok SRestart
          else Err Unsupported)"

datatype driver_request = DStatus | DTxTest | DRxCount | DFault | DRestart

definition driver_decode :: "u8 list \<Rightarrow> (protocol_error, driver_request) result" where
  "driver_decode m =
     (case validate m of
        Err e \<Rightarrow> Err e
      | Ok _ \<Rightarrow>
          if m = bytes ''DRV_STATUS'' then Ok DStatus
          else if m = bytes ''DRV_TX_TEST'' then Ok DTxTest
          else if m = bytes ''DRV_RX_COUNT'' then Ok DRxCount
          else if m = bytes ''DRV_FAULT'' then Ok DFault
          else if m = bytes ''DRV_RESTART'' then Ok DRestart
          else Err Unsupported)"

section \<open>Network rights\<close>

datatype network_rights = NetworkRights u16

definition N_NONE :: network_rights where "N_NONE = NetworkRights 0"
definition N_STATUS :: network_rights where "N_STATUS = NetworkRights (push_bit 0 1)"
definition N_TX :: network_rights where "N_TX = NetworkRights (push_bit 1 1)"
definition N_RX :: network_rights where "N_RX = NetworkRights (push_bit 2 1)"
definition N_CONTROL :: network_rights where "N_CONTROL = NetworkRights (push_bit 3 1)"

fun nrights_bits :: "network_rights \<Rightarrow> u16" where
  "nrights_bits (NetworkRights b) = b"

definition nrights_union :: "network_rights \<Rightarrow> network_rights \<Rightarrow> network_rights" where
  "nrights_union a b = NetworkRights (nrights_bits a OR nrights_bits b)"

definition nrights_contains :: "network_rights \<Rightarrow> network_rights \<Rightarrow> bool" where
  "nrights_contains a required \<longleftrightarrow> nrights_bits a AND nrights_bits required = nrights_bits required"

definition nrights_diminish :: "network_rights \<Rightarrow> network_rights \<Rightarrow> network_rights" where
  "nrights_diminish a removed = NetworkRights (nrights_bits a AND NOT (nrights_bits removed))"

interpretation net_rights: rights_algebra nrights_bits N_NONE nrights_union nrights_contains nrights_diminish
proof unfold_locales
  show "nrights_bits a = nrights_bits b \<Longrightarrow> a = b" for a b
    by (cases a; cases b) simp
qed (simp_all add: N_NONE_def nrights_union_def nrights_contains_def nrights_diminish_def)

section \<open>The synthetic driver\<close>

datatype driver_model_error = CounterOverflow

record synthetic_driver =
  sd_tx :: u64
  sd_rx :: u64

definition send_test :: "synthetic_driver \<Rightarrow> synthetic_driver \<times> (driver_model_error, nat) result" where
  "send_test d =
     (case checked_add (sd_tx d) 1 of
        None \<Rightarrow> (d, Err CounterOverflow)
      | Some next_tx \<Rightarrow>
          (case checked_add (sd_rx d) 1 of
             None \<Rightarrow> (d, Err CounterOverflow)
           | Some next_rx \<Rightarrow> (d\<lparr>sd_tx := next_tx, sd_rx := next_rx\<rparr>, Ok TEST_PACKET_BYTES)))"

fun send_tests :: "nat \<Rightarrow> synthetic_driver \<Rightarrow> synthetic_driver" where
  "send_tests 0 d = d"
| "send_tests (Suc n) d = send_tests n (fst (send_test d))"

lemma send_test_counts:
  "let d' = fst (send_test d) in
     if unat (sd_tx d) < 2 ^ 64 - 1 \<and> unat (sd_rx d) < 2 ^ 64 - 1
     then unat (sd_tx d') = unat (sd_tx d) + 1 \<and> unat (sd_rx d') = unat (sd_rx d) + 1
     else d' = d"
proof (cases "checked_add (sd_tx d) 1")
  case None
  then have "2 ^ 64 \<le> unat (sd_tx d) + 1" by (simp add: checked_add_None_iff)
  with None show ?thesis by (simp add: send_test_def)
next
  case tx: (Some t)
  then have t: "unat t = unat (sd_tx d) + 1" by (simp only: checked_add_Some_iff) simp
  show ?thesis
  proof (cases "checked_add (sd_rx d) 1")
    case None
    then have "2 ^ 64 \<le> unat (sd_rx d) + 1" by (simp add: checked_add_None_iff)
    with tx None show ?thesis by (simp add: send_test_def)
  next
    case rx: (Some r)
    then have r: "unat r = unat (sd_rx d) + 1" by (simp only: checked_add_Some_iff) simp
    have "unat t < 2 ^ 64" "unat r < 2 ^ 64" using unsigned_less [of t] unsigned_less [of r] by simp_all
    with tx rx t r show ?thesis by (simp add: send_test_def)
  qed
qed

section \<open>Properties\<close>

fun service_wire :: "service_request \<Rightarrow> u8 list" where
  "service_wire SStatus = bytes ''NET_STATUS''"
| "service_wire SStats = bytes ''NET_STATS''"
| "service_wire SSendTest = bytes ''NET_SEND_TEST''"
| "service_wire SRxCount = bytes ''NET_RX_COUNT''"
| "service_wire SFault = bytes ''NET_FAULT''"
| "service_wire SRestart = bytes ''NET_RESTART''"

fun driver_wire :: "driver_request \<Rightarrow> u8 list" where
  "driver_wire DStatus = bytes ''DRV_STATUS''"
| "driver_wire DTxTest = bytes ''DRV_TX_TEST''"
| "driver_wire DRxCount = bytes ''DRV_RX_COUNT''"
| "driver_wire DFault = bytes ''DRV_FAULT''"
| "driver_wire DRestart = bytes ''DRV_RESTART''"

text \<open>The network vocabulary is exact: a service or driver message decodes to a request if and
  only if it is byte for byte the one wire form of that request, so no prefix, extension or
  foreign command is accepted; an empty message is malformed and every message longer than 128
  bytes is rejected as too large whatever it contains.\<close>

theorem network_protocol_exact:
  "(service_decode m = Ok q \<longleftrightarrow> m = service_wire q) \<and> (driver_decode m = Ok d \<longleftrightarrow> m = driver_wire d)
   \<and> service_decode [] = Err Malformed \<and> driver_decode [] = Err Malformed
   \<and> (128 < length n \<longrightarrow> service_decode n = Err PTooLarge \<and> driver_decode n = Err PTooLarge)"
proof (intro conjI impI)
  show "service_decode m = Ok q \<longleftrightarrow> m = service_wire q"
    by (cases q) (auto simp: service_decode_def validate_def MAX_NETWORK_MESSAGE_BYTES_def bytes_def)
  show "driver_decode m = Ok d \<longleftrightarrow> m = driver_wire d"
    by (cases d) (auto simp: driver_decode_def validate_def MAX_NETWORK_MESSAGE_BYTES_def bytes_def)
qed (auto simp: service_decode_def driver_decode_def validate_def MAX_NETWORK_MESSAGE_BYTES_def)

theorem network_protocol_exact_witness:
  "service_decode (replicate 200 88) = Err PTooLarge \<and> driver_decode (bytes ''DRV_STATUS'') = Ok DStatus"
  using network_protocol_exact [where n = "replicate 200 88" and d = DStatus and m = "bytes ''DRV_STATUS''"]
  by simp

text \<open>The synthetic driver's counters are bounded and move together: from the initial state,
  any number of test transmissions leaves both counters equal to that number as long as it is
  below 2^64, and a transmission that would overflow either counter changes neither.\<close>

lemma synthetic_driver_counts:
  "(n < 2 ^ 64 \<longrightarrow> unat (sd_tx (send_tests n \<lparr>sd_tx = 0, sd_rx = 0\<rparr>)) = n
        \<and> unat (sd_rx (send_tests n \<lparr>sd_tx = 0, sd_rx = 0\<rparr>)) = n)
   \<and> (snd (send_test d) = Err CounterOverflow \<longrightarrow> fst (send_test d) = d)"
proof -
  have "unat (sd_tx (send_tests n d)) = unat (sd_tx d) + n \<and> unat (sd_rx (send_tests n d)) = unat (sd_rx d) + n"
    if "unat (sd_tx d) + n < 2 ^ 64" "unat (sd_rx d) + n < 2 ^ 64" for n and d :: synthetic_driver
    using that
  proof (induction n arbitrary: d)
    case (Suc n)
    then have "unat (sd_tx (fst (send_test d))) = unat (sd_tx d) + 1" "unat (sd_rx (fst (send_test d))) = unat (sd_rx d) + 1"
      using send_test_counts [of d] by (simp_all add: Let_def split: if_splits)
    with Suc.IH [of "fst (send_test d)"] Suc.prems show ?case by simp
  qed simp
  from this [of "\<lparr>sd_tx = 0, sd_rx = 0\<rparr>" n] show ?thesis
    by (auto simp: send_test_def split: option.splits)
qed

end
