(* ===== verification/Address_Spaces.thy ===== *)
theory Address_Spaces
  imports Paging
begin

text \<open>
  Construction of address spaces on target (\<open>kernel/src/arch/riscv64/paging_hw.rs\<close>): the
  kernel regions every table maps, the demonstration and the service address space, and the
  user region span. The linker symbols are the fields of \<open>link_map\<close>; the static table arenas
  are passed in and returned. A failed \<open>expect\<close> or \<open>assert!\<close> is \<open>None\<close>.

  The main result is what user mode can reach: in a service address space every translation
  with the U bit is a page of the user text (read and execute), of the user read-only data
  (read) or of the service's own stack (read and write), and nothing else.
\<close>

section \<open>Layout\<close>

definition UART_PAGE :: u64 where "UART_PAGE = 0x10000000"
definition VIRTIO_MMIO0_PAGE :: u64 where "VIRTIO_MMIO0_PAGE = 0x10001000"
definition MAX_USER_AS :: nat where "MAX_USER_AS = 16"
definition USER_CODE_VA :: u64 where "USER_CODE_VA = 0x10000"
definition USER_STACK_VA :: u64 where "USER_STACK_VA = 0x200000"
definition USER_STACK_PAGES :: u64 where "USER_STACK_PAGES = 1"

lemmas as_consts [ax_const] =
  UART_PAGE_def VIRTIO_MMIO0_PAGE_def MAX_USER_AS_def USER_CODE_VA_def USER_STACK_VA_def USER_STACK_PAGES_def

record kernel_regions =
  kr_text :: "u64 \<times> u64"
  kr_rodata :: "u64 \<times> u64"
  kr_data :: "u64 \<times> u64"

record link_map =
  lm_kernel :: kernel_regions
  lm_user_text_start :: u64
  lm_user_text_end :: u64
  lm_user_rodata_start :: u64
  lm_user_rodata_end :: u64
  lm_user_tables :: "nat \<Rightarrow> u64"

record user_address_space =
  uas_root :: phys_addr
  uas_entry_va :: u64
  uas_stack_top_va :: u64

section \<open>Mapping with \<open>expect\<close>\<close>

fun expect :: "('a \<times> ('e, 'b) result) option \<Rightarrow> 'a option" where
  "expect (Some (a, Ok _)) = Some a"
| "expect _ = None"

definition map_kernel_regions :: "arena \<Rightarrow> kernel_regions \<Rightarrow> arena option" where
  "map_kernel_regions arena r =
     (let krx = \<lparr>p_read = True, p_write = False, p_execute = True, p_user = False, p_device = False\<rparr>;
          kr_only = \<lparr>p_read = True, p_write = False, p_execute = False, p_user = False, p_device = False\<rparr>;
          krw = kernel_rw;
          kdev = kernel_device
      in case expect (identity_map_range arena (fst (kr_text r)) (snd (kr_text r)) krx) of None \<Rightarrow> None | Some a1 \<Rightarrow>
        (case (if snd (kr_rodata r) > fst (kr_rodata r)
               then expect (identity_map_range a1 (fst (kr_rodata r)) (snd (kr_rodata r)) kr_only)
               else Some a1) of None \<Rightarrow> None | Some a2 \<Rightarrow>
        (case expect (identity_map_range a2 (fst (kr_data r)) (snd (kr_data r)) krw) of None \<Rightarrow> None | Some a3 \<Rightarrow>
        (case expect (identity_map_range a3 UART_PAGE (UART_PAGE + 0x1000) kdev) of None \<Rightarrow> None | Some a4 \<Rightarrow>
        expect (identity_map_range a4 VIRTIO_MMIO0_PAGE (VIRTIO_MMIO0_PAGE + 0x1000) kdev)))))"

text \<open>\<open>for i in 0..n\<close> over pages of a contiguous range, and the \<open>while pa < end\<close> loops of the
  service space.\<close>

fun map_pages :: "nat \<Rightarrow> u64 \<Rightarrow> arena \<Rightarrow> u64 \<Rightarrow> u64 \<Rightarrow> permissions \<Rightarrow> arena option" where
  "map_pages 0 i arena va pa p = Some arena"
| "map_pages (Suc n) i arena va pa p =
     (case expect (map_page arena (VirtAddr (va + i * 0x1000)) (PhysAddr (pa + i * 0x1000)) p) of
        None \<Rightarrow> None
      | Some arena' \<Rightarrow> map_pages n (i + 1) arena' va pa p)"

partial_function (option) map_region_loop ::
  "arena \<Rightarrow> u64 \<Rightarrow> u64 \<Rightarrow> u64 \<Rightarrow> permissions \<Rightarrow> arena option" where
  "map_region_loop arena text_start pa lim p =
     (if pa < lim then
        (case expect (map_page arena (VirtAddr (USER_CODE_VA + (pa - text_start))) (PhysAddr pa) p) of
           None \<Rightarrow> None
         | Some arena' \<Rightarrow> map_region_loop arena' text_start (pa + 0x1000) lim p)
      else Some arena)"

section \<open>Address spaces\<close>

definition enable_kernel_paging :: "link_map \<Rightarrow> table list \<Rightarrow> u64 \<Rightarrow> (arena \<times> u64) option" where
  "enable_kernel_paging lm tables base_pa =
     (case map_kernel_regions (arena_new tables base_pa) (lm_kernel lm) of
        None \<Rightarrow> None
      | Some arena \<Rightarrow> Some (arena, satp_for (root_pa arena)))"

definition build_user_address_space ::
  "link_map \<Rightarrow> table list list \<Rightarrow> nat \<Rightarrow> u64 \<Rightarrow> u64 \<Rightarrow> (table list list \<times> user_address_space) option" where
  "build_user_address_space lm all as_index code_phys stack_phys =
     (if \<not> as_index < MAX_USER_AS then None
      else case map_kernel_regions (arena_new (all ! as_index) (lm_user_tables lm as_index)) (lm_kernel lm) of
        None \<Rightarrow> None
      | Some a1 \<Rightarrow>
        (let urx = \<lparr>p_read = True, p_write = False, p_execute = True, p_user = True, p_device = False\<rparr>;
             code_base = code_phys AND NOT 0xfff;
             stack_base = stack_phys AND NOT 0xfff
         in case map_pages 2 0 a1 USER_CODE_VA code_base urx of
              None \<Rightarrow> None
            | Some a2 \<Rightarrow>
              (case map_pages (unat USER_STACK_PAGES) 0 a2 USER_STACK_VA stack_base user_rw of
                 None \<Rightarrow> None
               | Some a3 \<Rightarrow> Some (all[as_index := ar_tables a3],
                   \<lparr>uas_root = root_pa a3, uas_entry_va = USER_CODE_VA + (code_phys AND 0xfff),
                    uas_stack_top_va = USER_STACK_VA + USER_STACK_PAGES * 0x1000\<rparr>))))"

definition user_region_va_span :: "link_map \<Rightarrow> u64 \<times> u64" where
  "user_region_va_span lm =
     (let start = lm_user_text_start lm; end_addr = lm_user_rodata_end lm
      in (USER_CODE_VA, USER_CODE_VA + (end_addr - start)))"

definition build_service_arena :: "link_map \<Rightarrow> arena \<Rightarrow> u64 \<Rightarrow> arena option" where
  "build_service_arena lm a0 stack_phys =
     (let urx = \<lparr>p_read = True, p_write = False, p_execute = True, p_user = True, p_device = False\<rparr>;
          uro = \<lparr>p_read = True, p_write = False, p_execute = False, p_user = True, p_device = False\<rparr>
      in case map_kernel_regions a0 (lm_kernel lm) of None \<Rightarrow> None | Some a1 \<Rightarrow>
        (case map_region_loop a1 (lm_user_text_start lm) (lm_user_text_start lm) (lm_user_text_end lm) urx of
           None \<Rightarrow> None | Some a2 \<Rightarrow>
        (case map_region_loop a2 (lm_user_text_start lm) (lm_user_rodata_start lm) (lm_user_rodata_end lm) uro of
           None \<Rightarrow> None | Some a3 \<Rightarrow>
        expect (map_page a3 (VirtAddr USER_STACK_VA) (PhysAddr (stack_phys AND NOT 0xfff)) user_rw))))"

definition build_service_address_space ::
  "link_map \<Rightarrow> table list list \<Rightarrow> nat \<Rightarrow> u64 \<Rightarrow> u64 \<Rightarrow> (table list list \<times> user_address_space) option" where
  "build_service_address_space lm all as_index entry_kernel_va stack_phys =
     (if \<not> as_index < MAX_USER_AS then None
      else case build_service_arena lm (arena_new (all ! as_index) (lm_user_tables lm as_index)) stack_phys of
        None \<Rightarrow> None
      | Some arena \<Rightarrow> Some (all[as_index := ar_tables arena],
          \<lparr>uas_root = root_pa arena, uas_entry_va = USER_CODE_VA + (entry_kernel_va - lm_user_text_start lm),
           uas_stack_top_va = USER_STACK_VA + 0x1000\<rparr>))"

section \<open>What user mode can reach\<close>

text \<open>The user view of an arena: the translations that carry the U bit.\<close>

definition uview :: "arena \<Rightarrow> u64 \<Rightarrow> (phys_addr \<times> permissions) option" where
  "uview a v = (case resolve a v of None \<Rightarrow> None | Some (pa, p) \<Rightarrow> if p_user p then Some (pa, p) else None)"

definition no_uview :: "arena \<Rightarrow> bool" where
  "no_uview a \<longleftrightarrow> (\<forall>v. unat v < 2 ^ 39 \<longrightarrow> uview a v = None)"

lemma expect_Some: "expect x = Some a \<longleftrightarrow> (\<exists>u. x = Some (a, Ok u))"
  by (cases x rule: expect.cases) auto

lemma identity_map_no_uview:
  assumes "expect (identity_map_range a start lim p) = Some a'" "arena_inv a" "no_uview a" "\<not> p_user p"
    and "take_bit 12 start = 0" "take_bit 12 lim = 0" "unat lim \<le> 2 ^ 39"
  shows "arena_inv a' \<and> no_uview a'"
proof -
  obtain u where run: "identity_map_loop a start lim p = Some (a', Ok u)"
    using assms(1) by (auto simp: expect_Some identity_map_range_def)
  with identity_map_loop_result [OF assms(2,5,6,7), of p] have inv: "arena_inv a'"
    and out: "\<And>v. unat v < 2 ^ 39 \<Longrightarrow> \<not> (unat start \<le> unat v \<and> unat v < unat lim) \<Longrightarrow> resolve a' v = resolve a v"
    and ins: "\<And>v. unat start \<le> unat v \<Longrightarrow> unat v < unat lim \<Longrightarrow> resolve a' v = Some (PhysAddr v, p\<lparr>p_device := False\<rparr>)"
    by auto
  have "uview a' v = None" if "unat v < 2 ^ 39" for v
  proof (cases "unat start \<le> unat v \<and> unat v < unat lim")
    case True
    then show ?thesis using ins [of v] assms(4) by (simp add: uview_def)
  next
    case False
    then show ?thesis using out [OF that False] assms(3) that by (simp add: uview_def no_uview_def)
  qed
  with inv show ?thesis by (simp add: no_uview_def)
qed

lemma map_page_uview:
  assumes "expect (map_page a (VirtAddr va) (PhysAddr pa) p) = Some a'" "arena_inv a" "p_user p" "\<not> p_device p"
    and "unat va < 2 ^ 39" "unat pa < 2 ^ 56" "unat v < 2 ^ 39"
  shows "arena_inv a' \<and> ar_base a' = ar_base a \<and> uview a' v =
    (if unat va \<le> unat v \<and> unat v < unat va + 4096 then Some (PhysAddr (pa + (v - va)), p) else uview a v)"
proof -
  obtain lvl where lv: "arena_lv lvl a" using assms(2) by (auto simp: arena_inv_def)
  have small: "unat (pa_u64 (PhysAddr pa)) < 2 ^ 56" using assms(6) by simp
  obtain u where run: "map_page a (VirtAddr va) (PhysAddr pa) p = Some (a', Ok u)"
    using assms(1) by (auto simp: expect_Some)
  with map_page_result [OF lv small, of "VirtAddr va" p]
  have inv: "arena_inv a'" "ar_base a' = ar_base a" and al: "va_aligned (VirtAddr va)"
    and res: "\<And>v. resolve a' v = (if vpn v 2 = vpn va 2 \<and> vpn v 1 = vpn va 1 \<and> vpn v 0 = vpn va 0
                then Some (PhysAddr (pa + (v AND (PAGE_SIZE - 1))), p\<lparr>p_device := False\<rparr>) else resolve a v)"
    by simp_all
  have p: "p\<lparr>p_device := False\<rparr> = p" using assms(4) by simp
  have al': "take_bit 12 va = 0" using al by (simp add: va_aligned_def aligned_take_bit)
  note page = page_of_aligned [OF al', of v]
  have off: "v AND 0xfff = v - va" if "drop_bit 12 v = drop_bit 12 va"
    using page(2) [OF that] by (simp add: algebra_simps)
  have "resolve a' v = (if unat va \<le> unat v \<and> unat v < unat va + 4096 then Some (PhysAddr (pa + (v - va)), p) else resolve a v)"
    using res [of v] vpn_page_iff [OF assms(7,5)] page(1) off p by (auto simp: PAGE_SIZE_def)
  then show ?thesis using inv assms(3) by (simp add: uview_def)
qed

lemma map_region_loop_uview:
  assumes "map_region_loop a ts pa lim p = Some a'" "arena_inv a" "p_user p" "\<not> p_device p"
    and "take_bit 12 pa = 0" "take_bit 12 lim = 0" "ts \<le> pa" "pa \<le> lim"
    and "unat lim < 2 ^ 39" "unat v < 2 ^ 39" "0x10000 + (unat lim - unat ts) \<le> 2 ^ 39"
  shows "arena_inv a' \<and> ar_base a' = ar_base a \<and> uview a' v =
    (if 0x10000 + (unat pa - unat ts) \<le> unat v \<and> unat v < 0x10000 + (unat lim - unat ts)
     then Some (PhysAddr (ts + (v - USER_CODE_VA)), p) else uview a v)"
  using assms
proof (induction "unat lim - unat pa" arbitrary: a pa rule: less_induct)
  case less
  have le: "unat ts \<le> unat pa" "unat pa \<le> unat lim" using less.prems by (simp_all add: word_le_nat_alt)
  show ?case
  proof (cases "pa < lim")
    case False
    with le have "unat pa = unat lim" by (simp add: word_less_nat_alt)
    then show ?thesis using less.prems(1,2) False by (subst (asm) map_region_loop.simps) auto
  next
    case True
    then have lt: "unat pa < unat lim" by (simp add: word_less_nat_alt)
    let ?va = "USER_CODE_VA + (pa - ts)"
    obtain a1 where m: "expect (map_page a (VirtAddr ?va) (PhysAddr pa) p) = Some a1"
      and rec: "map_region_loop a1 ts (pa + 0x1000) lim p = Some a'"
      using less.prems(1) True by (subst (asm) map_region_loop.simps) (auto split: option.splits)
    have sub: "unat (pa - ts) = unat pa - unat ts" using less.prems(7) by (simp add: unat_sub)
    have va: "unat ?va = 0x10000 + (unat pa - unat ts)"
      using sub lt less.prems(9) by (simp add: USER_CODE_VA_def unat_word_ariths)
    obtain q where q: "unat pa = 4096 * q" using less.prems(5) by (auto simp: aligned_dvd elim: dvdE)
    obtain q' where q': "unat lim = 4096 * q'" using less.prems(6) by (auto simp: aligned_dvd elim: dvdE)
    have next_le: "unat pa + 4096 \<le> unat lim" using lt q q' by auto
    have next_val: "unat (pa + 0x1000) = unat pa + 4096"
      using next_le less.prems(9) by (simp add: unat_word_ariths)
    have va39: "unat ?va < 2 ^ 39" using va lt le less.prems(11) by linarith
    have pa56: "unat pa < 2 ^ 56" using lt less.prems(9) by simp
    note M = map_page_uview [OF m less.prems(2,3,4) va39 pa56 less.prems(10)]
    have base1: "ar_base a1 = ar_base a" and inv1: "arena_inv a1" using M by simp_all
    have "unat lim - unat (pa + 0x1000) < unat lim - unat pa" using next_val lt by linarith
    moreover have "take_bit 12 (pa + 0x1000) = 0" unfolding aligned_dvd next_val by (simp add: q)
    moreover have "ts \<le> pa + 0x1000" "pa + 0x1000 \<le> lim"
      using le next_val next_le by (simp_all add: word_le_nat_alt)
    ultimately have IH: "arena_inv a' \<and> ar_base a' = ar_base a1 \<and> uview a' v =
      (if 0x10000 + (unat pa + 4096 - unat ts) \<le> unat v \<and> unat v < 0x10000 + (unat lim - unat ts)
       then Some (PhysAddr (ts + (v - USER_CODE_VA)), p) else uview a1 v)"
      using less.hyps [of "pa + 0x1000" a1] rec inv1 less.prems next_val by simp
    have same: "pa + (v - ?va) = ts + (v - USER_CODE_VA)" by (simp add: algebra_simps)
    show ?thesis using IH M base1 va next_le le unfolding same by auto
  qed
qed

definition layout_ok :: "link_map \<Rightarrow> bool" where
  "layout_ok lm \<longleftrightarrow>
     list_all (\<lambda>x. is_multiple_of x PAGE_SIZE \<and> unat x < 2 ^ 39)
       [fst (kr_text (lm_kernel lm)), snd (kr_text (lm_kernel lm)), fst (kr_rodata (lm_kernel lm)),
        snd (kr_rodata (lm_kernel lm)), fst (kr_data (lm_kernel lm)), snd (kr_data (lm_kernel lm)),
        lm_user_text_start lm, lm_user_text_end lm, lm_user_rodata_start lm, lm_user_rodata_end lm]
     \<and> lm_user_text_start lm \<le> lm_user_text_end lm \<and> lm_user_text_end lm \<le> lm_user_rodata_start lm
     \<and> lm_user_rodata_start lm \<le> lm_user_rodata_end lm
     \<and> unat (lm_user_rodata_end lm) - unat (lm_user_text_start lm) \<le> 0x1F0000"

text \<open>The user pages a service is meant to see.\<close>

definition service_view :: "link_map \<Rightarrow> u64 \<Rightarrow> u64 \<Rightarrow> (phys_addr \<times> permissions) option" where
  "service_view lm stack_phys v =
     (let text = unat (lm_user_text_start lm); off = unat v - 0x10000
      in if 0x10000 \<le> unat v \<and> text + off < unat (lm_user_text_end lm)
           then Some (PhysAddr (lm_user_text_start lm + (v - 0x10000)), user_rx)
         else if 0x10000 \<le> unat v \<and> unat (lm_user_rodata_start lm) \<le> text + off \<and> text + off < unat (lm_user_rodata_end lm)
           then Some (PhysAddr (lm_user_text_start lm + (v - 0x10000)), user_r)
         else if 0x200000 \<le> unat v \<and> unat v < 0x201000
           then Some (PhysAddr ((stack_phys AND NOT 0xfff) + (v - 0x200000)), user_rw)
         else None)"

lemma map_kernel_regions_no_uview:
  assumes "map_kernel_regions a (lm_kernel lm) = Some a'" "layout_ok lm" "arena_inv a" "no_uview a"
  shows "arena_inv a' \<and> no_uview a'"
proof -
  have pg: "take_bit 12 (fst (kr_text (lm_kernel lm))) = 0" "take_bit 12 (snd (kr_text (lm_kernel lm))) = 0"
     "take_bit 12 (fst (kr_rodata (lm_kernel lm))) = 0" "take_bit 12 (snd (kr_rodata (lm_kernel lm))) = 0"
     "take_bit 12 (fst (kr_data (lm_kernel lm))) = 0" "take_bit 12 (snd (kr_data (lm_kernel lm))) = 0"
     "unat (snd (kr_text (lm_kernel lm))) \<le> 2 ^ 39" "unat (snd (kr_rodata (lm_kernel lm))) \<le> 2 ^ 39"
     "unat (snd (kr_data (lm_kernel lm))) \<le> 2 ^ 39"
    using assms(2) unfolding layout_ok_def aligned_take_bit by simp_all
  have dev: "take_bit 12 UART_PAGE = 0" "take_bit 12 (UART_PAGE + 0x1000) = 0" "unat (UART_PAGE + 0x1000) \<le> 2 ^ 39"
     "take_bit 12 VIRTIO_MMIO0_PAGE = 0" "take_bit 12 (VIRTIO_MMIO0_PAGE + 0x1000) = 0"
     "unat (VIRTIO_MMIO0_PAGE + 0x1000) \<le> 2 ^ 39"
    by (simp_all add: as_consts take_bit_eq_mod)
  show ?thesis
    using assms(1,3,4)
    unfolding map_kernel_regions_def Let_def
    by (auto split: option.splits if_splits simp: kernel_rw_def kernel_device_def
        dest!: identity_map_no_uview [OF _ _ _ _ pg(1,2,7)] identity_map_no_uview [OF _ _ _ _ pg(3,4,8)]
          identity_map_no_uview [OF _ _ _ _ pg(5,6,9)] identity_map_no_uview [OF _ _ _ _ dev(1,2,3)]
          identity_map_no_uview [OF _ _ _ _ dev(4,5,6)])
qed

lemma build_service_arena_view:
  assumes "build_service_arena lm a0 stack = Some a'" "layout_ok lm" "arena_inv a0" "no_uview a0"
    and "unat stack < 2 ^ 56" "unat v < 2 ^ 39"
  shows "arena_inv a' \<and> uview a' v = service_view lm stack v"
proof -
  obtain a1 a2 a3 where k: "map_kernel_regions a0 (lm_kernel lm) = Some a1"
    and t: "map_region_loop a1 (lm_user_text_start lm) (lm_user_text_start lm) (lm_user_text_end lm) user_rx = Some a2"
    and r: "map_region_loop a2 (lm_user_text_start lm) (lm_user_rodata_start lm) (lm_user_rodata_end lm) user_r = Some a3"
    and s: "expect (map_page a3 (VirtAddr USER_STACK_VA) (PhysAddr (stack AND NOT 0xfff)) user_rw) = Some a'"
    using assms(1) by (auto simp: build_service_arena_def Let_def user_rx_def user_r_def split: option.splits)
  have al: "take_bit 12 (lm_user_text_start lm) = 0" "take_bit 12 (lm_user_text_end lm) = 0"
     "take_bit 12 (lm_user_rodata_start lm) = 0" "take_bit 12 (lm_user_rodata_end lm) = 0"
     and b: "unat (lm_user_text_end lm) < 2 ^ 39" "unat (lm_user_rodata_end lm) < 2 ^ 39"
     and ord: "unat (lm_user_text_start lm) \<le> unat (lm_user_text_end lm)" "unat (lm_user_text_end lm) \<le> unat (lm_user_rodata_start lm)"
       "unat (lm_user_rodata_start lm) \<le> unat (lm_user_rodata_end lm)"
     and sz: "unat (lm_user_rodata_end lm) - unat (lm_user_text_start lm) \<le> 0x1F0000"
    using assms(2) unfolding layout_ok_def aligned_take_bit word_le_nat_alt by simp_all
  have a1: "arena_inv a1" "uview a1 v = None"
    using map_kernel_regions_no_uview [OF k assms(2-4)] assms(6) by (simp_all add: no_uview_def)
  have a2: "arena_inv a2" "uview a2 v = (if 0x10000 \<le> unat v \<and> unat v < 0x10000 + (unat (lm_user_text_end lm) - unat (lm_user_text_start lm))
     then Some (PhysAddr (lm_user_text_start lm + (v - USER_CODE_VA)), user_rx) else None)"
    using map_region_loop_uview [OF t a1(1) _ _ al(1,2) _ _ b(1) assms(6)] a1(2) ord sz
    by (simp_all add: user_rx_def word_le_nat_alt)
  have a3: "arena_inv a3" "uview a3 v = (if 0x10000 + (unat (lm_user_rodata_start lm) - unat (lm_user_text_start lm)) \<le> unat v
       \<and> unat v < 0x10000 + (unat (lm_user_rodata_end lm) - unat (lm_user_text_start lm))
     then Some (PhysAddr (lm_user_text_start lm + (v - USER_CODE_VA)), user_r) else uview a2 v)"
    using map_region_loop_uview [OF r a2(1) _ _ al(3,4) _ _ b(2) assms(6)] ord sz
    by (simp_all add: user_r_def word_le_nat_alt)
  have pa: "unat (stack AND NOT 0xfff) < 2 ^ 56"
    using assms(5) word_and_le2 [of stack "NOT 0xfff"] by (simp add: word_le_nat_alt)
  have va: "unat USER_STACK_VA < 2 ^ 39" by (simp add: USER_STACK_VA_def)
  have a': "arena_inv a'" "uview a' v = (if 0x200000 \<le> unat v \<and> unat v < 0x201000
     then Some (PhysAddr ((stack AND NOT 0xfff) + (v - USER_STACK_VA)), user_rw) else uview a3 v)"
    using map_page_uview [OF s a3(1) _ _ va pa assms(6)] by (simp_all add: user_rw_def USER_STACK_VA_def)
  have "uview a' v = service_view lm stack v"
    unfolding a'(2) a3(2) a2(2) service_view_def Let_def USER_CODE_VA_def USER_STACK_VA_def
    using ord sz by auto
  with a'(1) show ?thesis by simp
qed

lemma resolve_cong: "ar_tables a' = ar_tables a \<Longrightarrow> ar_base a' = ar_base a \<Longrightarrow> translate a' v = translate a v"
  by (simp add: translate_def walk_level_def table_index_of_def Let_def)

declare map_region_loop.simps [code] identity_map_loop.simps [code]

lemma map_level_base: "map_level a cur va level = Some (a', r) \<Longrightarrow> ar_base a' = ar_base a"
  by (auto simp: map_level_def arena_alloc_def Let_def split: if_splits result.splits)

lemma map_page_base: "map_page a va pa p = Some (a', r) \<Longrightarrow> ar_base a' = ar_base a"
  by (auto simp: map_page_def Let_def dest!: map_level_base split: if_splits result.splits option.splits prod.splits)

lemma identity_map_loop_base:
  assumes "identity_map_loop a addr lim p = Some y"
  shows "ar_base (fst y) = ar_base a"
  by (rule identity_map_loop.raw_induct [of "\<lambda>a _ _ _ y. ar_base (fst y) = ar_base a", OF _ assms])
    (auto dest: map_page_base split: if_splits result.splits option.splits prod.splits)

lemma map_region_loop_base:
  assumes "map_region_loop a ts pa lim p = Some a'"
  shows "ar_base a' = ar_base a"
  by (rule map_region_loop.raw_induct [of "\<lambda>a _ _ _ _ a'. ar_base a' = ar_base a", OF _ assms])
    (auto simp: expect_Some dest: map_page_base split: if_splits option.splits)

lemma build_service_arena_base: "build_service_arena lm a stack = Some a' \<Longrightarrow> ar_base a' = ar_base a"
  by (auto simp: build_service_arena_def map_kernel_regions_def Let_def expect_Some identity_map_range_def
      dest!: map_page_base identity_map_loop_base map_region_loop_base split: if_splits option.splits)

lemma no_uview_new: "tables \<noteq> [] \<Longrightarrow> tables ! 0 = table_zeroed \<Longrightarrow> no_uview (arena_new tables base)"
  by (simp add: no_uview_def uview_def resolve_def step1_def ent_def arena_new_def table_zeroed_def empty_entry)

section \<open>Properties\<close>

text \<open>C6. Spatial isolation of services: when \<open>build_service_address_space\<close> returns,
  the address space walks without a fault of the walker, its root is the table arena of that index, no
  other arena changed, and the addresses user mode can reach are exactly the user text (read and execute),
  the user read-only data (read) and the one stack page at \<open>0x200000\<close> backed by the service's
  own stack frame (read and write). No kernel page, device page or foreign stack is reachable with the U
  bit, and nothing is writable and executable.\<close>

theorem service_space_user_view:
  assumes "build_service_address_space lm tabs i entry stack = Some (tabs', u)" and "layout_ok lm"
    and "i < length tabs" and "tabs ! i \<noteq> []" and "tabs ! i ! 0 = table_zeroed"
    and "is_multiple_of (lm_user_tables lm i) PAGE_SIZE"
    and "unat (lm_user_tables lm i) + 4096 * length (tabs ! i) \<le> 2 ^ 56" and "unat stack < 2 ^ 56"
  shows "uas_root u = PhysAddr (lm_user_tables lm i) \<and> (\<forall>j. j \<noteq> i \<longrightarrow> tabs' ! j = tabs ! j)
    \<and> (\<forall>v. unat v < 2 ^ 39 \<longrightarrow>
         (\<exists>w. translate (arena_new (tabs' ! i) (lm_user_tables lm i)) (VirtAddr v) = Some w
            \<and> (case w of None \<Rightarrow> None | Some (pa, p) \<Rightarrow> if p_user p then Some (pa, p) else None) = service_view lm stack v))"
proof -
  let ?b = "lm_user_tables lm i"
  obtain a where a: "build_service_arena lm (arena_new (tabs ! i) ?b) stack = Some a"
    and tabs': "tabs' = tabs[i := ar_tables a]" and u: "uas_root u = root_pa a"
    using assms(1) by (auto simp: build_service_address_space_def split: if_splits option.splits)
  have base: "ar_base a = ?b" using build_service_arena_base [OF a] by (simp add: arena_new_def)
  have inv0: "arena_inv (arena_new (tabs ! i) ?b)"
    using assms(4-7) by (intro arena_inv_new) (simp_all add: aligned_take_bit)
  note V = build_service_arena_view [OF a assms(2) inv0 no_uview_new [OF assms(4,5)] assms(8)]
  have "translate (arena_new (tabs' ! i) ?b) (VirtAddr v) = Some (resolve a v)
      \<and> (case resolve a v of None \<Rightarrow> None | Some (pa, p) \<Rightarrow> if p_user p then Some (pa, p) else None) = service_view lm stack v"
    if v39: "unat v < 2 ^ 39" for v
  proof -
    obtain lvl where "arena_lv lvl a" using V [OF v39] by (auto simp: arena_inv_def)
    then have "translate a (VirtAddr v) = Some (resolve a v)" by (rule translate_resolve)
    moreover have "translate (arena_new (tabs' ! i) ?b) (VirtAddr v) = translate a (VirtAddr v)"
      by (rule resolve_cong) (simp_all add: tabs' assms(3) arena_new_def base)
    ultimately show ?thesis using V [OF v39] by (simp add: uview_def)
  qed
  then show ?thesis using u base by (auto simp: tabs' root_pa_def pa_of_def)
qed

definition sample_layout :: link_map where
  "sample_layout =
     \<lparr>lm_kernel = \<lparr>kr_text = (0x80200000, 0x80201000), kr_rodata = (0x80201000, 0x80201000),
                   kr_data = (0x80203000, 0x80204000)\<rparr>,
      lm_user_text_start = 0x80201000, lm_user_text_end = 0x80202000,
      lm_user_rodata_start = 0x80202000, lm_user_rodata_end = 0x80203000,
      lm_user_tables = (\<lambda>i. 0x80300000 + of_nat i * 0x10000)\<rparr>"

theorem service_space_user_view_witness:
  "\<exists>tabs' u. build_service_address_space sample_layout (replicate 16 (replicate 16 table_zeroed)) 0 0x80201010 0x80203000
       = Some (tabs', u) \<and> uas_root u = PhysAddr 0x80300000"
proof -
  let ?t = "replicate 16 (replicate 16 table_zeroed)"
  have t0: "?t ! 0 = replicate 16 table_zeroed" and len: "length ?t = 16" "length (replicate 16 table_zeroed) = 16"
    by (simp_all only: nth_replicate length_replicate)
  have base: "lm_user_tables sample_layout 0 = 0x80300000" by (simp add: sample_layout_def)
  have "build_service_arena sample_layout (arena_new (replicate 16 table_zeroed) 0x80300000) 0x80203000 \<noteq> None"
    by code_simp
  then obtain a where "build_service_arena sample_layout (arena_new (replicate 16 table_zeroed) 0x80300000) 0x80203000 = Some a"
    by blast
  then obtain tabs' u where
    b: "build_service_address_space sample_layout ?t 0 0x80201010 0x80203000 = Some (tabs', u)"
    unfolding build_service_address_space_def t0 base MAX_USER_AS_def by simp
  have lay: "layout_ok sample_layout"
    by (simp add: layout_ok_def sample_layout_def is_multiple_of_def PAGE_SIZE_def)
  have "is_multiple_of (0x80300000 :: u64) PAGE_SIZE"
    by (simp add: is_multiple_of_def PAGE_SIZE_def)
  moreover have "replicate 16 table_zeroed \<noteq> []" "replicate 16 table_zeroed ! 0 = table_zeroed"
    by simp_all
  ultimately have "uas_root u = PhysAddr (lm_user_tables sample_layout 0)"
    using service_space_user_view [OF b lay] unfolding t0 base len by simp
  with b base show ?thesis by metis
qed

end
