(* ===== verification/Kernel_State.thy ===== *)
theory Kernel_State
  imports Caps Devices Address_Spaces "HOL-Library.Monad_Syntax"
begin

text \<open>
  State of the running kernel (\<open>kernel/src/arch/riscv64/dispatch.rs\<close>, with the trap frame of
  \<open>trap.rs\<close> and the serial port of \<open>uart.rs\<close>) and the primitive operations on it.

  All statics of the dispatcher are fields of one record \<open>kernel\<close>, together with the parts of
  the machine the dispatcher reads and writes: the \<open>sstatus\<close> register, the root of the active
  address space, the memory of the user address spaces (\<open>k_umem root va\<close>, the byte that a
  supervisor access to \<open>va\<close> reaches under that root), the bytes sent to and waiting at the
  serial port, and the history of device register accesses. What the linker and the devices
  decide is in \<open>platform\<close>.

  Conventions: \<open>None\<close> is a Rust panic (an index out of bounds). A register used as \<open>usize\<close> is
  read with \<open>unat\<close>; result codes (\<open>i64\<close>) are their 64-bit patterns. Atomics are plain fields:
  the dispatcher runs on one hart and is never re-entered.
\<close>

section \<open>Trap frames\<close>

record trap_frame =
  tf_regs :: "u64 list"
  tf_sepc :: u64
  tf_sstatus :: u64

definition SSTATUS_SPP :: u64 where "SSTATUS_SPP = push_bit 8 1"
definition SSTATUS_SPIE :: u64 where "SSTATUS_SPIE = push_bit 5 1"

definition frame_a7 :: "trap_frame \<Rightarrow> u64" where
  "frame_a7 f = tf_regs f ! 16"

definition set_a0 :: "trap_frame \<Rightarrow> u64 \<Rightarrow> trap_frame" where
  "set_a0 f value = f\<lparr>tf_regs := (tf_regs f)[9 := value]\<rparr>"

definition is_from_user :: "trap_frame \<Rightarrow> bool" where
  "is_from_user f \<longleftrightarrow> tf_sstatus f AND SSTATUS_SPP = 0"

definition new_user :: "u64 \<Rightarrow> u64 \<Rightarrow> trap_frame" where
  "new_user entry user_sp =
     \<lparr>tf_regs = (replicate 31 0)[1 := user_sp], tf_sepc = entry, tf_sstatus = SSTATUS_SPIE\<rparr>"

section \<open>Constants\<close>

definition ERR_INVALID_CAP :: u64 where "ERR_INVALID_CAP = - 2"
definition ERR_INSUFFICIENT_RIGHTS :: u64 where "ERR_INSUFFICIENT_RIGHTS = - 3"
definition ERR_WRONG_OBJECT_TYPE :: u64 where "ERR_WRONG_OBJECT_TYPE = - 4"
definition ERR_INVALID_ARG :: u64 where "ERR_INVALID_ARG = - 5"
definition ERR_MSG_TOO_LARGE :: u64 where "ERR_MSG_TOO_LARGE = - 6"
definition ERR_NO_SLOT :: u64 where "ERR_NO_SLOT = - 7"

definition OTYPE_ENDPOINT :: u8 where "OTYPE_ENDPOINT = 0"
definition OTYPE_CONSOLE :: u8 where "OTYPE_CONSOLE = 1"
definition OTYPE_CONTROL :: u8 where "OTYPE_CONTROL = 2"
definition OTYPE_INFO :: u8 where "OTYPE_INFO = 3"
definition OTYPE_DEVICE :: u8 where "OTYPE_DEVICE = 4"

definition RIGHT_SEND :: u16 where "RIGHT_SEND = push_bit 3 1"
definition RIGHT_RECV :: u16 where "RIGHT_RECV = push_bit 4 1"
definition RIGHT_CONTROL :: u16 where "RIGHT_CONTROL = push_bit 7 1"

definition DEV_RIGHT_INFO :: u16 where "DEV_RIGHT_INFO = push_bit 0 1"
definition DEV_RIGHT_MMIO_READ :: u16 where "DEV_RIGHT_MMIO_READ = push_bit 1 1"
definition DEV_RIGHT_MMIO_WRITE :: u16 where "DEV_RIGHT_MMIO_WRITE = push_bit 2 1"
definition DEV_RIGHT_DMA_READ :: u16 where "DEV_RIGHT_DMA_READ = push_bit 3 1"
definition DEV_RIGHT_DMA_WRITE :: u16 where "DEV_RIGHT_DMA_WRITE = push_bit 4 1"
definition DEV_RIGHT_IRQ_RECEIVE :: u16 where "DEV_RIGHT_IRQ_RECEIVE = push_bit 5 1"
definition DEV_RIGHT_DRIVER_CONTROL :: u16 where "DEV_RIGHT_DRIVER_CONTROL = push_bit 6 1"
definition DEV_RIGHT_NETWORK_DRIVER :: u16 where "DEV_RIGHT_NETWORK_DRIVER = push_bit 7 1"

definition CAPS_PER_TASK :: nat where "CAPS_PER_TASK = 9"
definition MAX_TASKS :: nat where "MAX_TASKS = 16"
definition NUM_ENDPOINTS :: nat where "NUM_ENDPOINTS = 12"
definition IPC_MSG_MAX :: nat where "IPC_MSG_MAX = 128"
definition WATCHDOG_WINDOW :: u64 where "WATCHDOG_WINDOW = 4"
definition USER_DATA_VA :: u64 where "USER_DATA_VA = 0x200000"
definition USER_DATA_END :: u64 where "USER_DATA_END = USER_DATA_VA + 0x1000"
definition RING_LEN :: nat where "RING_LEN = 32"

definition EV_STARTED :: u8 where "EV_STARTED = 0"
definition EV_EXITED :: u8 where "EV_EXITED = 1"
definition EV_FAULT :: u8 where "EV_FAULT = 2"
definition EV_CAP_DENIED :: u8 where "EV_CAP_DENIED = 3"
definition EV_RECOVERY :: u8 where "EV_RECOVERY = 4"
definition EV_KILLED :: u8 where "EV_KILLED = 5"
definition EV_RESTARTED :: u8 where "EV_RESTARTED = 6"

lemmas err_consts [ax_const] =
  ERR_INVALID_CAP_def ERR_INSUFFICIENT_RIGHTS_def ERR_WRONG_OBJECT_TYPE_def ERR_INVALID_ARG_def
  ERR_MSG_TOO_LARGE_def ERR_NO_SLOT_def

lemmas size_consts [ax_const] =
  CAPS_PER_TASK_def MAX_TASKS_def NUM_ENDPOINTS_def IPC_MSG_MAX_def RING_LEN_def

section \<open>Data\<close>

text \<open>The running form of a capability (\<open>Cap\<close>) and the outcome of a lookup (\<open>CapCheck\<close>).\<close>

record rt_cap =
  rc_otype :: u8
  rc_object_id :: u32
  rc_rights :: u16

definition cap_endpoint :: "u32 \<Rightarrow> u16 \<Rightarrow> rt_cap" where
  "cap_endpoint oid r = \<lparr>rc_otype = OTYPE_ENDPOINT, rc_object_id = oid, rc_rights = r\<rparr>"
definition cap_console :: "u16 \<Rightarrow> rt_cap" where
  "cap_console r = \<lparr>rc_otype = OTYPE_CONSOLE, rc_object_id = 0, rc_rights = r\<rparr>"
definition cap_control :: rt_cap where
  "cap_control = \<lparr>rc_otype = OTYPE_CONTROL, rc_object_id = 0, rc_rights = RIGHT_CONTROL\<rparr>"
definition cap_info :: rt_cap where
  "cap_info = \<lparr>rc_otype = OTYPE_INFO, rc_object_id = 0, rc_rights = RIGHT_RECV\<rparr>"
definition cap_device :: "u32 \<Rightarrow> u16 \<Rightarrow> rt_cap" where
  "cap_device oid r = \<lparr>rc_otype = OTYPE_DEVICE, rc_object_id = oid, rc_rights = r\<rparr>"

datatype cap_verdict = CapOk u32 | CapInvalid | CapWrongType | CapInsufficientRights

record pending_msg =
  pm_dst :: u64
  pm_len :: nat
  pm_data :: "u8 list"

datatype rt_state = RtEmpty | RtReady | RtRunning | RtBlocked | RtFaulted | RtKilled

record tcb =
  t_state :: rt_state
  t_prio :: u8
  t_satp_root :: u64
  t_frame :: trap_frame
  t_pending_ipc :: "pending_msg option"
  t_caps :: "rt_cap option list"
  t_name :: string
  t_entry_va :: u64
  t_stack_top_va :: u64

definition EMPTY_TCB :: tcb where
  "EMPTY_TCB =
     \<lparr>t_state = RtEmpty, t_prio = 0, t_satp_root = 0,
      t_frame = \<lparr>tf_regs = replicate 31 0, tf_sepc = 0, tf_sstatus = 0\<rparr>,
      t_pending_ipc = None, t_caps = replicate CAPS_PER_TASK None, t_name = '''',
      t_entry_va = 0, t_stack_top_va = 0\<rparr>"

datatype ep =
    EpIdle
  | SenderWaiting nat nat
  | ReceiverWaiting nat u64 nat

record irq_route =
  ir_receiver :: nat
  ir_pending :: bool

record service_def =
  sv_name :: string
  sv_entry :: u64
  sv_stack_phys :: u64
  sv_prio :: u8
  sv_slot :: nat
  sv_caps :: "rt_cap option list"

datatype mmio_access = MmioRead u64 u64 | MmioWrite u64 u64 u64

record kernel =
  k_tasks :: "tcb list"
  k_current :: nat
  k_active :: bool
  k_watchdog_miss :: u64
  k_endpoints :: "ep list"
  k_kmsg :: "u8 list"
  k_irq_routes :: "irq_route list"
  k_dma :: "u8 list"
  k_ticks :: u64
  k_delivered :: u64
  k_ring :: "(u8 \<times> u8) list"
  k_ring_head :: u64
  k_service_table :: "service_def list option"
  k_user_tables :: "table list list"
  k_sstatus :: u64
  k_satp_root :: u64
  k_umem :: "u64 \<Rightarrow> u64 \<Rightarrow> u8"
  k_console :: "u8 list"
  k_input :: "u8 list"
  k_mmio :: "mmio_access list"
  k_timer_ticks :: u64
  k_timer :: "u64 option"
  k_fault_cont :: "u64 \<times> u64"

record platform =
  pl_os_boot :: bool
  pl_link :: link_map
  pl_mmio8 :: "mmio_access list \<Rightarrow> u64 \<Rightarrow> u8"
  pl_mmio16 :: "mmio_access list \<Rightarrow> u64 \<Rightarrow> u16"
  pl_mmio32 :: "mmio_access list \<Rightarrow> u64 \<Rightarrow> u32"

text \<open>How a handler ends: it returns with the live frame and a result, it stops in a spin loop,
  or it powers the machine off.\<close>

datatype 'a outcome = Ret kernel trap_frame 'a | Halt kernel | PowerOff kernel

section \<open>Serial port\<close>

definition put_byte :: "u8 \<Rightarrow> kernel \<Rightarrow> kernel" where
  "put_byte b k = k\<lparr>k_console := k_console k @ [b]\<rparr>"

definition get_byte :: "kernel \<Rightarrow> u8 option \<times> kernel" where
  "get_byte k = (case k_input k of [] \<Rightarrow> (None, k) | b # bs \<Rightarrow> (Some b, k\<lparr>k_input := bs\<rparr>))"

definition put_str :: "string \<Rightarrow> kernel \<Rightarrow> kernel" where
  "put_str s k = fold (\<lambda>b k. put_byte b (if b = 10 then put_byte 13 k else k)) (bytes s) k"

text \<open>A run of \<open>uart::put_str\<close> calls, and the newline that ends a line.\<close>

definition put_strs :: "string list \<Rightarrow> kernel \<Rightarrow> kernel" where
  "put_strs ss k = fold put_str ss k"

abbreviation nl :: string where "nl \<equiv> [CHR 0x0A]"

definition line :: "string \<Rightarrow> string" where "line s = s @ nl"

definition emit :: "string \<Rightarrow> string \<Rightarrow> kernel \<Rightarrow> kernel" where
  "emit prefix name k = put_strs [prefix, name, nl] k"

text \<open>The digit loops of \<open>put_dec\<close> and \<open>put_hex\<close> fill a buffer from its end; the accumulator is
  the filled part.\<close>

function dec_loop :: "u64 \<Rightarrow> u8 list \<Rightarrow> u8 list" where
  "dec_loop v acc = (if v > 0 then dec_loop (v div 10) ((48 + ucast (v mod 10)) # acc) else acc)"
  by pat_completeness auto
termination
  by (relation "measure (\<lambda>(v, _). unat v)") (simp_all add: unat_div word_less_nat_alt)

function hex_loop :: "u64 \<Rightarrow> u8 list \<Rightarrow> u8 list" where
  "hex_loop v acc =
     (if v > 0 then
        let d = ucast (v AND 0xf) :: u8
        in hex_loop (drop_bit 4 v) ((if d < 10 then 48 + d else 97 + (d - 10)) # acc)
      else acc)"
  by pat_completeness auto
termination
  by (relation "measure (\<lambda>(v, _). unat v)")
    (simp_all add: word_less_nat_alt drop_bit_eq_div unat_div)

declare dec_loop.simps [simp del] hex_loop.simps [simp del]

definition put_dec :: "u64 \<Rightarrow> kernel \<Rightarrow> kernel" where
  "put_dec v k = (if v = 0 then put_byte 48 k else fold put_byte (dec_loop v []) k)"

definition put_hex :: "u64 \<Rightarrow> kernel \<Rightarrow> kernel" where
  "put_hex v k =
     (let k = put_str ''0x'' k
      in if v = 0 then put_byte 48 k else fold put_byte (hex_loop v []) k)"

section \<open>Tables\<close>

definition task_at :: "kernel \<Rightarrow> nat \<Rightarrow> tcb option" where
  "task_at k i = (if i < length (k_tasks k) then Some (k_tasks k ! i) else None)"

definition upd_task :: "nat \<Rightarrow> (tcb \<Rightarrow> tcb) \<Rightarrow> kernel \<Rightarrow> kernel" where
  "upd_task i g k = k\<lparr>k_tasks := (k_tasks k)[i := g (k_tasks k ! i)]\<rparr>"

abbreviation set_state :: "nat \<Rightarrow> rt_state \<Rightarrow> kernel \<Rightarrow> kernel" where
  "set_state i s \<equiv> upd_task i (\<lambda>t. t\<lparr>t_state := s\<rparr>)"

abbreviation set_frame :: "nat \<Rightarrow> trap_frame \<Rightarrow> kernel \<Rightarrow> kernel" where
  "set_frame i f \<equiv> upd_task i (\<lambda>t. t\<lparr>t_frame := f\<rparr>)"

abbreviation set_pending :: "nat \<Rightarrow> pending_msg option \<Rightarrow> kernel \<Rightarrow> kernel" where
  "set_pending i pm \<equiv> upd_task i (\<lambda>t. t\<lparr>t_pending_ipc := pm\<rparr>)"

definition ep_get :: "kernel \<Rightarrow> u32 \<Rightarrow> ep option" where
  "ep_get k i = (if unat i < length (k_endpoints k) then Some (k_endpoints k ! unat i) else None)"

definition ep_set :: "u32 \<Rightarrow> ep \<Rightarrow> kernel \<Rightarrow> kernel" where
  "ep_set i e k = k\<lparr>k_endpoints := (k_endpoints k)[unat i := e]\<rparr>"

fun ep_waiter :: "ep \<Rightarrow> nat option" where
  "ep_waiter EpIdle = None"
| "ep_waiter (SenderWaiting tid _) = Some tid"
| "ep_waiter (ReceiverWaiting tid _ _) = Some tid"

definition ep_clear_for_task :: "nat \<Rightarrow> kernel \<Rightarrow> kernel" where
  "ep_clear_for_task slot k =
     k\<lparr>k_endpoints := map (\<lambda>e. if ep_waiter e = Some slot then EpIdle else e) (k_endpoints k)\<rparr>"

definition ring_push :: "u8 \<Rightarrow> nat \<Rightarrow> kernel \<Rightarrow> kernel" where
  "ring_push kind slot k =
     k\<lparr>k_ring_head := k_ring_head k + 1,
       k_ring := (k_ring k)[unat (k_ring_head k) mod RING_LEN := (kind, of_nat slot)]\<rparr>"

definition irq_route_at :: "kernel \<Rightarrow> nat \<Rightarrow> irq_route" where
  "irq_route_at k dev = k_irq_routes k ! dev"

definition irq_route_set :: "nat \<Rightarrow> irq_route \<Rightarrow> kernel \<Rightarrow> kernel" where
  "irq_route_set dev r k = k\<lparr>k_irq_routes := (k_irq_routes k)[dev := r]\<rparr>"

section \<open>Capability checks\<close>

definition rt_check :: "rt_cap option \<Rightarrow> (rt_cap \<Rightarrow> cap_verdict option) \<Rightarrow> u16 \<Rightarrow> cap_verdict" where
  "rt_check c pre required =
     (case c of None \<Rightarrow> CapInvalid
      | Some c \<Rightarrow> (case pre c of Some e \<Rightarrow> e | None \<Rightarrow>
          if rc_rights c AND required \<noteq> required then CapInsufficientRights else CapOk (rc_object_id c)))"

definition cap_check :: "kernel \<Rightarrow> nat \<Rightarrow> nat \<Rightarrow> u16 \<Rightarrow> cap_verdict option" where
  "cap_check k cur cap_index required =
     (if cap_index \<ge> CAPS_PER_TASK then Some CapInvalid
      else do {
        t \<leftarrow> task_at k cur;
        Some (rt_check (t_caps t ! cap_index)
          (\<lambda>c. if rc_otype c \<noteq> OTYPE_ENDPOINT then Some CapWrongType else None) required)
      })"

definition deny_cap :: "nat \<Rightarrow> cap_verdict \<Rightarrow> kernel \<Rightarrow> (kernel \<times> u64) option" where
  "deny_cap cur check k =
     do {
       let k = ring_push EV_CAP_DENIED cur k;
       t \<leftarrow> task_at k cur;
       let k = put_strs [''CAP_DENIED task='', t_name t, line '' reason=no_valid_capability'',
                 line ''IPC state=unchanged''] k;
       Some (k, case check of
           CapInvalid \<Rightarrow> ERR_INVALID_CAP
         | CapWrongType \<Rightarrow> ERR_WRONG_OBJECT_TYPE
         | CapInsufficientRights \<Rightarrow> ERR_INSUFFICIENT_RIGHTS
         | CapOk _ \<Rightarrow> 0)
     }"

definition cap_find :: "kernel \<Rightarrow> nat \<Rightarrow> u8 \<Rightarrow> u16 \<Rightarrow> bool option" where
  "cap_find k cur otype required =
     do {
       t \<leftarrow> task_at k cur;
       Some (list_ex (\<lambda>c. case c of None \<Rightarrow> False
         | Some c \<Rightarrow> rc_otype c = otype \<and> rc_rights c AND required = required) (t_caps t))
     }"

definition deny_authority :: "nat \<Rightarrow> string \<Rightarrow> kernel \<Rightarrow> (kernel \<times> u64) option" where
  "deny_authority cur what k =
     do {
       let k = ring_push EV_CAP_DENIED cur k;
       t \<leftarrow> task_at k cur;
       Some (put_strs [''CAP_DENIED task='', t_name t, '' reason='', what, nl] k, ERR_INVALID_CAP)
     }"

section \<open>User memory\<close>

definition SSTATUS_SUM :: u64 where "SSTATUS_SUM = push_bit 18 1"

definition set_sum :: "kernel \<Rightarrow> kernel" where
  "set_sum k = k\<lparr>k_sstatus := k_sstatus k OR SSTATUS_SUM\<rparr>"

definition clear_sum :: "kernel \<Rightarrow> kernel" where
  "clear_sum k = k\<lparr>k_sstatus := k_sstatus k AND NOT SSTATUS_SUM\<rparr>"

definition user_read :: "kernel \<Rightarrow> u64 \<Rightarrow> u8" where
  "user_read k va = k_umem k (k_satp_root k) va"

definition user_write :: "u64 \<Rightarrow> u8 \<Rightarrow> kernel \<Rightarrow> kernel" where
  "user_write va b k =
     k\<lparr>k_umem := (k_umem k)(k_satp_root k := (k_umem k (k_satp_root k))(va := b))\<rparr>"

definition in_stack_window :: "u64 \<Rightarrow> nat \<Rightarrow> bool" where
  "in_stack_window va len \<longleftrightarrow>
     va \<ge> USER_DATA_VA
     \<and> (case checked_add va (of_nat len) of None \<Rightarrow> False | Some e \<Rightarrow> e \<le> USER_DATA_END)"

definition in_readable_window :: "platform \<Rightarrow> u64 \<Rightarrow> nat \<Rightarrow> bool" where
  "in_readable_window pl va len \<longleftrightarrow>
     (if in_stack_window va len then True
      else let (start, end_addr) = user_region_va_span (pl_link pl)
      in va \<ge> start
         \<and> (case checked_add va (of_nat len) of None \<Rightarrow> False | Some e \<Rightarrow> e \<le> end_addr))"

definition valid_user_buf :: "u64 \<Rightarrow> nat \<Rightarrow> bool" where
  "valid_user_buf va len \<longleftrightarrow>
     len \<le> IPC_MSG_MAX \<and> va \<ge> USER_DATA_VA
     \<and> (case checked_add va (of_nat len) of None \<Rightarrow> False | Some e \<Rightarrow> e \<le> USER_DATA_END)"

text \<open>\<open>for (i, byte) in kmsg.iter_mut().enumerate().take(len)\<close>.\<close>

definition copy_from_user :: "u64 \<Rightarrow> nat \<Rightarrow> kernel \<Rightarrow> kernel" where
  "copy_from_user va len k =
     (let k = set_sum k;
          k = k\<lparr>k_kmsg := map (\<lambda>(i, b). if i < len then user_read k (va + of_nat i) else b)
                  (List.enumerate 0 (k_kmsg k))\<rparr>
      in clear_sum k)"

fun write_bytes :: "u64 \<Rightarrow> u8 list \<Rightarrow> kernel \<Rightarrow> kernel" where
  "write_bytes va [] k = k"
| "write_bytes va (b # bs) k = write_bytes (va + 1) bs (user_write va b k)"

definition copy_bytes_to_user :: "u64 \<Rightarrow> u8 list \<Rightarrow> kernel \<Rightarrow> kernel" where
  "copy_bytes_to_user va bs k = clear_sum (write_bytes va bs (set_sum k))"

definition copy_to_user :: "u64 \<Rightarrow> nat \<Rightarrow> kernel \<Rightarrow> kernel option" where
  "copy_to_user va len k =
     (if len > length (k_kmsg k) then None else Some (copy_bytes_to_user va (take len (k_kmsg k)) k))"

definition switch_to_user_space :: "u64 \<Rightarrow> kernel \<Rightarrow> kernel" where
  "switch_to_user_space root k = k\<lparr>k_satp_root := root\<rparr>"

section \<open>Registration\<close>

definition fresh_user_frame :: "kernel \<Rightarrow> u64 \<Rightarrow> u64 \<Rightarrow> trap_frame" where
  "fresh_user_frame k entry_va sp_va =
     (new_user entry_va sp_va)\<lparr>tf_sstatus := (k_sstatus k AND NOT SSTATUS_SPP) OR SSTATUS_SPIE\<rparr>"

definition register_task :: "nat \<Rightarrow> string \<Rightarrow> u8 \<Rightarrow> u64 \<Rightarrow> u64 \<Rightarrow> u64 \<Rightarrow> kernel \<Rightarrow> kernel option" where
  "register_task idx name prio root entry_va sp_va k =
     (if \<not> idx < length (k_tasks k) then None
      else Some (upd_task idx (\<lambda>_.
        \<lparr>t_state = RtReady, t_prio = prio, t_satp_root = root, t_frame = fresh_user_frame k entry_va sp_va,
         t_pending_ipc = None, t_caps = replicate CAPS_PER_TASK None, t_name = name,
         t_entry_va = entry_va, t_stack_top_va = sp_va\<rparr>) k))"

definition set_endpoint_cap :: "nat \<Rightarrow> nat \<Rightarrow> u32 \<Rightarrow> u16 \<Rightarrow> kernel \<Rightarrow> kernel option" where
  "set_endpoint_cap idx slot oid r k =
     do {
       t \<leftarrow> task_at k idx;
       if \<not> slot < length (t_caps t) then None
       else Some (upd_task idx (\<lambda>t. t\<lparr>t_caps := (t_caps t)[slot := Some (cap_endpoint oid r)]\<rparr>) k)
     }"

definition set_boot_cap :: "nat \<Rightarrow> rt_cap \<Rightarrow> kernel \<Rightarrow> kernel option" where
  "set_boot_cap idx c k =
     do {
       t \<leftarrow> task_at k idx;
       if \<not> 0 < length (t_caps t) then None
       else Some (upd_task idx (\<lambda>t. t\<lparr>t_caps := (t_caps t)[0 := Some c]\<rparr>) k)
     }"

definition set_service_table :: "service_def list \<Rightarrow> kernel \<Rightarrow> kernel" where
  "set_service_table table k = k\<lparr>k_service_table := Some table\<rparr>"

section \<open>Output only extends the console\<close>

definition crlf :: "string \<Rightarrow> u8 list" where
  "crlf s = concat (map (\<lambda>b. if b = 10 then [13, 10] else [b]) (bytes s))"

lemma fold_put_byte: "fold put_byte bs k = k\<lparr>k_console := k_console k @ bs\<rparr>"
  by (induction bs arbitrary: k) (simp_all add: put_byte_def)

lemma put_str_console: "put_str s k = k\<lparr>k_console := k_console k @ crlf s\<rparr>"
proof -
  have "fold (\<lambda>b k. put_byte b (if b = 10 then put_byte 13 k else k)) bs k =
      k\<lparr>k_console := k_console k @ concat (map (\<lambda>b. if b = 10 then [13, 10] else [b]) bs)\<rparr>" for bs
    by (induction bs arbitrary: k) (simp_all add: put_byte_def)
  then show ?thesis by (simp add: put_str_def crlf_def)
qed

lemma put_strs_console: "put_strs ss k = k\<lparr>k_console := k_console k @ concat (map crlf ss)\<rparr>"
  unfolding put_strs_def by (induction ss arbitrary: k) (simp_all add: put_str_console)

definition dec_text :: "u64 \<Rightarrow> u8 list" where
  "dec_text v = (if v = 0 then [48] else dec_loop v [])"

definition hex_text :: "u64 \<Rightarrow> u8 list" where
  "hex_text v = crlf ''0x'' @ (if v = 0 then [48] else hex_loop v [])"

lemma put_dec_console: "put_dec v k = k\<lparr>k_console := k_console k @ dec_text v\<rparr>"
  by (simp add: put_dec_def dec_text_def fold_put_byte put_byte_def)

lemma put_hex_console: "put_hex v k = k\<lparr>k_console := k_console k @ hex_text v\<rparr>"
  by (simp add: put_hex_def hex_text_def fold_put_byte put_byte_def put_str_console)

lemma emit_console: "emit a b k = k\<lparr>k_console := k_console k @ concat (map crlf [a, b, nl])\<rparr>"
  unfolding emit_def by (rule put_strs_console)

lemmas console_simps = put_str_console put_strs_console put_dec_console put_hex_console emit_console put_byte_def

text \<open>The buffer of \<open>put_dec\<close> has 20 bytes, that of \<open>put_hex\<close> 16: both are large enough, and the
  decimal loop yields the decimal representation.\<close>

lemma dec_loop_append: "dec_loop v (acc @ bs) = dec_loop v acc @ bs"
proof (induction v acc arbitrary: bs rule: dec_loop.induct)
  case (1 v acc)
  show ?case
  proof (cases "v > 0")
    case True
    then show ?thesis using 1 [OF True, of bs] by (simp add: dec_loop.simps [of v])
  next
    case False
    then show ?thesis by (simp add: dec_loop.simps [of v])
  qed
qed

lemma digit_byte: "d < 10 \<Longrightarrow> 48 + (of_nat d :: u8) = of_nat (of_char (digit_char d))"
  by (simp add: digit_char_def)

lemma dec_loop_string: "v > 0 \<Longrightarrow> dec_loop v [] = bytes (dec_string (unat v))"
proof (induction "unat v" arbitrary: v rule: less_induct)
  case less
  have q: "unat (v div 10) = unat v div 10" by (simp add: unat_div)
  have small: "unat v mod 10 < 10" by simp
  have "take_bit 8 (unat v mod 10) = unat v mod 10"
    by (rule take_bit_nat_eq_self) (use small in simp)
  then have "ucast (v mod 10) = (of_nat (unat v mod 10) :: u8)"
    by (simp add: unsigned_ucast_eq word_unat_eq_iff unat_mod unat_of_nat take_bit_eq_mod)
  then have d: "48 + ucast (v mod 10) = (of_nat (of_char (digit_char (unat v mod 10))) :: u8)"
    using digit_byte [OF small] by simp
  have step: "dec_loop v [] = dec_loop (v div 10) [] @ [48 + ucast (v mod 10)]"
    using less.prems dec_loop_append [of "v div 10" "[]" "[48 + ucast (v mod 10)]"]
    by (subst dec_loop.simps) simp
  show ?case
  proof (cases "unat v < 10")
    case True
    then have "v div 10 = 0" using q by (intro iffD1 [OF unat_eq_0]) simp
    then show ?thesis using step d True by (subst dec_string.simps) (simp add: bytes_def dec_loop.simps [of 0])
  next
    case False
    then have "v div 10 > 0" "unat (v div 10) < unat v"
      using q by (auto simp: word_less_nat_alt)
    from less.hyps [OF this(2,1)] show ?thesis
      using step d False q by (subst dec_string.simps) (simp add: bytes_def)
  qed
qed

lemma dec_text_correct: "dec_text v = bytes (dec_string (unat v))"
proof (cases "v = 0")
  case True
  then show ?thesis by (subst dec_string.simps) (simp add: dec_text_def bytes_def digit_char_def)
next
  case False
  then show ?thesis using dec_loop_string [of v] by (simp add: dec_text_def word_gt_0)
qed

lemma dec_text_fits: "length (dec_text v) \<le> 20"
proof -
  have "unat v < 2 ^ 64" using unsigned_less [of v] by simp
  then have "unat v < 10 ^ 20" by (rule less_le_trans) simp
  then show ?thesis using length_dec_string_le [of "unat v" 20] by (simp add: dec_text_correct)
qed

section \<open>Copies to and from user memory\<close>

fun upd_bytes :: "u64 \<Rightarrow> u8 list \<Rightarrow> (u64 \<Rightarrow> u8) \<Rightarrow> u64 \<Rightarrow> u8" where
  "upd_bytes va [] m = m"
| "upd_bytes va (b # bs) m = upd_bytes (va + 1) bs (m(va := b))"

lemma write_bytes_mem:
  "write_bytes va bs k = k\<lparr>k_umem := (k_umem k)(k_satp_root k := upd_bytes va bs (k_umem k (k_satp_root k)))\<rparr>"
proof (induction va bs k rule: write_bytes.induct)
  case (2 va b bs k)
  then show ?case
    unfolding write_bytes.simps upd_bytes.simps user_write_def by (simp del: fun_upd_apply add: fun_upd_same)
qed simp

lemma upd_bytes_nth:
  assumes "unat va + length bs \<le> 2 ^ 64"
  shows "upd_bytes va bs m a =
    (if unat va \<le> unat a \<and> unat a < unat va + length bs then bs ! (unat a - unat va) else m a)"
  using assms
proof (induction va bs m rule: upd_bytes.induct)
  case (2 va b bs m)
  have a64: "unat a < 2 ^ 64" using unsigned_less [of a] by simp
  show ?case
  proof (cases "bs = []")
    case True
    then show ?thesis by (auto simp: word_unat_eq_iff)
  next
    case False
    then have "unat (va + 1) = unat va + 1"
      using 2(2) by (simp add: unat_word_ariths) (cases bs; simp)
    moreover have "m(va := b) = (\<lambda>a. if unat a = unat va then b else m a)"
      by (auto simp: fun_eq_iff word_unat_eq_iff)
    moreover have "unat (va + 1) + length bs \<le> 2 ^ 64" using calculation(1) 2(2) by simp
    ultimately show ?thesis using 2(1) by (auto simp: nth_Cons' Suc_diff_le not_less_eq_eq)
  qed
qed auto

definition sum_clear :: "kernel \<Rightarrow> bool" where
  "sum_clear k \<longleftrightarrow> \<not> bit (k_sstatus k) 18"

lemma sum_roundtrip:
  assumes "sum_clear k"
  shows "(k_sstatus k OR SSTATUS_SUM) AND NOT SSTATUS_SUM = k_sstatus k"
proof (rule bit_word_eqI)
  fix n assume n: "n < LENGTH(64)"
  have f: "bit SSTATUS_SUM n \<longleftrightarrow> n = 18" unfolding SSTATUS_SUM_def by (rule bit_flag) simp
  show "bit ((k_sstatus k OR SSTATUS_SUM) AND NOT SSTATUS_SUM) n = bit (k_sstatus k) n"
    using assms n unfolding bit_and_iff bit_or_iff bit_not_iff f by (auto simp: sum_clear_def)
qed

lemma copy_bytes_to_user_mem:
  "sum_clear k \<Longrightarrow> copy_bytes_to_user va bs k =
     k\<lparr>k_umem := (k_umem k)(k_satp_root k := upd_bytes va bs (k_umem k (k_satp_root k)))\<rparr>"
  by (simp only: copy_bytes_to_user_def write_bytes_mem set_sum_def clear_sum_def) (simp add: sum_roundtrip)

definition user_bytes :: "(u64 \<Rightarrow> u8) \<Rightarrow> u64 \<Rightarrow> nat \<Rightarrow> u8 list" where
  "user_bytes m va len = map (\<lambda>i. m (va + of_nat i)) [0..<len]"

lemma length_user_bytes [simp]: "length (user_bytes m va len) = len"
  by (simp add: user_bytes_def)

lemma copy_from_user_kmsg:
  assumes "sum_clear k" "len \<le> length (k_kmsg k)"
  shows "copy_from_user va len k = k\<lparr>k_kmsg := user_bytes (k_umem k (k_satp_root k)) va len @ drop len (k_kmsg k)\<rparr>"
proof -
  have "map (\<lambda>(i, b). if i < len then k_umem k (k_satp_root k) (va + of_nat i) else b) (List.enumerate 0 (k_kmsg k))
      = user_bytes (k_umem k (k_satp_root k)) va len @ drop len (k_kmsg k)"
    using assms(2) by (intro nth_equalityI) (auto simp: nth_enumerate_eq nth_append user_bytes_def)
  then show ?thesis
    by (simp add: copy_from_user_def Let_def set_sum_def clear_sum_def user_read_def sum_roundtrip [OF assms(1)])
qed

lemma in_stack_window_iff:
  "len < 2 ^ 64 \<Longrightarrow> in_stack_window va len \<longleftrightarrow> 0x200000 \<le> unat va \<and> unat va + len \<le> 0x201000"
  by (auto simp: in_stack_window_def USER_DATA_VA_def USER_DATA_END_def word_le_nat_alt checked_add_def
      unat_word_ariths unat_of_nat take_bit_eq_mod)

lemma valid_user_buf_iff:
  "valid_user_buf va len \<longleftrightarrow> len \<le> 128 \<and> 0x200000 \<le> unat va \<and> unat va + len \<le> 0x201000"
proof -
  have "valid_user_buf va len \<longleftrightarrow> len \<le> 128 \<and> in_stack_window va len"
    by (auto simp: valid_user_buf_def in_stack_window_def IPC_MSG_MAX_def)
  then show ?thesis using in_stack_window_iff [of len va] by auto
qed

section \<open>Well-formed kernel states\<close>

definition caps_ok :: "rt_cap option list \<Rightarrow> bool" where
  "caps_ok cs \<longleftrightarrow> length cs = CAPS_PER_TASK
     \<and> list_all (\<lambda>c. case c of None \<Rightarrow> True
          | Some c \<Rightarrow> rc_otype c = OTYPE_ENDPOINT \<longrightarrow> unat (rc_object_id c) < NUM_ENDPOINTS) cs"

definition user_frame :: "trap_frame \<Rightarrow> bool" where
  "user_frame f \<longleftrightarrow> length (tf_regs f) = 31 \<and> is_from_user f"

definition pm_ok :: "pending_msg \<Rightarrow> bool" where
  "pm_ok pm \<longleftrightarrow> length (pm_data pm) = IPC_MSG_MAX \<and> valid_user_buf (pm_dst pm) (pm_len pm)"

text \<open>A task's capabilities name existing endpoints, its saved frame resumes in user mode, and a
  delivery is pending only while the task is ready.\<close>

definition task_ok :: "tcb \<Rightarrow> bool" where
  "task_ok t \<longleftrightarrow> caps_ok (t_caps t) \<and> user_frame (t_frame t)
     \<and> (case t_pending_ipc t of None \<Rightarrow> True | Some pm \<Rightarrow> t_state t = RtReady \<and> pm_ok pm)"

fun ep_buf_ok :: "ep \<Rightarrow> bool" where
  "ep_buf_ok EpIdle \<longleftrightarrow> True"
| "ep_buf_ok (SenderWaiting _ len) \<longleftrightarrow> len \<le> IPC_MSG_MAX"
| "ep_buf_ok (ReceiverWaiting _ dst cap) \<longleftrightarrow> valid_user_buf dst cap"

text \<open>Every task that waits at an endpoint is blocked, and it waits at one endpoint only.\<close>

definition eps_ok :: "tcb list \<Rightarrow> ep list \<Rightarrow> bool" where
  "eps_ok ts es \<longleftrightarrow> list_all ep_buf_ok es
     \<and> (\<forall>i<length es. \<forall>w. ep_waiter (es ! i) = Some w \<longrightarrow> w < length ts \<and> t_state (ts ! w) = RtBlocked)
     \<and> (\<forall>i<length es. \<forall>j<length es. \<forall>w. ep_waiter (es ! i) = Some w \<longrightarrow> ep_waiter (es ! j) = Some w \<longrightarrow> i = j)"

definition shape_ok :: "kernel \<Rightarrow> bool" where
  "shape_ok k \<longleftrightarrow> length (k_tasks k) = MAX_TASKS \<and> length (k_endpoints k) = NUM_ENDPOINTS
     \<and> length (k_kmsg k) = IPC_MSG_MAX \<and> length (k_irq_routes k) = 2 \<and> length (k_dma k) = 4096
     \<and> length (k_ring k) = RING_LEN \<and> list_all (\<lambda>(_, s). unat s < MAX_TASKS) (k_ring k)
     \<and> length (k_user_tables k) = MAX_USER_AS
     \<and> k_current k < MAX_TASKS \<and> sum_clear k"

text \<open>The boot-frozen service table: slots exist, capabilities are well formed, and the address
  space of a service that was not started yet can be built.\<close>

definition service_ok :: "platform \<Rightarrow> tcb list \<Rightarrow> table list list \<Rightarrow> service_def \<Rightarrow> bool" where
  "service_ok pl ts tabs sd \<longleftrightarrow> sv_slot sd < MAX_TASKS \<and> caps_ok (sv_caps sd)
     \<and> (t_state (ts ! sv_slot sd) = RtEmpty \<longrightarrow>
          build_service_arena (pl_link pl)
            (arena_new (tabs ! sv_slot sd) (lm_user_tables (pl_link pl) (sv_slot sd))) (sv_stack_phys sd) \<noteq> None)"

definition services_ok :: "platform \<Rightarrow> kernel \<Rightarrow> bool" where
  "services_ok pl k \<longleftrightarrow>
     list_all (service_ok pl (k_tasks k) (k_user_tables k)) (case k_service_table k of None \<Rightarrow> [] | Some table \<Rightarrow> table)"

definition kwf :: "platform \<Rightarrow> kernel \<Rightarrow> bool" where
  "kwf pl k \<longleftrightarrow> shape_ok k \<and> list_all task_ok (k_tasks k) \<and> eps_ok (k_tasks k) (k_endpoints k) \<and> services_ok pl k"

text \<open>Between two traps exactly the current task is running, in its own address space.\<close>

definition running_ok :: "kernel \<Rightarrow> bool" where
  "running_ok k \<longleftrightarrow> (\<forall>i<length (k_tasks k). t_state (k_tasks k ! i) = RtRunning \<longleftrightarrow> i = k_current k)
     \<and> k_satp_root k = t_satp_root (k_tasks k ! k_current k)"

definition idle_ok :: "kernel \<Rightarrow> bool" where
  "idle_ok k \<longleftrightarrow> (\<forall>i<length (k_tasks k). t_state (k_tasks k ! i) \<noteq> RtRunning)"

definition kinv :: "platform \<Rightarrow> kernel \<Rightarrow> trap_frame \<Rightarrow> bool" where
  "kinv pl k f \<longleftrightarrow> kwf pl k \<and> running_ok k \<and> k_active k \<and> user_frame f"

text \<open>A handler neither panics nor returns outside a postcondition.\<close>

definition returns :: "(kernel \<Rightarrow> trap_frame \<Rightarrow> 'a \<Rightarrow> bool) \<Rightarrow> 'a outcome option \<Rightarrow> bool" where
  "returns P r \<longleftrightarrow> (case r of None \<Rightarrow> False | Some (Ret k f x) \<Rightarrow> P k f x | Some (Halt _) \<Rightarrow> True | Some (PowerOff _) \<Rightarrow> True)"

text \<open>User memory changes only inside the data window of the address space that was active when
  the trap was taken or that is active when it returns.\<close>

definition mem_confined :: "kernel \<Rightarrow> kernel \<Rightarrow> bool" where
  "mem_confined k k' \<longleftrightarrow>
     (\<forall>root va. k_umem k' root va \<noteq> k_umem k root va \<longrightarrow>
        0x200000 \<le> unat va \<and> unat va < 0x201000 \<and> (root = k_satp_root k \<or> root = k_satp_root k'))"

definition step_ok :: "platform \<Rightarrow> kernel \<Rightarrow> kernel \<Rightarrow> trap_frame \<Rightarrow> bool" where
  "step_ok pl k k' f' \<longleftrightarrow> kinv pl k' f' \<and> mem_confined k k'"

lemma returns_simps [simp]:
  "returns P (Some (Ret k f x)) = P k f x" "returns P (Some (Halt k)) = True" "returns P (Some (PowerOff k)) = True"
  "returns P None = False"
  by (simp_all add: returns_def)

lemma returns_mono: "returns P r \<Longrightarrow> (\<And>k f x. P k f x \<Longrightarrow> Q k f x) \<Longrightarrow> returns Q r"
  by (auto simp: returns_def split: option.splits outcome.splits)

subsection \<open>Parts of the invariant under the primitive updates\<close>

lemma wf_cong:
  assumes "kwf pl k" "k_tasks k' = k_tasks k" "k_endpoints k' = k_endpoints k" "length (k_kmsg k') = length (k_kmsg k)"
    and "length (k_irq_routes k') = length (k_irq_routes k)" "length (k_dma k') = length (k_dma k)"
    and "k_ring k' = k_ring k" "k_user_tables k' = k_user_tables k" "k_current k' = k_current k"
    and "k_sstatus k' = k_sstatus k" "k_service_table k' = k_service_table k"
  shows "kwf pl k'"
  using assms by (simp add: kwf_def shape_ok_def services_ok_def sum_clear_def)

lemma kinv_cong:
  assumes "kinv pl k f" "k_tasks k' = k_tasks k" "k_endpoints k' = k_endpoints k" "length (k_kmsg k') = length (k_kmsg k)"
    and "length (k_irq_routes k') = length (k_irq_routes k)" "length (k_dma k') = length (k_dma k)"
    and "k_ring k' = k_ring k" "k_user_tables k' = k_user_tables k" "k_current k' = k_current k"
    and "k_sstatus k' = k_sstatus k" "k_service_table k' = k_service_table k"
    and "k_satp_root k' = k_satp_root k" "k_active k' = k_active k" "user_frame f'"
  shows "kinv pl k' f'"
proof -
  have "kwf pl k'" by (rule wf_cong [of pl k]) (use assms in \<open>simp_all add: kinv_def\<close>)
  with assms show ?thesis by (simp add: kinv_def running_ok_def)
qed

lemma user_frame_set_a0 [simp]: "user_frame (set_a0 f v) = user_frame f"
  by (simp add: user_frame_def set_a0_def is_from_user_def)

lemma task_at_Some: "shape_ok k \<Longrightarrow> i < MAX_TASKS \<Longrightarrow> task_at k i = Some (k_tasks k ! i)"
  by (simp add: task_at_def shape_ok_def)

lemma ep_get_Some: "shape_ok k \<Longrightarrow> unat i < NUM_ENDPOINTS \<Longrightarrow> ep_get k i = Some (k_endpoints k ! unat i)"
  by (simp add: ep_get_def shape_ok_def)

lemma wf_shape: "kwf pl k \<Longrightarrow> shape_ok k" by (simp add: kwf_def)

lemma wf_lengths:
  "kwf pl k \<Longrightarrow> length (k_tasks k) = MAX_TASKS \<and> length (k_endpoints k) = NUM_ENDPOINTS
     \<and> length (k_kmsg k) = IPC_MSG_MAX \<and> k_current k < MAX_TASKS \<and> sum_clear k \<and> length (k_irq_routes k) = 2"
  by (simp add: kwf_def shape_ok_def)

lemma wf_task_ok: "kwf pl k \<Longrightarrow> i < MAX_TASKS \<Longrightarrow> task_ok (k_tasks k ! i)"
  by (simp add: kwf_def shape_ok_def list_all_length)

lemma wf_console [simp]: "kwf pl (k\<lparr>k_console := c\<rparr>) = kwf pl k"
  by (simp add: kwf_def shape_ok_def services_ok_def sum_clear_def)

lemma running_ok_console [simp]: "running_ok (k\<lparr>k_console := c\<rparr>) = running_ok k"
  by (simp add: running_ok_def)

lemma idle_ok_console [simp]: "idle_ok (k\<lparr>k_console := c\<rparr>) = idle_ok k"
  by (simp add: idle_ok_def)

lemma kinv_console [simp]: "kinv pl (k\<lparr>k_console := c\<rparr>) f = kinv pl k f"
  by (simp add: kinv_def)

lemma kinv_set_a0 [simp]: "kinv pl k (set_a0 f v) = kinv pl k f"
  by (simp add: kinv_def)

lemma ring_push_fields [simp]:
  "k_tasks (ring_push e i k) = k_tasks k" "k_endpoints (ring_push e i k) = k_endpoints k"
  "k_current (ring_push e i k) = k_current k" "k_active (ring_push e i k) = k_active k"
  "k_satp_root (ring_push e i k) = k_satp_root k" "k_umem (ring_push e i k) = k_umem k"
  "k_irq_routes (ring_push e i k) = k_irq_routes k" "k_kmsg (ring_push e i k) = k_kmsg k"
  "k_sstatus (ring_push e i k) = k_sstatus k"
  by (simp_all add: ring_push_def)

lemma shape_ok_ring_push: "shape_ok k \<Longrightarrow> i < MAX_TASKS \<Longrightarrow> shape_ok (ring_push e i k)"
  by (auto simp: shape_ok_def ring_push_def sum_clear_def MAX_TASKS_def unat_of_nat take_bit_eq_mod
      intro!: list_all_update)

lemma wf_ring_push: "kwf pl k \<Longrightarrow> i < MAX_TASKS \<Longrightarrow> kwf pl (ring_push e i k)"
  by (auto simp: kwf_def shape_ok_ring_push services_ok_def) (simp add: ring_push_def)

lemma kinv_ring_push: "kinv pl k f \<Longrightarrow> i < MAX_TASKS \<Longrightarrow> kinv pl (ring_push e i k) f"
  by (auto simp: kinv_def running_ok_def wf_ring_push)

text \<open>Replacing one task control block.\<close>

lemma upd_task_fields [simp]:
  "k_endpoints (upd_task i g k) = k_endpoints k" "k_current (upd_task i g k) = k_current k"
  "k_active (upd_task i g k) = k_active k" "k_satp_root (upd_task i g k) = k_satp_root k"
  "k_umem (upd_task i g k) = k_umem k" "k_kmsg (upd_task i g k) = k_kmsg k"
  "k_irq_routes (upd_task i g k) = k_irq_routes k" "k_sstatus (upd_task i g k) = k_sstatus k"
  "k_tasks (upd_task i g k) = (k_tasks k)[i := g (k_tasks k ! i)]"
  by (simp_all add: upd_task_def)

lemma shape_ok_upd_task [simp]: "shape_ok (upd_task i g k) = shape_ok k"
  by (simp add: shape_ok_def upd_task_def sum_clear_def)

lemma services_ok_upd_task:
  assumes "services_ok pl k" "shape_ok k" "i < MAX_TASKS"
    and "t_state (g (k_tasks k ! i)) = RtEmpty \<Longrightarrow> t_state (k_tasks k ! i) = RtEmpty"
  shows "services_ok pl (upd_task i g k)"
  using assms
  by (auto simp: services_ok_def service_ok_def list_all_iff upd_task_def nth_list_update shape_ok_def)

lemma eps_ok_not_waiting:
  assumes "eps_ok ts es" "\<forall>j<length es. ep_waiter (es ! j) \<noteq> Some i"
  shows "eps_ok (ts[i := t]) es"
  using assms unfolding eps_ok_def by (metis length_list_update nth_list_update_neq)

lemma eps_ok_waiter:
  "eps_ok ts es \<Longrightarrow> j < length es \<Longrightarrow> ep_waiter (es ! j) = Some w \<Longrightarrow> w < length ts \<and> t_state (ts ! w) = RtBlocked"
  by (simp add: eps_ok_def)

lemma eps_ok_same_state:
  assumes "eps_ok ts es" "t_state t = t_state (ts ! i)"
  shows "eps_ok (ts[i := t]) es"
  using assms unfolding eps_ok_def by (metis length_list_update nth_list_update_eq nth_list_update_neq)

lemma eps_ok_not_blocked:
  assumes "eps_ok ts es" "t_state (ts ! i) \<noteq> RtBlocked"
  shows "eps_ok (ts[i := t]) es"
  using assms eps_ok_not_waiting eps_ok_waiter by metis

lemma eps_ok_wake:
  assumes "eps_ok ts es" "j < length es" "ep_waiter (es ! j) = Some i"
  shows "eps_ok (ts[i := t]) (es[j := EpIdle])"
proof -
  have "list_all ep_buf_ok (es[j := EpIdle])"
    using assms(1) by (simp add: eps_ok_def list_all_update)
  moreover have "w < length ts \<and> t_state (ts[i := t] ! w) = RtBlocked"
    if "a < length es" "ep_waiter (es[j := EpIdle] ! a) = Some w" for a w
  proof -
    have a: "a \<noteq> j" "ep_waiter (es ! a) = Some w"
      using that assms(2) by (auto simp: nth_list_update split: if_splits)
    then have "w \<noteq> i" using assms that(1) unfolding eps_ok_def by blast
    then show ?thesis using eps_ok_waiter [OF assms(1) that(1) a(2)] by simp
  qed
  moreover have "a = b" if "a < length es" "b < length es" "ep_waiter (es[j := EpIdle] ! a) = Some w"
      "ep_waiter (es[j := EpIdle] ! b) = Some w" for a b w
    using that assms(1,2) unfolding eps_ok_def by (auto simp: nth_list_update split: if_splits)
  ultimately show ?thesis by (simp add: eps_ok_def)
qed

lemma eps_ok_idle:
  assumes "eps_ok ts es" "j < length es"
  shows "eps_ok ts (es[j := EpIdle])"
proof (cases "ep_waiter (es ! j)")
  case None
  then have "es ! j = EpIdle" by (cases "es ! j") auto
  then have "es[j := EpIdle] = es" by (metis list_update_id)
  then show ?thesis using assms by simp
next
  case (Some i)
  show ?thesis using eps_ok_wake [OF assms Some, of "ts ! i"] by simp
qed

lemma eps_ok_block:
  assumes "eps_ok ts es" "j < length es" "i < length ts" "t_state (ts ! i) \<noteq> RtBlocked" "t_state t = RtBlocked"
    and "ep_waiter e = Some i" "ep_buf_ok e"
  shows "eps_ok (ts[i := t]) (es[j := e])"
proof -
  have no: "ep_waiter (es ! a) \<noteq> Some i" if "a < length es" for a
    using eps_ok_waiter [OF assms(1) that] assms(4) by auto
  have "list_all ep_buf_ok (es[j := e])"
    using assms(1,7) by (simp add: eps_ok_def list_all_update)
  moreover have "w < length ts \<and> t_state (ts[i := t] ! w) = RtBlocked"
    if "a < length es" "ep_waiter (es[j := e] ! a) = Some w" for a w
    using that assms eps_ok_waiter [OF assms(1) that(1)]
    by (auto simp: nth_list_update split: if_splits)
  moreover have "a = b" if "a < length es" "b < length es" "ep_waiter (es[j := e] ! a) = Some w"
      "ep_waiter (es[j := e] ! b) = Some w" for a b w
    using that assms(1,2,6) no unfolding eps_ok_def by (auto simp: nth_list_update split: if_splits)
  ultimately show ?thesis by (simp add: eps_ok_def)
qed

lemma eps_ok_clear:
  assumes "eps_ok ts es"
  shows "eps_ok (ts[i := t]) (map (\<lambda>e. if ep_waiter e = Some i then EpIdle else e) es)"
  using assms unfolding eps_ok_def
  by (auto simp: list_all_length nth_list_update split: if_splits)

text \<open>The general preservation rule: one task and the endpoints change, everything else that the
  invariant mentions stays.\<close>

lemma wf_change:
  assumes "kwf pl k" "i < MAX_TASKS" "k_tasks k' = (k_tasks k)[i := t]" "task_ok t"
    and "eps_ok ((k_tasks k)[i := t]) (k_endpoints k')" "length (k_endpoints k') = length (k_endpoints k)"
    and "t_state t = RtEmpty \<Longrightarrow> t_state (k_tasks k ! i) = RtEmpty"
    and "length (k_kmsg k') = length (k_kmsg k)" "length (k_irq_routes k') = length (k_irq_routes k)"
    and "length (k_dma k') = length (k_dma k)" "k_ring k' = k_ring k" "k_user_tables k' = k_user_tables k"
    and "k_current k' = k_current k" "k_sstatus k' = k_sstatus k" "k_service_table k' = k_service_table k"
  shows "kwf pl k'"
proof -
  have sh: "shape_ok k'" using assms by (simp add: kwf_def shape_ok_def sum_clear_def)
  have "services_ok pl (upd_task i (\<lambda>_. t) k)"
    using assms(1,2,7) by (intro services_ok_upd_task) (simp_all add: kwf_def)
  then have "services_ok pl k'" using assms by (simp add: services_ok_def upd_task_def)
  moreover have "list_all task_ok (k_tasks k')"
    using assms(1,3,4) by (simp add: kwf_def list_all_update)
  ultimately show ?thesis using sh assms(3,5) by (simp add: kwf_def)
qed

lemma upd_task_twice:
  "i < length (k_tasks k) \<Longrightarrow> upd_task i g (upd_task i h k) = upd_task i (\<lambda>t. g (h t)) k"
  by (simp add: upd_task_def)

lemma idle_ok_upd_task:
  assumes "running_ok k" "t_state (g (k_tasks k ! k_current k)) \<noteq> RtRunning"
  shows "idle_ok (upd_task (k_current k) g k)"
  using assms by (auto simp: idle_ok_def running_ok_def nth_list_update)

lemma mem_confined_same: "k_umem k' = k_umem k \<Longrightarrow> mem_confined k k'"
  by (simp add: mem_confined_def)

lemma mem_confined_cong:
  "k_umem k1 = k_umem k \<Longrightarrow> k_satp_root k1 = k_satp_root k \<Longrightarrow> mem_confined k1 k' = mem_confined k k'"
  by (simp add: mem_confined_def)

lemma mem_confined_upd_bytes:
  assumes "0x200000 \<le> unat va" "unat va + length bs \<le> 0x201000"
    and "k_umem k' = (k_umem k)(root := upd_bytes va bs (k_umem k root))"
    and "root = k_satp_root k \<or> root = k_satp_root k'"
  shows "mem_confined k k'"
proof -
  have "unat va + length bs \<le> 2 ^ 64" using assms(2) by (rule order_trans) simp
  from upd_bytes_nth [OF this, of "k_umem k root"] show ?thesis
    using assms by (auto simp: mem_confined_def split: if_splits)
qed

lemma step_ok_same:
  "kinv pl k' f \<Longrightarrow> k_umem k' = k_umem k \<Longrightarrow> step_ok pl k k' f"
  by (simp add: step_ok_def mem_confined_same)

lemma step_ok_from:
  "step_ok pl k1 k' f \<Longrightarrow> k_umem k1 = k_umem k \<Longrightarrow> k_satp_root k1 = k_satp_root k \<Longrightarrow> step_ok pl k k' f"
  by (simp add: step_ok_def mem_confined_def)

lemma returns_from:
  "returns (\<lambda>k' f' _. step_ok pl k1 k' f') r \<Longrightarrow> k_umem k1 = k_umem k \<Longrightarrow> k_satp_root k1 = k_satp_root k
     \<Longrightarrow> returns (\<lambda>k' f' _. step_ok pl k k' f') r"
  by (erule returns_mono) (rule step_ok_from)

section \<open>A sample state\<close>

text \<open>Three tasks: \<open>init\<close> runs with a send capability for endpoint 0 and task control, \<open>server\<close>
  waits there as a receiver with a 64-byte buffer, \<open>worker\<close> is ready and has a delivery of two
  bytes pending. It shows that the hypotheses of the properties can be met.\<close>

definition sample_platform :: platform where
  "sample_platform = \<lparr>pl_os_boot = True, pl_link = sample_layout, pl_mmio8 = \<lambda>_ _. 0, pl_mmio16 = \<lambda>_ _. 0, pl_mmio32 = \<lambda>_ _. 0\<rparr>"

definition sample_frame :: trap_frame where
  "sample_frame = \<lparr>tf_regs = replicate 31 0, tf_sepc = 0x10000, tf_sstatus = 0\<rparr>"

definition sample_task :: "string \<Rightarrow> rt_state \<Rightarrow> u8 \<Rightarrow> u64 \<Rightarrow> rt_cap option list \<Rightarrow> tcb" where
  "sample_task name st prio root caps =
     \<lparr>t_state = st, t_prio = prio, t_satp_root = root, t_frame = sample_frame, t_pending_ipc = None,
      t_caps = caps @ replicate (CAPS_PER_TASK - length caps) None, t_name = name,
      t_entry_va = 0x10000, t_stack_top_va = 0x201000\<rparr>"

definition sample_worker :: tcb where
  "sample_worker = (sample_task ''worker'' RtReady 3 0x80320000 [])\<lparr>
     t_pending_ipc := Some \<lparr>pm_dst = 0x200080, pm_len = 2, pm_data = [1, 2] @ replicate 126 0\<rparr>\<rparr>"

definition sample_kernel :: kernel where
  "sample_kernel =
     \<lparr>k_tasks = [sample_task ''init'' RtRunning 2 0x80300000 [Some (cap_endpoint 0 RIGHT_SEND), Some cap_control],
                 sample_task ''server'' RtBlocked 5 0x80310000 [Some (cap_endpoint 0 RIGHT_RECV)],
                 sample_worker] @ replicate 13 EMPTY_TCB,
      k_current = 0, k_active = True, k_watchdog_miss = 0,
      k_endpoints = ReceiverWaiting 1 0x200040 64 # replicate 11 EpIdle,
      k_kmsg = replicate 128 0, k_irq_routes = replicate 2 \<lparr>ir_receiver = 16, ir_pending = False\<rparr>, k_dma = replicate 4096 0,
      k_ticks = 0, k_delivered = 0, k_ring = replicate 32 (0, 0), k_ring_head = 0, k_service_table = None,
      k_user_tables = replicate 16 [], k_sstatus = 0, k_satp_root = 0x80300000, k_umem = (\<lambda>_ _. 7), k_console = [], k_input = [],
      k_mmio = [], k_timer_ticks = 0, k_timer = None, k_fault_cont = (0, 0)\<rparr>"

lemma sample_task_ok: "caps_ok (t_caps (sample_task n s p r cs)) \<Longrightarrow> task_ok (sample_task n s p r cs)"
  by (simp add: task_ok_def sample_task_def sample_frame_def user_frame_def is_from_user_def)

lemma empty_task_ok: "task_ok EMPTY_TCB"
  by (simp add: task_ok_def EMPTY_TCB_def caps_ok_def user_frame_def is_from_user_def list_all_length)

lemma sample_nth: "i < 16 \<Longrightarrow> k_tasks sample_kernel ! i =
   (if i = 0 then sample_task ''init'' RtRunning 2 0x80300000 [Some (cap_endpoint 0 RIGHT_SEND), Some cap_control]
    else if i = 1 then sample_task ''server'' RtBlocked 5 0x80310000 [Some (cap_endpoint 0 RIGHT_RECV)]
    else if i = 2 then sample_worker else EMPTY_TCB)"
  by (auto simp: sample_kernel_def nth_append nth_Cons' less_Suc_eq numeral_eq_Suc)

lemma sample_fields [simp]:
  "k_current sample_kernel = 0" "k_active sample_kernel" "length (k_tasks sample_kernel) = 16"
  "k_endpoints sample_kernel = ReceiverWaiting 1 0x200040 64 # replicate 11 EpIdle" "k_satp_root sample_kernel = 0x80300000"
  "k_umem sample_kernel = (\<lambda>_ _. 7)" "k_service_table sample_kernel = None" "k_mmio sample_kernel = []"
  "k_watchdog_miss sample_kernel = 0"
  by (simp_all add: sample_kernel_def)

lemma sample_worker_ok: "task_ok sample_worker"
proof -
  have "valid_user_buf 0x200080 2" by (simp add: valid_user_buf_iff)
  moreover have "task_ok (sample_task ''worker'' RtReady 3 0x80320000 [])"
    by (rule sample_task_ok) (simp add: caps_ok_def sample_task_def ax_const list_all_length)
  ultimately show ?thesis by (simp add: sample_worker_def task_ok_def pm_ok_def sample_task_def IPC_MSG_MAX_def)
qed

lemma sample_kinv: "kinv sample_platform sample_kernel sample_frame"
proof -
  have "valid_user_buf 0x200040 64" by (simp add: valid_user_buf_iff)
  then have "eps_ok (k_tasks sample_kernel) (k_endpoints sample_kernel)"
    by (auto simp: eps_ok_def nth_Cons' sample_nth sample_task_def sample_worker_def list_all_length split: if_splits)
  moreover have "shape_ok sample_kernel"
    by (simp add: shape_ok_def sample_kernel_def ax_const sum_clear_def list_all_length MAX_USER_AS_def)
  moreover have "list_all task_ok (k_tasks sample_kernel)"
    by (auto simp: list_all_length sample_nth intro!: sample_task_ok empty_task_ok sample_worker_ok)
      (auto simp: caps_ok_def sample_task_def ax_const list_all_length nth_append nth_Cons' cap_endpoint_def cap_control_def)
  ultimately have "kwf sample_platform sample_kernel" by (simp add: kwf_def services_ok_def)
  moreover have "running_ok sample_kernel"
    by (auto simp: running_ok_def sample_nth sample_task_def sample_worker_def EMPTY_TCB_def)
  ultimately show ?thesis by (simp add: kinv_def user_frame_def sample_frame_def is_from_user_def)
qed

end
