(* ===== verification/Dispatch_Sched.thy ===== *)
theory Dispatch_Sched
  imports Kernel_State
begin

text \<open>
  Scheduling core of the dispatcher (\<open>dispatch.rs\<close>): selection of the next task, the central
  resume path with deferred message delivery, yield and exit, blocking, timer preemption, the
  watchdog, containment of user faults and the notification of supervisor and logger.
\<close>

section \<open>Device table and notifications\<close>

record device_def =
  dd_name :: string
  dd_kind :: string
  dd_mmio_name :: string
  dd_mmio_base :: u64
  dd_mmio_size :: u64
  dd_irq_endpoint :: u32
  dd_irq_name :: string
  dd_dma_name :: string
  dd_dma_size :: u64

definition DEVICES :: "device_def list" where
  "DEVICES =
     [\<lparr>dd_name = ''block0'', dd_kind = ''block_skeleton'', dd_mmio_name = ''virtio_mmio0'',
       dd_mmio_base = 0x10001000, dd_mmio_size = 0x200, dd_irq_endpoint = 8, dd_irq_name = ''driver_irq'',
       dd_dma_name = ''block0_dma'', dd_dma_size = 4096\<rparr>,
      \<lparr>dd_name = ''net0'', dd_kind = ''network_synthetic'', dd_mmio_name = ''none'',
       dd_mmio_base = 0, dd_mmio_size = 0, dd_irq_endpoint = 10, dd_irq_name = ''net_irq'',
       dd_dma_name = ''none'', dd_dma_size = 0\<rparr>]"

definition irq_drop_one :: "nat \<Rightarrow> nat \<Rightarrow> kernel \<Rightarrow> kernel" where
  "irq_drop_one slot i k =
     (let route = irq_route_at k i
      in if ir_receiver route = slot \<and> ir_pending route
         then put_str (line ''IRQ_DROPPED reason=driver_not_ready'')
                (irq_route_set i \<lparr>ir_receiver = ir_receiver route, ir_pending = False\<rparr> k)
         else k)"

definition irq_drop_for_task :: "nat \<Rightarrow> kernel \<Rightarrow> kernel" where
  "irq_drop_for_task slot k = fold (irq_drop_one slot) [0..<length DEVICES] k"

definition event_msg :: "u64 \<Rightarrow> u8 \<Rightarrow> pending_msg" where
  "event_msg dst code = \<lparr>pm_dst = dst, pm_len = 1, pm_data = (replicate IPC_MSG_MAX 0)[0 := code]\<rparr>"

definition notify_endpoint :: "u32 \<Rightarrow> u8 \<Rightarrow> kernel \<Rightarrow> (kernel \<times> nat option) option" where
  "notify_endpoint ep_id code k =
     do {
       e \<leftarrow> ep_get k ep_id;
       case e of
         ReceiverWaiting tid dst cap \<Rightarrow>
           if cap \<ge> 1 \<and> valid_user_buf dst 1 then
             do {
               _ \<leftarrow> task_at k tid;
               let k = set_pending tid (Some (event_msg dst code)) k;
               let k = set_state tid RtReady k;
               Some (ep_set ep_id EpIdle k, Some tid)
             }
           else Some (ep_set ep_id EpIdle k, Some tid)
       | _ \<Rightarrow> Some (k, None)
     }"

definition EP_FAULT :: u32 where "EP_FAULT = 2"
definition EP_EVENT :: u32 where "EP_EVENT = 3"
definition FAULT_CODE_WATCHDOG :: u8 where "FAULT_CODE_WATCHDOG = 4"

definition notify_supervisor_and_logger :: "string \<Rightarrow> kernel \<Rightarrow> kernel option" where
  "notify_supervisor_and_logger faulted_name k =
     do {
       (k, r) \<leftarrow> notify_endpoint EP_FAULT FAULT_CODE_WATCHDOG k;
       let k = (if r \<noteq> None then emit ''IPC delivered fault_event to=supervisor_task from='' faulted_name k else k);
       (k, r) \<leftarrow> notify_endpoint EP_EVENT FAULT_CODE_WATCHDOG k;
       Some (if r \<noteq> None then put_strs [''LOGGER event=TASK_FAULTED task='', faulted_name, nl] k else k)
     }"

section \<open>Selection and resumption\<close>

definition select_step :: "tcb list \<Rightarrow> nat \<Rightarrow> nat option \<Rightarrow> nat \<Rightarrow> nat option" where
  "select_step tasks cur best st =
     (let idx = (cur + st) mod MAX_TASKS
      in if t_state (tasks ! idx) \<noteq> RtReady then best
         else case best of
           None \<Rightarrow> Some idx
         | Some b \<Rightarrow> if t_prio (tasks ! idx) > t_prio (tasks ! b) then Some idx else best)"

definition select_highest :: "kernel \<Rightarrow> nat \<Rightarrow> nat option" where
  "select_highest k cur = foldl (select_step (k_tasks k) cur) None [1..<MAX_TASKS + 1]"

definition resume_task :: "nat \<Rightarrow> kernel \<Rightarrow> (kernel \<times> trap_frame) option" where
  "resume_task nxt k =
     do {
       t \<leftarrow> task_at k nxt;
       let k = set_state nxt RtRunning k;
       let k = k\<lparr>k_current := nxt, k_watchdog_miss := 0\<rparr>;
       let k = switch_to_user_space (t_satp_root t) k;
       let frame = t_frame t;
       case t_pending_ipc t of
         None \<Rightarrow> Some (k, frame)
       | Some pm \<Rightarrow>
           if pm_len pm > length (pm_data pm) then None
           else
             let k = set_pending nxt None k;
                 k = k\<lparr>k_delivered := k_delivered k + 1\<rparr>;
                 k = copy_bytes_to_user (pm_dst pm) (take (pm_len pm) (pm_data pm)) k;
                 frame = set_a0 frame (of_nat (pm_len pm));
                 k = put_str nl (put_dec (of_nat (pm_len pm)) (put_str ''IPC delivered bytes='' k))
             in Some (k, frame)
     }"

text \<open>Selecting a successor and resuming it, or stopping when no task is ready; the shared tail
  of the fault, kill and blocking paths.\<close>

definition schedule_next :: "nat \<Rightarrow> string list \<Rightarrow> 'a \<Rightarrow> kernel \<Rightarrow> 'a outcome option" where
  "schedule_next cur idle_lines r k =
     (case select_highest k cur of
        Some nxt \<Rightarrow>
          do {
            n \<leftarrow> task_at k nxt;
            (k, frame) \<leftarrow> resume_task nxt (emit ''SCHED selected='' (t_name n) k);
            Some (Ret k frame r)
          }
      | None \<Rightarrow> Some (Halt (put_strs idle_lines k)))"

definition idle_lines :: "string list" where
  "idle_lines = [line ''SCHED idle=all_tasks_done'', line ''KERNEL alive=true'',
     line ''phase=multitask-demo-complete'']"

definition idle_halt :: "kernel \<Rightarrow> 'a outcome" where
  "idle_halt k = Halt (put_strs idle_lines k)"

definition start_dispatch :: "kernel \<Rightarrow> (kernel \<times> u64 \<times> u64) option" where
  "start_dispatch k =
     do {
       let k = k\<lparr>k_active := True\<rparr>;
       t \<leftarrow> task_at k 0;
       let k = (set_state 0 RtRunning k)\<lparr>k_current := 0\<rparr>;
       Some (switch_to_user_space (t_satp_root t) k, tf_sepc (t_frame t), tf_regs (t_frame t) ! 1)
     }"

section \<open>Scheduling decisions\<close>

definition switch_task :: "platform \<Rightarrow> bool \<Rightarrow> kernel \<Rightarrow> trap_frame \<Rightarrow> unit outcome option" where
  "switch_task pl exiting k frame =
     do {
       let cur = k_current k;
       t \<leftarrow> task_at k cur;
       let quiet = (pl_os_boot pl \<and> \<not> exiting);
       let k = (if exiting then
                  let k = emit ''SYSCALL name=sys_exit task='' (t_name t) k;
                      k = set_state cur RtKilled k;
                      k = emit ''TASK_EXITED task='' (t_name t) k
                  in ring_push EV_EXITED cur k
                else set_state cur RtReady (set_frame cur frame k));
       case select_highest k cur of
         Some nxt \<Rightarrow>
           do {
             n \<leftarrow> task_at k nxt;
             let k = (if \<not> (quiet \<and> nxt = cur) then
                        let k = (if \<not> exiting then emit ''SYSCALL name=sys_yield task='' (t_name t) k else k)
                        in emit ''SCHED selected='' (t_name n) k
                      else k);
             (k, frame) \<leftarrow> resume_task nxt k;
             Some (Ret k frame ())
           }
       | None \<Rightarrow> Some (idle_halt k)
     }"

definition block_and_switch :: "kernel \<Rightarrow> trap_frame \<Rightarrow> unit outcome option" where
  "block_and_switch k frame =
     do {
       let cur = k_current k;
       _ \<leftarrow> task_at k cur;
       let k = set_state cur RtBlocked (set_frame cur frame k);
       schedule_next cur [line ''SCHED idle=all_blocked'', line ''KERNEL alive=true''] () k
     }"

definition preempt :: "kernel \<Rightarrow> trap_frame \<Rightarrow> unit outcome option" where
  "preempt k frame =
     (if \<not> k_active k then Some (Ret k frame ())
      else let cur = k_current k
      in case select_highest k cur of
           None \<Rightarrow> Some (Ret k frame ())
         | Some nxt \<Rightarrow>
           do {
             n \<leftarrow> task_at k nxt;
             if nxt = cur then Some (Ret k frame ())
             else do {
               t \<leftarrow> task_at k cur;
               if t_prio n \<le> t_prio t then Some (Ret k frame ())
               else do {
                 let k = put_strs [''SCHED preempt='', t_name t, '' selected='', t_name n, nl] k;
                 let k = set_state cur RtReady (set_frame cur frame k);
                 (k, frame) \<leftarrow> resume_task nxt k;
                 Some (Ret k frame ())
               }
             }
           })"

definition no_ready_lines :: "string list" where
  "no_ready_lines = [line ''SCHED idle=no_ready_task'', line ''KERNEL alive=true'']"

definition watchdog_tick :: "kernel \<Rightarrow> trap_frame \<Rightarrow> bool outcome option" where
  "watchdog_tick k frame =
     (if \<not> k_active k then Some (Ret k frame False)
      else do {
        let k = k\<lparr>k_ticks := k_ticks k + 1\<rparr>;
        let misses = k_watchdog_miss k + 1;
        let k = k\<lparr>k_watchdog_miss := k_watchdog_miss k + 1\<rparr>;
        if misses \<le> WATCHDOG_WINDOW then Some (Ret k frame False)
        else do {
          let cur = k_current k;
          t \<leftarrow> task_at k cur;
          let k = ring_push EV_FAULT cur k;
          let k = emit ''FAULT type=WatchdogTimeout task='' (t_name t) k;
          let k = put_str (line ''CONTAIN scope=user reason=watchdog_timeout action=faulted kernel=alive'') k;
          let k = set_state cur RtFaulted k;
          let k = irq_drop_for_task cur k;
          k \<leftarrow> notify_supervisor_and_logger (t_name t) k;
          schedule_next cur no_ready_lines True k
        }
      })"

definition contain_fault :: "string \<Rightarrow> kernel \<Rightarrow> trap_frame \<Rightarrow> bool outcome option" where
  "contain_fault reason k frame =
     (if \<not> k_active k then Some (Ret k frame False)
      else do {
        let cur = k_current k;
        t \<leftarrow> task_at k cur;
        let k = ring_push EV_FAULT cur k;
        let k = emit ''FAULT type=PageFault task='' (t_name t) k;
        let k = put_strs [''CONTAIN scope=user reason='', reason, line '' action=faulted kernel=alive''] k;
        let k = set_state cur RtFaulted k;
        let k = irq_drop_for_task cur k;
        k \<leftarrow> notify_supervisor_and_logger (t_name t) k;
        schedule_next cur no_ready_lines True k
      })"

section \<open>Selection\<close>

text \<open>What the selection loop has established when it has visited the steps in \<open>S\<close>.\<close>

definition best_in :: "tcb list \<Rightarrow> nat \<Rightarrow> nat set \<Rightarrow> nat option \<Rightarrow> bool" where
  "best_in ts cur S best \<longleftrightarrow>
     (case best of
        None \<Rightarrow> \<forall>s\<in>S. t_state (ts ! ((cur + s) mod MAX_TASKS)) \<noteq> RtReady
      | Some b \<Rightarrow> \<exists>s\<in>S. b = (cur + s) mod MAX_TASKS \<and> t_state (ts ! b) = RtReady
          \<and> (\<forall>r\<in>S. t_state (ts ! ((cur + r) mod MAX_TASKS)) = RtReady \<longrightarrow>
                t_prio (ts ! ((cur + r) mod MAX_TASKS)) \<le> t_prio (ts ! b)
                \<and> (r < s \<longrightarrow> t_prio (ts ! ((cur + r) mod MAX_TASKS)) < t_prio (ts ! b))))"

lemma best_in_step:
  assumes best: "best_in ts cur S best" and x: "\<forall>r\<in>S. r < x"
  shows "best_in ts cur (insert x S) (select_step ts cur best x)"
proof (cases "t_state (ts ! ((cur + x) mod MAX_TASKS)) = RtReady")
  case False
  then have "select_step ts cur best x = best" by (simp add: select_step_def Let_def)
  with best False show ?thesis by (cases best) (auto simp: best_in_def)
next
  case True
  let ?i = "(cur + x) mod MAX_TASKS"
  show ?thesis
  proof (cases best)
    case None
    then show ?thesis using best True by (auto simp: best_in_def select_step_def Let_def)
  next
    case (Some b)
    obtain s where s: "s \<in> S" "b = (cur + s) mod MAX_TASKS" "t_state (ts ! b) = RtReady"
      and top: "\<And>r. r \<in> S \<Longrightarrow> t_state (ts ! ((cur + r) mod MAX_TASKS)) = RtReady \<Longrightarrow>
              t_prio (ts ! ((cur + r) mod MAX_TASKS)) \<le> t_prio (ts ! b)
              \<and> (r < s \<longrightarrow> t_prio (ts ! ((cur + r) mod MAX_TASKS)) < t_prio (ts ! b))"
      using best Some by (auto simp: best_in_def)
    show ?thesis
    proof (cases "t_prio (ts ! ?i) > t_prio (ts ! b)")
      case above: True
      then have "select_step ts cur best x = Some ?i" using True Some by (simp add: select_step_def)
      moreover have "t_prio (ts ! ((cur + r) mod MAX_TASKS)) < t_prio (ts ! ?i)"
        if "r \<in> S" "t_state (ts ! ((cur + r) mod MAX_TASKS)) = RtReady" for r
        using top [OF that] above by (meson le_less_trans)
      ultimately show ?thesis
        using True unfolding best_in_def by (auto intro!: bexI [of _ x] less_imp_le)
    next
      case below: False
      then have "select_step ts cur best x = Some b" using True Some by (simp add: select_step_def)
      moreover have "\<not> x < s" using x s(1) by (meson not_less_iff_gr_or_eq)
      ultimately show ?thesis
        using s top below unfolding best_in_def by (auto intro!: bexI [of _ s] simp: not_less)
    qed
  qed
qed

lemma select_highest_best: "best_in (k_tasks k) cur {1..MAX_TASKS} (select_highest k cur)"
proof -
  have "best_in (k_tasks k) cur {1..n} (foldl (select_step (k_tasks k) cur) None [1..<n + 1])" for n
  proof (induction n)
    case 0
    then show ?case by (simp add: best_in_def)
  next
    case (Suc n)
    have "{1..Suc n} = insert (Suc n) {1..n}" by auto
    then show ?case using best_in_step [OF Suc, of "Suc n"] by simp
  qed
  then show ?thesis by (simp add: select_highest_def)
qed

text \<open>Every slot is one of the steps of the loop.\<close>

lemma step_of_slot:
  assumes "cur < MAX_TASKS" "i < MAX_TASKS"
  shows "\<exists>s\<in>{1..MAX_TASKS}. i = (cur + s) mod MAX_TASKS"
proof (cases "cur < i")
  case True
  then show ?thesis using assms by (intro bexI [of _ "i - cur"]) auto
next
  case False
  then show ?thesis using assms by (intro bexI [of _ "MAX_TASKS + i - cur"]) auto
qed

lemma select_highest_None:
  "cur < MAX_TASKS \<Longrightarrow> select_highest k cur = None \<Longrightarrow> i < MAX_TASKS \<Longrightarrow> t_state (k_tasks k ! i) \<noteq> RtReady"
  using select_highest_best [of k cur] step_of_slot [of cur i] by (auto simp: best_in_def)

lemma select_highest_Some:
  "select_highest k cur = Some b \<Longrightarrow> b < MAX_TASKS \<and> t_state (k_tasks k ! b) = RtReady"
  using select_highest_best [of k cur] by (auto simp: best_in_def MAX_TASKS_def)

lemma select_highest_cong: "k_tasks k' = k_tasks k \<Longrightarrow> select_highest k' cur = select_highest k cur"
  by (simp add: select_highest_def)

section \<open>Resumption\<close>

lemma shape_ok_current: "shape_ok k \<Longrightarrow> i < MAX_TASKS \<Longrightarrow> shape_ok (k\<lparr>k_current := i\<rparr>)"
  by (simp add: shape_ok_def sum_clear_def)

definition resumed :: "nat \<Rightarrow> kernel \<Rightarrow> kernel" where
  "resumed nxt k =
     (let t = k_tasks k ! nxt; root = t_satp_root t
      in (upd_task nxt (\<lambda>t. t\<lparr>t_state := RtRunning, t_pending_ipc := None\<rparr>) k)
           \<lparr>k_current := nxt, k_watchdog_miss := 0, k_satp_root := root,
            k_delivered := (case t_pending_ipc t of None \<Rightarrow> k_delivered k | Some _ \<Rightarrow> k_delivered k + 1),
            k_umem := (case t_pending_ipc t of None \<Rightarrow> k_umem k
               | Some pm \<Rightarrow> (k_umem k)(root := upd_bytes (pm_dst pm) (take (pm_len pm) (pm_data pm)) (k_umem k root)))\<rparr>)"

definition resumed_frame :: "tcb \<Rightarrow> trap_frame" where
  "resumed_frame t = (case t_pending_ipc t of None \<Rightarrow> t_frame t | Some pm \<Rightarrow> set_a0 (t_frame t) (of_nat (pm_len pm)))"

lemma resume_task_eq:
  assumes "kwf pl k" "nxt < MAX_TASKS"
  shows "\<exists>c. resume_task nxt k = Some ((resumed nxt k)\<lparr>k_console := c\<rparr>, resumed_frame (k_tasks k ! nxt))"
proof -
  let ?t = "k_tasks k ! nxt"
  have at: "task_at k nxt = Some ?t" and len: "nxt < length (k_tasks k)" and sum: "sum_clear k"
    using task_at_Some [OF wf_shape [OF assms(1)] assms(2)] wf_lengths [OF assms(1)] assms(2) by simp_all
  show ?thesis
  proof (cases "t_pending_ipc ?t")
    case None
    then have eq: "?t\<lparr>t_state := RtRunning, t_pending_ipc := None\<rparr> = ?t\<lparr>t_state := RtRunning\<rparr>" by simp
    show ?thesis using None at
      by (intro exI [of _ "k_console k"])
        (simp add: eq resume_task_def resumed_def resumed_frame_def switch_to_user_space_def upd_task_def Let_def)
  next
    case (Some pm)
    have "pm_len pm \<le> length (pm_data pm)"
      using wf_task_ok [OF assms] Some by (simp add: task_ok_def pm_ok_def valid_user_buf_def)
    then show ?thesis using Some at len sum
      by (intro exI [of _ "k_console k @ crlf ''IPC delivered bytes='' @ dec_text (of_nat (pm_len pm)) @ crlf nl"])
        (simp add: resume_task_def resumed_def resumed_frame_def switch_to_user_space_def upd_task_def Let_def
          copy_bytes_to_user_mem sum_clear_def console_simps)
  qed
qed

lemma resumed_fields [simp]:
  "k_endpoints (resumed nxt k) = k_endpoints k" "k_kmsg (resumed nxt k) = k_kmsg k" "k_current (resumed nxt k) = nxt"
  "k_irq_routes (resumed nxt k) = k_irq_routes k" "k_sstatus (resumed nxt k) = k_sstatus k" "k_active (resumed nxt k) = k_active k"
  "k_satp_root (resumed nxt k) = t_satp_root (k_tasks k ! nxt)"
  "k_tasks (resumed nxt k) = (k_tasks k)[nxt := (k_tasks k ! nxt)\<lparr>t_state := RtRunning, t_pending_ipc := None\<rparr>]"
  by (simp_all add: resumed_def Let_def)

lemma resumed_kinv:
  assumes "kwf pl k" "idle_ok k" "k_active k" "nxt < MAX_TASKS" "t_state (k_tasks k ! nxt) = RtReady"
  shows "kinv pl (resumed nxt k) (resumed_frame (k_tasks k ! nxt))"
proof -
  let ?t = "k_tasks k ! nxt" and ?t' = "(k_tasks k ! nxt)\<lparr>t_state := RtRunning, t_pending_ipc := None\<rparr>"
  have tok: "task_ok ?t" using wf_task_ok [OF assms(1,4)] .
  have len: "length (k_tasks k) = MAX_TASKS" using wf_lengths [OF assms(1)] by simp
  have "kwf pl (upd_task nxt (\<lambda>t. t\<lparr>t_state := RtRunning, t_pending_ipc := None\<rparr>) k)"
  proof (rule wf_change [OF assms(1,4)])
    show "eps_ok ((k_tasks k)[nxt := ?t']) (k_endpoints (upd_task nxt (\<lambda>t. t\<lparr>t_state := RtRunning, t_pending_ipc := None\<rparr>) k))"
      using assms(1,5) by (simp add: kwf_def eps_ok_not_blocked)
  qed (use tok in \<open>simp_all add: task_ok_def upd_task_def\<close>)
  then have "kwf pl (resumed nxt k)"
    using assms(4) by (simp add: kwf_def shape_ok_def services_ok_def sum_clear_def resumed_def Let_def)
  moreover have "running_ok (resumed nxt k)"
    using assms(2,4) len by (auto simp: running_ok_def idle_ok_def nth_list_update)
  moreover have "user_frame (resumed_frame ?t)"
    using tok by (simp add: resumed_frame_def task_ok_def split: option.splits)
  ultimately show ?thesis using assms(3) by (simp add: kinv_def)
qed

lemma resumed_mem_confined:
  assumes "kwf pl k" "nxt < MAX_TASKS"
  shows "mem_confined k (resumed nxt k)"
proof (cases "t_pending_ipc (k_tasks k ! nxt)")
  case None
  then show ?thesis by (intro mem_confined_same) (simp add: resumed_def Let_def)
next
  case (Some pm)
  then have "pm_ok pm" using wf_task_ok [OF assms] by (simp add: task_ok_def)
  then show ?thesis using Some
    by (intro mem_confined_upd_bytes [of "pm_dst pm" "take (pm_len pm) (pm_data pm)" _ _ "t_satp_root (k_tasks k ! nxt)"])
      (auto simp: pm_ok_def valid_user_buf_iff resumed_def Let_def)
qed

lemma resume_task_step:
  assumes "kwf pl k" "idle_ok k" "k_active k" "nxt < MAX_TASKS" "t_state (k_tasks k ! nxt) = RtReady"
  shows "\<exists>k' f. resume_task nxt k = Some (k', f) \<and> step_ok pl k k' f"
proof -
  obtain c where "resume_task nxt k = Some ((resumed nxt k)\<lparr>k_console := c\<rparr>, resumed_frame (k_tasks k ! nxt))"
    using resume_task_eq [OF assms(1,4)] by blast
  moreover have "mem_confined k ((resumed nxt k)\<lparr>k_console := c\<rparr>)"
    using resumed_mem_confined [OF assms(1,4)] by (simp add: mem_confined_def)
  ultimately show ?thesis using resumed_kinv [OF assms] by (simp add: step_ok_def)
qed

lemma schedule_next_step:
  assumes "kwf pl k" "idle_ok k" "k_active k" "cur < MAX_TASKS"
  shows "returns (\<lambda>k' f' x. step_ok pl k k' f' \<and> x = r) (schedule_next cur lines r k)"
proof (cases "select_highest k cur")
  case None
  then show ?thesis by (simp add: schedule_next_def)
next
  case (Some nxt)
  note S = select_highest_Some [OF Some]
  let ?k = "emit ''SCHED selected='' (t_name (k_tasks k ! nxt)) k"
  obtain k' f where "resume_task nxt ?k = Some (k', f)" "step_ok pl ?k k' f"
    using resume_task_step [of pl ?k nxt] assms S by (auto simp: emit_console)
  moreover from this have "step_ok pl k k' f" by (elim step_ok_from) (simp_all add: emit_console)
  ultimately show ?thesis
    using Some task_at_Some [OF wf_shape [OF assms(1)]] S by (simp add: schedule_next_def)
qed

section \<open>Notifications\<close>

definition dropped_route :: "nat \<Rightarrow> irq_route \<Rightarrow> irq_route" where
  "dropped_route slot r = (if ir_receiver r = slot then r\<lparr>ir_pending := False\<rparr> else r)"

lemma irq_drop_one_eq:
  "i < length (k_irq_routes k) \<Longrightarrow>
     \<exists>c. irq_drop_one slot i k = k\<lparr>k_irq_routes := (k_irq_routes k)[i := dropped_route slot (k_irq_routes k ! i)], k_console := c\<rparr>"
proof -
  assume i: "i < length (k_irq_routes k)"
  show ?thesis
  proof (cases "ir_receiver (k_irq_routes k ! i) = slot \<and> ir_pending (k_irq_routes k ! i)")
    case True
    then have "dropped_route slot (k_irq_routes k ! i) = \<lparr>ir_receiver = ir_receiver (k_irq_routes k ! i), ir_pending = False\<rparr>"
      by (simp add: dropped_route_def)
    with True show ?thesis
      by (intro exI [of _ "k_console k @ crlf (line ''IRQ_DROPPED reason=driver_not_ready'')"])
        (simp add: irq_drop_one_def irq_route_at_def irq_route_set_def put_str_console Let_def)
  next
    case False
    then have "dropped_route slot (k_irq_routes k ! i) = k_irq_routes k ! i"
      by (auto simp: dropped_route_def)
    with False show ?thesis
      by (intro exI [of _ "k_console k"]) (auto simp: irq_drop_one_def irq_route_at_def Let_def)
  qed
qed

lemma irq_drop_eq:
  assumes "length (k_irq_routes k) = 2"
  shows "\<exists>c. irq_drop_for_task slot k = k\<lparr>k_irq_routes := map (dropped_route slot) (k_irq_routes k), k_console := c\<rparr>"
proof -
  obtain a b where ab: "k_irq_routes k = [a, b]" using assms by (auto simp: length_Suc_conv numeral_2_eq_2)
  have two: "[0..<length DEVICES] = [0, 1]" by (simp add: DEVICES_def upt_rec)
  obtain c1 where 1: "irq_drop_one slot 0 k = k\<lparr>k_irq_routes := [dropped_route slot a, b], k_console := c1\<rparr>"
    using irq_drop_one_eq [of 0 k slot] by (auto simp: ab)
  obtain c2 where "irq_drop_one slot 1 (k\<lparr>k_irq_routes := [dropped_route slot a, b], k_console := c1\<rparr>)
      = k\<lparr>k_irq_routes := [dropped_route slot a, dropped_route slot b], k_console := c2\<rparr>"
    using irq_drop_one_eq [of 1 "k\<lparr>k_irq_routes := [dropped_route slot a, b], k_console := c1\<rparr>" slot] by auto
  then show ?thesis by (intro exI [of _ c2]) (simp add: irq_drop_for_task_def two ab 1)
qed

text \<open>What a notification may do to a task: nothing, or wake it from a wait with a pending event.\<close>

definition woken :: "tcb \<Rightarrow> tcb \<Rightarrow> bool" where
  "woken t t' \<longleftrightarrow> t' = t \<or> t_state t = RtBlocked \<and> (\<exists>pm. t' = t\<lparr>t_pending_ipc := Some pm, t_state := RtReady\<rparr>)"

lemma woken_trans_ready: "woken t t' \<Longrightarrow> woken t' t'' \<Longrightarrow> woken t t''"
  by (auto simp: woken_def)

definition tasks_woken :: "kernel \<Rightarrow> kernel \<Rightarrow> bool" where
  "tasks_woken k k' \<longleftrightarrow> list_all2 woken (k_tasks k) (k_tasks k')
     \<and> k_current k' = k_current k \<and> k_active k' = k_active k \<and> k_satp_root k' = k_satp_root k \<and> k_umem k' = k_umem k
     \<and> k_kmsg k' = k_kmsg k \<and> k_irq_routes k' = k_irq_routes k \<and> k_dma k' = k_dma k \<and> k_ring k' = k_ring k
     \<and> k_mmio k' = k_mmio k \<and> k_input k' = k_input k \<and> k_sstatus k' = k_sstatus k"

lemma event_msg_ok: "valid_user_buf dst 1 \<Longrightarrow> pm_ok (event_msg dst c)"
  by (simp add: pm_ok_def event_msg_def)

lemma tasks_woken_refl: "k_tasks k' = k_tasks k \<Longrightarrow> list_all2 woken (k_tasks k) (k_tasks k')"
  by (simp add: list_all2_conv_all_nth woken_def)

lemma notify_endpoint_ok:
  assumes "kwf pl k" "unat e < NUM_ENDPOINTS"
  shows "\<exists>k' r. notify_endpoint e code k = Some (k', r) \<and> kwf pl k' \<and> tasks_woken k k'"
proof -
  have len: "unat e < length (k_endpoints k)" using wf_lengths [OF assms(1)] assms(2) by simp
  have eps: "eps_ok (k_tasks k) (k_endpoints k)" using assms(1) by (simp add: kwf_def)
  have get: "ep_get k e = Some (k_endpoints k ! unat e)" using ep_get_Some [OF wf_shape [OF assms(1)] assms(2)] .
  show ?thesis
  proof (cases "k_endpoints k ! unat e")
    case (ReceiverWaiting tid dst cap)
    have w: "tid < MAX_TASKS" "t_state (k_tasks k ! tid) = RtBlocked"
      using eps_ok_waiter [OF eps len] ReceiverWaiting wf_lengths [OF assms(1)] by simp_all
    have at: "task_at k tid = Some (k_tasks k ! tid)" using task_at_Some [OF wf_shape [OF assms(1)] w(1)] .
    show ?thesis
    proof (cases "cap \<ge> 1 \<and> valid_user_buf dst 1")
      case True
      let ?t = "(k_tasks k ! tid)\<lparr>t_pending_ipc := Some (event_msg dst code), t_state := RtReady\<rparr>"
      let ?k' = "ep_set e EpIdle (set_state tid RtReady (set_pending tid (Some (event_msg dst code)) k))"
      have tid: "tid < length (k_tasks k)" using w(1) wf_lengths [OF assms(1)] by simp
      have ts: "k_tasks ?k' = (k_tasks k)[tid := ?t]"
        using tid by (simp add: ep_set_def)
      have "kwf pl ?k'"
      proof (rule wf_change [OF assms(1) w(1) ts])
        show "task_ok ?t" using wf_task_ok [OF assms(1) w(1)] True by (simp add: task_ok_def event_msg_ok)
        show "eps_ok ((k_tasks k)[tid := ?t]) (k_endpoints ?k')"
          using eps_ok_wake [OF eps len, of tid ?t] ReceiverWaiting by (simp add: ep_set_def)
      qed (simp_all add: ep_set_def upd_task_def)
      moreover have "tasks_woken k ?k'"
        unfolding tasks_woken_def ts using w(2) tid
        by (auto simp: list_all2_conv_all_nth nth_list_update woken_def ep_set_def upd_task_def)
      ultimately show ?thesis
        using True get at ReceiverWaiting by (simp add: notify_endpoint_def)
    next
      case False
      let ?k' = "ep_set e EpIdle k"
      have "kwf pl ?k'"
        by (rule wf_change [OF assms(1) w(1), of _ "k_tasks k ! tid"])
          (use eps_ok_idle [OF eps len] wf_task_ok [OF assms(1) w(1)] in \<open>simp_all add: ep_set_def\<close>)
      moreover have "tasks_woken k ?k'" by (simp add: tasks_woken_def tasks_woken_refl ep_set_def)
      ultimately show ?thesis
        using False get ReceiverWaiting by (auto simp: notify_endpoint_def)
    qed
  qed (use get assms(1) in \<open>simp_all add: notify_endpoint_def tasks_woken_def tasks_woken_refl\<close>)
qed

lemma list_all2_woken_trans:
  "list_all2 woken xs ys \<Longrightarrow> list_all2 woken ys zs \<Longrightarrow> list_all2 woken xs zs"
  by (rule list_all2_trans [of woken woken woken]) (auto intro: woken_trans_ready)

lemma tasks_woken_trans: "tasks_woken k k' \<Longrightarrow> tasks_woken k' k'' \<Longrightarrow> tasks_woken k k''"
  unfolding tasks_woken_def using list_all2_woken_trans by metis

lemma tasks_woken_console [simp]:
  "tasks_woken k (k'\<lparr>k_console := c\<rparr>) = tasks_woken k k'" "tasks_woken (k\<lparr>k_console := c\<rparr>) k' = tasks_woken k k'"
  by (simp_all add: tasks_woken_def)

lemma notify_supervisor_and_logger_ok:
  assumes "kwf pl k"
  shows "\<exists>k'. notify_supervisor_and_logger name k = Some k' \<and> kwf pl k' \<and> tasks_woken k k'"
proof -
  obtain k1 r1 where 1: "notify_endpoint EP_FAULT FAULT_CODE_WATCHDOG k = Some (k1, r1)" "kwf pl k1" "tasks_woken k k1"
    using notify_endpoint_ok [OF assms, of EP_FAULT FAULT_CODE_WATCHDOG] by (auto simp: EP_FAULT_def NUM_ENDPOINTS_def)
  let ?k1 = "if r1 \<noteq> None then emit ''IPC delivered fault_event to=supervisor_task from='' name k1 else k1"
  have k1: "kwf pl ?k1" "tasks_woken k ?k1" using 1 by (simp_all add: emit_console)
  obtain k2 r2 where 2: "notify_endpoint EP_EVENT FAULT_CODE_WATCHDOG ?k1 = Some (k2, r2)" "kwf pl k2" "tasks_woken ?k1 k2"
    using notify_endpoint_ok [OF k1(1), of EP_EVENT FAULT_CODE_WATCHDOG] by (auto simp: EP_EVENT_def NUM_ENDPOINTS_def)
  have "tasks_woken k k2" using tasks_woken_trans [OF k1(2) 2(3)] .
  then show ?thesis using 1 2 by (simp add: notify_supervisor_and_logger_def Let_def put_strs_console)
qed

lemma tasks_woken_idle:
  assumes "tasks_woken k k'" "idle_ok k"
  shows "idle_ok k'"
proof -
  have "t_state (k_tasks k' ! i) \<noteq> RtRunning" if "i < length (k_tasks k')" for i
  proof -
    have "i < length (k_tasks k)" "woken (k_tasks k ! i) (k_tasks k' ! i)"
      using assms(1) that by (auto simp: tasks_woken_def list_all2_conv_all_nth)
    then show ?thesis using assms(2) by (auto simp: idle_ok_def woken_def)
  qed
  then show ?thesis by (simp add: idle_ok_def)
qed

section \<open>Every scheduling decision keeps the invariant\<close>

lemma kinvD:
  assumes "kinv pl k f"
  shows "kwf pl k" "running_ok k" "k_active k" "user_frame f" "k_current k < MAX_TASKS"
    "task_at k (k_current k) = Some (k_tasks k ! k_current k)" "t_state (k_tasks k ! k_current k) = RtRunning"
    "length (k_tasks k) = MAX_TASKS" "task_ok (k_tasks k ! k_current k)" "shape_ok k" "sum_clear k"
    "length (k_irq_routes k) = 2"
proof -
  show wf: "kwf pl k" and run: "running_ok k" and "k_active k" "user_frame f" using assms by (simp_all add: kinv_def)
  note L = wf_lengths [OF wf]
  show cur: "k_current k < MAX_TASKS" and len: "length (k_tasks k) = MAX_TASKS" "sum_clear k" "length (k_irq_routes k) = 2"
    using L by simp_all
  show "shape_ok k" by (rule wf_shape [OF wf])
  show "task_at k (k_current k) = Some (k_tasks k ! k_current k)" by (rule task_at_Some [OF wf_shape [OF wf] cur])
  show "t_state (k_tasks k ! k_current k) = RtRunning" using run cur len by (simp add: running_ok_def)
  show "task_ok (k_tasks k ! k_current k)" by (rule wf_task_ok [OF wf cur])
qed

text \<open>The running task is taken off the processor: its new control block is not running and it
  waits nowhere.\<close>

lemma leave_current:
  assumes "kinv pl k f" "task_ok (g (k_tasks k ! k_current k))"
    and "t_state (g (k_tasks k ! k_current k)) \<notin> {RtRunning, RtEmpty}"
  shows "kwf pl (upd_task (k_current k) g k) \<and> idle_ok (upd_task (k_current k) g k)"
proof -
  note K = kinvD [OF assms(1)]
  have "kwf pl (upd_task (k_current k) g k)"
  proof (rule wf_change [OF K(1,5)])
    show "eps_ok ((k_tasks k)[k_current k := g (k_tasks k ! k_current k)]) (k_endpoints (upd_task (k_current k) g k))"
      using K(1,7) by (simp add: kwf_def eps_ok_not_blocked)
  qed (use assms in \<open>simp_all add: upd_task_def\<close>)
  moreover have "idle_ok (upd_task (k_current k) g k)"
    using idle_ok_upd_task [OF K(2)] assms(3) by simp
  ultimately show ?thesis by simp
qed

lemma current_no_pending: "kinv pl k f \<Longrightarrow> t_pending_ipc (k_tasks k ! k_current k) = None"
  using kinvD(7,9) [of pl k f] by (auto simp: task_ok_def split: option.splits)

lemma block_and_switch_step:
  assumes "kwf pl (set_state cur RtBlocked (set_frame cur f k))" "idle_ok (set_state cur RtBlocked (set_frame cur f k))"
    and "k_active k" "cur < MAX_TASKS" "k_current k = cur" "length (k_tasks k) = MAX_TASKS"
  shows "returns (\<lambda>k' f' _. step_ok pl k k' f') (block_and_switch k f)"
proof -
  have "returns (\<lambda>k' f' _. step_ok pl (set_state cur RtBlocked (set_frame cur f k)) k' f') (block_and_switch k f)"
    using schedule_next_step [OF assms(1,2), where cur = cur and r = "()"
        and lines = "[line ''SCHED idle=all_blocked'', line ''KERNEL alive=true'']"] assms(3-6)
    by (simp add: block_and_switch_def task_at_def Let_def)
  then show ?thesis by (rule returns_from) simp_all
qed

lemma switch_task_step:
  assumes "kinv pl k f"
  shows "returns (\<lambda>k' f' _. step_ok pl k k' f') (switch_task pl exiting k f)"
proof -
  note K = kinvD [OF assms]
  let ?cur = "k_current k" and ?t = "k_tasks k ! k_current k"
  define k1 where "k1 = (if exiting then
      ring_push EV_EXITED ?cur (emit ''TASK_EXITED task='' (t_name ?t) (set_state ?cur RtKilled
        (emit ''SYSCALL name=sys_exit task='' (t_name ?t) k)))
    else set_state ?cur RtReady (set_frame ?cur f k))"
  have k1: "kwf pl k1 \<and> idle_ok k1 \<and> k_active k1"
  proof (cases exiting)
    case True
    let ?k0 = "emit ''SYSCALL name=sys_exit task='' (t_name ?t) k"
    have "kinv pl ?k0 f" using assms by (simp add: emit_console)
    then have "kwf pl (set_state ?cur RtKilled ?k0) \<and> idle_ok (set_state ?cur RtKilled ?k0)"
      using leave_current [of pl ?k0 f "\<lambda>t. t\<lparr>t_state := RtKilled\<rparr>"] K(9) current_no_pending [OF assms]
      by (simp add: task_ok_def emit_console)
    then show ?thesis using True K(3,5)
      by (simp add: k1_def emit_console [of "''TASK_EXITED task=''"] wf_ring_push idle_ok_def) (simp add: emit_console)
  next
    case False
    have "kwf pl (upd_task ?cur (\<lambda>t. t\<lparr>t_frame := f, t_state := RtReady\<rparr>) k)
        \<and> idle_ok (upd_task ?cur (\<lambda>t. t\<lparr>t_frame := f, t_state := RtReady\<rparr>) k)"
      using K(4,9) current_no_pending [OF assms] by (intro leave_current [OF assms]) (simp_all add: task_ok_def)
    then show ?thesis using False K(3,5,8) by (simp add: k1_def upd_task_twice)
  qed
  define k2 where "k2 nxt = (if \<not> ((pl_os_boot pl \<and> \<not> exiting) \<and> nxt = ?cur)
      then emit ''SCHED selected='' (t_name (k_tasks k1 ! nxt)) (if \<not> exiting then emit ''SYSCALL name=sys_yield task='' (t_name ?t) k1 else k1)
      else k1)" for nxt
  show ?thesis
  proof (cases "select_highest k1 ?cur")
    case None
    then have "switch_task pl exiting k f = Some (idle_halt k1)"
      using K(6) unfolding switch_task_def k1_def Let_def by simp
    then show ?thesis by (simp add: idle_halt_def)
  next
    case (Some nxt)
    note S = select_highest_Some [OF Some]
    have at: "task_at k1 nxt = Some (k_tasks k1 ! nxt)" using task_at_Some [OF wf_shape] k1 S by blast
    have "switch_task pl exiting k f = do { (k', f') \<leftarrow> resume_task nxt (k2 nxt); Some (Ret k' f' ()) }"
      using K(6) Some at unfolding switch_task_def k1_def k2_def Let_def by simp
    moreover have "kwf pl (k2 nxt) \<and> idle_ok (k2 nxt) \<and> k_active (k2 nxt) \<and> k_tasks (k2 nxt) = k_tasks k1"
      using k1 by (simp add: k2_def emit_console)
    then obtain k' f' where r: "resume_task nxt (k2 nxt) = Some (k', f')" "step_ok pl (k2 nxt) k' f'"
      using resume_task_step [of pl "k2 nxt" nxt] S by auto
    moreover have "step_ok pl k k' f'"
      by (rule step_ok_from [OF r(2)]) (simp_all add: k2_def k1_def emit_console)
    ultimately show ?thesis by simp
  qed
qed

lemma requeue_current:
  assumes "kinv pl k f"
  shows "kwf pl (set_state (k_current k) RtReady (set_frame (k_current k) f (put_strs ls k)))
    \<and> idle_ok (set_state (k_current k) RtReady (set_frame (k_current k) f (put_strs ls k)))"
proof -
  note K = kinvD [OF assms]
  have "kinv pl (put_strs ls k) f" using assms by (simp add: put_strs_console)
  then show ?thesis
    using leave_current [of pl "put_strs ls k" f "\<lambda>t. t\<lparr>t_frame := f, t_state := RtReady\<rparr>"] K(4,5,8,9) current_no_pending [OF assms]
    by (simp add: task_ok_def put_strs_console upd_task_twice)
qed

lemma preempt_step:
  assumes "kinv pl k f"
  shows "returns (\<lambda>k' f' _. step_ok pl k k' f') (preempt k f)"
proof (cases "select_highest k (k_current k)")
  case None
  then show ?thesis using assms kinvD(3) [OF assms] by (simp add: preempt_def Let_def step_ok_same)
next
  case (Some nxt)
  note K = kinvD [OF assms] and S = select_highest_Some [OF Some]
  have at: "task_at k nxt = Some (k_tasks k ! nxt)" using task_at_Some [OF K(10)] S by blast
  have neq: "nxt \<noteq> k_current k" using S K(7) by auto
  show ?thesis
  proof (cases "t_prio (k_tasks k ! nxt) \<le> t_prio (k_tasks k ! k_current k)")
    case True
    then show ?thesis using assms K(3,6) Some at neq by (simp add: preempt_def Let_def step_ok_same)
  next
    case False
    let ?k0 = "put_strs [''SCHED preempt='', t_name (k_tasks k ! k_current k), '' selected='', t_name (k_tasks k ! nxt), nl] k"
    let ?k1 = "set_state (k_current k) RtReady (set_frame (k_current k) f ?k0)"
    have "kwf pl ?k1 \<and> idle_ok ?k1" by (rule requeue_current [OF assms])
    moreover have "k_active ?k1" "t_state (k_tasks ?k1 ! nxt) = RtReady"
      using K(3) S neq by (simp_all add: put_strs_console)
    ultimately obtain k' f' where r: "resume_task nxt ?k1 = Some (k', f')" "step_ok pl ?k1 k' f'"
      using resume_task_step [of pl ?k1 nxt] S by auto
    have "step_ok pl k k' f'" by (rule step_ok_from [OF r(2)]) (simp_all add: put_strs_console)
    with r(1) show ?thesis using K(3,6) Some at neq False by (simp add: preempt_def Let_def)
  qed
qed

text \<open>The common tail of the two fault paths.\<close>

lemma fault_tail:
  assumes "kinv pl k f"
  shows "\<exists>k'. notify_supervisor_and_logger name (irq_drop_for_task (k_current k) (set_state (k_current k) RtFaulted k)) = Some k'
     \<and> kwf pl k' \<and> idle_ok k' \<and> k_active k' \<and> k_umem k' = k_umem k \<and> k_satp_root k' = k_satp_root k
     \<and> list_all2 woken ((k_tasks k)[k_current k := (k_tasks k ! k_current k)\<lparr>t_state := RtFaulted\<rparr>]) (k_tasks k')"
proof -
  note K = kinvD [OF assms]
  let ?k1 = "set_state (k_current k) RtFaulted k"
  have 1: "kwf pl ?k1 \<and> idle_ok ?k1"
    using K(9) current_no_pending [OF assms] by (intro leave_current [OF assms]) (simp_all add: task_ok_def)
  obtain c where c: "irq_drop_for_task (k_current k) ?k1 =
      ?k1\<lparr>k_irq_routes := map (dropped_route (k_current k)) (k_irq_routes k), k_console := c\<rparr>" (is "_ = ?k2")
    using irq_drop_eq [of ?k1 "k_current k"] K(12) by auto
  have "kwf pl ?k2" by (rule wf_cong [of pl ?k1]) (use 1 in \<open>simp_all\<close>)
  moreover have "idle_ok ?k2" using 1 by (simp add: idle_ok_def)
  ultimately obtain k' where k': "notify_supervisor_and_logger name ?k2 = Some k'" "kwf pl k'" "tasks_woken ?k2 k'"
    using notify_supervisor_and_logger_ok by blast
  then have "idle_ok k'" using tasks_woken_idle \<open>idle_ok ?k2\<close> by blast
  with k' K(3) show ?thesis unfolding c by (auto simp: tasks_woken_def)
qed

text \<open>Both fault paths end in the same way: the faulting task is marked, its waiting observers are
  woken, and a successor is scheduled.\<close>

definition fault_left :: "platform \<Rightarrow> kernel \<Rightarrow> kernel \<Rightarrow> bool" where
  "fault_left pl k k' \<longleftrightarrow> kwf pl k' \<and> idle_ok k' \<and> k_active k' \<and> k_umem k' = k_umem k \<and> k_satp_root k' = k_satp_root k
     \<and> list_all2 woken ((k_tasks k)[k_current k := (k_tasks k ! k_current k)\<lparr>t_state := RtFaulted\<rparr>]) (k_tasks k')"

lemma watchdog_fault_eq:
  assumes "kinv pl k f" "\<not> k_watchdog_miss k + 1 \<le> WATCHDOG_WINDOW"
  shows "\<exists>k'. watchdog_tick k f = schedule_next (k_current k) no_ready_lines True k' \<and> fault_left pl k k'"
proof -
  note K = kinvD [OF assms(1)]
  let ?t = "k_tasks k ! k_current k"
  let ?k0 = "put_str (line ''CONTAIN scope=user reason=watchdog_timeout action=faulted kernel=alive'')
     (emit ''FAULT type=WatchdogTimeout task='' (t_name ?t) (ring_push EV_FAULT (k_current k)
       (k\<lparr>k_ticks := k_ticks k + 1, k_watchdog_miss := k_watchdog_miss k + 1\<rparr>)))"
  have "kinv pl (k\<lparr>k_ticks := k_ticks k + 1, k_watchdog_miss := k_watchdog_miss k + 1\<rparr>) f"
    by (rule kinv_cong [OF assms(1)]) (simp_all add: K(4))
  then have "kinv pl ?k0 f" using K(5) by (simp add: put_str_console emit_console kinv_ring_push)
  moreover have same: "k_current ?k0 = k_current k" "k_tasks ?k0 = k_tasks k" "k_umem ?k0 = k_umem k" "k_satp_root ?k0 = k_satp_root k"
    by (simp_all add: put_str_console emit_console)
  ultimately obtain k' where k': "notify_supervisor_and_logger (t_name ?t)
      (irq_drop_for_task (k_current k) (set_state (k_current k) RtFaulted ?k0)) = Some k'" "fault_left pl k k'"
    using fault_tail [of pl ?k0 f "t_name ?t"] unfolding same fault_left_def by blast
  moreover have "watchdog_tick k f = schedule_next (k_current k) no_ready_lines True k'"
    using assms(2) K(3,5,8) k'(1) by (simp add: watchdog_tick_def Let_def task_at_def)
  ultimately show ?thesis by blast
qed

lemma contain_fault_eq:
  assumes "kinv pl k f"
  shows "\<exists>k'. contain_fault reason k f = schedule_next (k_current k) no_ready_lines True k' \<and> fault_left pl k k'"
proof -
  note K = kinvD [OF assms]
  let ?t = "k_tasks k ! k_current k"
  let ?k0 = "put_strs [''CONTAIN scope=user reason='', reason, line '' action=faulted kernel=alive'']
     (emit ''FAULT type=PageFault task='' (t_name ?t) (ring_push EV_FAULT (k_current k) k))"
  have "kinv pl ?k0 f" using assms K(5) by (simp add: put_strs_console emit_console kinv_ring_push)
  moreover have same: "k_current ?k0 = k_current k" "k_tasks ?k0 = k_tasks k" "k_umem ?k0 = k_umem k" "k_satp_root ?k0 = k_satp_root k"
    by (simp_all add: put_strs_console emit_console)
  ultimately obtain k' where k': "notify_supervisor_and_logger (t_name ?t)
      (irq_drop_for_task (k_current k) (set_state (k_current k) RtFaulted ?k0)) = Some k'" "fault_left pl k k'"
    using fault_tail [of pl ?k0 f "t_name ?t"] unfolding same fault_left_def by blast
  moreover have "contain_fault reason k f = schedule_next (k_current k) no_ready_lines True k'"
    using K(3,6) k'(1) by (simp add: contain_fault_def Let_def)
  ultimately show ?thesis by blast
qed

lemma fault_left_step:
  assumes "fault_left pl k k'" "k_current k < MAX_TASKS"
  shows "returns (\<lambda>k'' f' x. step_ok pl k k'' f' \<and> x = r) (schedule_next (k_current k) ls r k')"
  using schedule_next_step [of pl k' "k_current k" r ls] step_ok_from [of pl k' _ _ k] assms
  unfolding fault_left_def by (auto elim!: returns_mono)

lemma watchdog_tick_step:
  assumes "kinv pl k f"
  shows "returns (\<lambda>k' f' faulted. step_ok pl k k' f'
     \<and> (\<not> faulted \<longrightarrow> k_umem k' = k_umem k \<and> k_satp_root k' = k_satp_root k)) (watchdog_tick k f)"
proof (cases "k_watchdog_miss k + 1 \<le> WATCHDOG_WINDOW")
  case True
  have "kinv pl (k\<lparr>k_ticks := k_ticks k + 1, k_watchdog_miss := k_watchdog_miss k + 1\<rparr>) f"
    by (rule kinv_cong [OF assms]) (simp_all add: kinvD(4) [OF assms])
  then show ?thesis using True kinvD(3) [OF assms] by (simp add: watchdog_tick_def Let_def step_ok_same)
next
  case False
  then obtain k' where "watchdog_tick k f = schedule_next (k_current k) no_ready_lines True k'" "fault_left pl k k'"
    using watchdog_fault_eq [OF assms] by blast
  then show ?thesis
    using fault_left_step [of pl k k' True no_ready_lines] kinvD(5) [OF assms] by (auto elim!: returns_mono)
qed

lemma contain_fault_step:
  assumes "kinv pl k f"
  shows "returns (\<lambda>k' f' taken. step_ok pl k k' f' \<and> taken) (contain_fault reason k f)"
proof -
  obtain k' where "contain_fault reason k f = schedule_next (k_current k) no_ready_lines True k'" "fault_left pl k k'"
    using contain_fault_eq [OF assms] by blast
  then show ?thesis
    using fault_left_step [of pl k k' True no_ready_lines] kinvD(5) [OF assms] by (auto elim!: returns_mono)
qed

section \<open>What scheduling decides\<close>

text \<open>The running task has the highest priority among the tasks that could run.\<close>

definition runs_highest :: "kernel \<Rightarrow> bool" where
  "runs_highest k \<longleftrightarrow> (\<forall>i<MAX_TASKS. t_state (k_tasks k ! i) = RtReady \<longrightarrow> t_prio (k_tasks k ! i) \<le> t_prio (k_tasks k ! k_current k))"

lemma select_highest_top:
  assumes "select_highest k cur = Some b" "cur < MAX_TASKS" "i < MAX_TASKS" "t_state (k_tasks k ! i) = RtReady"
  shows "t_prio (k_tasks k ! i) \<le> t_prio (k_tasks k ! b)"
  using select_highest_best [of k cur] step_of_slot [OF assms(2,3)] assms(1,4) by (auto simp: best_in_def)

text \<open>A successor was resumed, or no task is ready.\<close>

definition scheduled :: "kernel \<Rightarrow> 'a \<Rightarrow> 'a outcome \<Rightarrow> bool" where
  "scheduled k r out \<longleftrightarrow> (case out of
       Ret k' f' x \<Rightarrow> x = r \<and> (\<exists>nxt<MAX_TASKS. t_state (k_tasks k ! nxt) = RtReady \<and> k_current k' = nxt
         \<and> k_tasks k' = (k_tasks k)[nxt := (k_tasks k ! nxt)\<lparr>t_state := RtRunning, t_pending_ipc := None\<rparr>]
         \<and> (\<forall>i<MAX_TASKS. t_state (k_tasks k ! i) = RtReady \<longrightarrow> t_prio (k_tasks k ! i) \<le> t_prio (k_tasks k ! nxt)))
     | Halt k' \<Rightarrow> k_tasks k' = k_tasks k \<and> (\<forall>i<MAX_TASKS. t_state (k_tasks k ! i) \<noteq> RtReady)
     | PowerOff _ \<Rightarrow> False)"

lemma schedule_next_scheduled:
  assumes "kwf pl k" "cur < MAX_TASKS"
  shows "\<exists>out. schedule_next cur ls r k = Some out \<and> scheduled k r out"
proof (cases "select_highest k cur")
  case None
  then show ?thesis using select_highest_None [OF assms(2) None]
    by (simp add: schedule_next_def scheduled_def put_strs_console)
next
  case (Some nxt)
  note S = select_highest_Some [OF Some] and top = select_highest_top [OF Some assms(2)]
  let ?k = "emit ''SCHED selected='' (t_name (k_tasks k ! nxt)) k"
  obtain c where "resume_task nxt ?k = Some ((resumed nxt ?k)\<lparr>k_console := c\<rparr>, resumed_frame (k_tasks ?k ! nxt))"
    using resume_task_eq [of pl ?k nxt] assms(1) S by (auto simp: emit_console)
  then show ?thesis
    using Some S top task_at_Some [OF wf_shape [OF assms(1)]] by (simp add: schedule_next_def scheduled_def) (auto simp: emit_console)
qed

lemma scheduled_highest:
  assumes "scheduled k r (Ret k' f' x)" "length (k_tasks k) = MAX_TASKS"
  shows "runs_highest k'"
  using assms by (auto simp: scheduled_def runs_highest_def nth_list_update split: if_splits)

lemma preempt_highest:
  assumes "kinv pl k f" "preempt k f = Some (Ret k' f' x)"
  shows "runs_highest k'"
proof (cases "select_highest k (k_current k)")
  case None
  then show ?thesis
    using assms(2) kinvD(3) [OF assms(1)] select_highest_None [OF kinvD(5) [OF assms(1)] None]
    by (auto simp: preempt_def Let_def runs_highest_def)
next
  case (Some nxt)
  note K = kinvD [OF assms(1)] and S = select_highest_Some [OF Some] and top = select_highest_top [OF Some K(5)]
  have at: "task_at k nxt = Some (k_tasks k ! nxt)" using task_at_Some [OF K(10)] S by blast
  have neq: "nxt \<noteq> k_current k" using S K(7) by auto
  show ?thesis
  proof (cases "t_prio (k_tasks k ! nxt) \<le> t_prio (k_tasks k ! k_current k)")
    case True
    then have "k' = k" using assms(2) K(3,6) Some at neq by (simp add: preempt_def Let_def)
    then show ?thesis using top True by (auto simp: runs_highest_def intro: order_trans)
  next
    case False
    let ?k1 = "set_state (k_current k) RtReady (set_frame (k_current k) f
       (put_strs [''SCHED preempt='', t_name (k_tasks k ! k_current k), '' selected='', t_name (k_tasks k ! nxt), nl] k))"
    have r: "resume_task nxt ?k1 = Some (k', f')"
      using assms(2) K(3,6) Some at neq False by (auto simp: preempt_def Let_def bind_eq_Some_conv)
    obtain c where "resume_task nxt ?k1 = Some ((resumed nxt ?k1)\<lparr>k_console := c\<rparr>, resumed_frame (k_tasks ?k1 ! nxt))"
      using resume_task_eq [OF requeue_current [OF assms(1), THEN conjunct1]] S by blast
    then have "k' = (resumed nxt ?k1)\<lparr>k_console := c\<rparr>" using r by simp
    then show ?thesis
      using top False neq S K(5,8) unfolding runs_highest_def
      by (auto simp: put_strs_console nth_list_update split: if_splits)
  qed
qed

text \<open>What a contained fault leaves: the faulting task is faulted and not running, every other task
  is as it was, or woken from a wait by the notification, except for the successor that now runs
  with the highest ready priority; without a ready task the kernel stops.\<close>

definition fault_contained :: "platform \<Rightarrow> kernel \<Rightarrow> 'a outcome \<Rightarrow> bool" where
  "fault_contained pl k out \<longleftrightarrow> (case out of
       Ret k' f' _ \<Rightarrow> kinv pl k' f' \<and> t_state (k_tasks k' ! k_current k) = RtFaulted \<and> k_current k' \<noteq> k_current k
         \<and> (\<forall>i<MAX_TASKS. i \<noteq> k_current k \<and> i \<noteq> k_current k' \<longrightarrow> woken (k_tasks k ! i) (k_tasks k' ! i)) \<and> runs_highest k'
     | Halt k' \<Rightarrow> t_state (k_tasks k' ! k_current k) = RtFaulted \<and> (\<forall>i<MAX_TASKS. t_state (k_tasks k' ! i) \<noteq> RtReady)
     | PowerOff _ \<Rightarrow> False)"

lemma fault_left_contained:
  assumes "kinv pl k f" "fault_left pl k k1"
  shows "\<exists>out. schedule_next (k_current k) ls True k1 = Some out \<and> fault_contained pl k out
    \<and> (\<forall>k' f' x. out = Ret k' f' x \<longrightarrow> x \<and> mem_confined k k')"
proof -
  note K = kinvD [OF assms(1)]
  obtain out where out: "schedule_next (k_current k) ls True k1 = Some out" "scheduled k1 True out"
    using schedule_next_scheduled [of pl k1 "k_current k" ls True] assms(2) K(5) by (auto simp: fault_left_def)
  have len: "length (k_tasks k1) = MAX_TASKS" using assms(2) by (auto simp: fault_left_def dest: wf_lengths)
  have w: "woken (if i = k_current k then (k_tasks k ! i)\<lparr>t_state := RtFaulted\<rparr> else k_tasks k ! i) (k_tasks k1 ! i)" if "i < MAX_TASKS" for i
    using assms(2) that K(5,8) by (auto simp: fault_left_def list_all2_conv_all_nth nth_list_update)
  have cur: "t_state (k_tasks k1 ! k_current k) = RtFaulted" using w [OF K(5)] by (auto simp: woken_def)
  have others: "woken (k_tasks k ! i) (k_tasks k1 ! i)" if "i < MAX_TASKS" "i \<noteq> k_current k" for i using w [OF that(1)] that(2) by simp
  have ret: "returns (\<lambda>k'' f' x. step_ok pl k k'' f' \<and> x = True) (Some out)"
    using fault_left_step [OF assms(2) K(5), of True ls] out(1) by simp
  show ?thesis
  proof (cases out)
    case (Ret k' f' x)
    obtain nxt where n: "nxt < MAX_TASKS" "t_state (k_tasks k1 ! nxt) = RtReady" "k_current k' = nxt"
      "k_tasks k' = (k_tasks k1)[nxt := (k_tasks k1 ! nxt)\<lparr>t_state := RtRunning, t_pending_ipc := None\<rparr>]"
      using out(2) Ret by (auto simp: scheduled_def)
    have "nxt \<noteq> k_current k" using n(2) cur by auto
    then have "fault_contained pl k out"
      using Ret ret n cur others len scheduled_highest [of k1 True k' f' x] out(2)
      by (auto simp: fault_contained_def step_ok_def nth_list_update)
    then show ?thesis using out(1) Ret ret by (simp add: step_ok_def)
  next
    case (Halt k')
    then show ?thesis using out cur by (auto simp: fault_contained_def scheduled_def)
  next
    case (PowerOff k')
    then show ?thesis using out(2) by (simp add: scheduled_def)
  qed
qed

text \<open>Ticks that find the same task running: the dispatcher counts until the watchdog gives up.\<close>

fun hog_ticks :: "nat \<Rightarrow> kernel \<Rightarrow> trap_frame \<Rightarrow> bool outcome option" where
  "hog_ticks 0 k f = Some (Ret k f False)"
| "hog_ticks (Suc n) k f =
     (case watchdog_tick k f of Some (Ret k' f' False) \<Rightarrow> hog_ticks n k' f' | r \<Rightarrow> r)"

lemma hog_ticks_window:
  "k_active k \<Longrightarrow> unat (k_watchdog_miss k) + n \<le> 4 \<Longrightarrow>
     hog_ticks n k f = Some (Ret (k\<lparr>k_ticks := k_ticks k + of_nat n, k_watchdog_miss := k_watchdog_miss k + of_nat n\<rparr>) f False)"
proof (induction n arbitrary: k)
  case (Suc n)
  have "unat (k_watchdog_miss k + 1) = unat (k_watchdog_miss k) + 1"
    using Suc.prems(2) by (simp add: unat_word_ariths)
  then have m: "unat (k_watchdog_miss k + 1) + n \<le> 4" "k_watchdog_miss k + 1 \<le> WATCHDOG_WINDOW"
    using Suc.prems(2) by (simp_all add: word_le_nat_alt WATCHDOG_WINDOW_def)
  let ?k = "k\<lparr>k_ticks := k_ticks k + 1, k_watchdog_miss := k_watchdog_miss k + 1\<rparr>"
  have "watchdog_tick k f = Some (Ret ?k f False)"
    using Suc.prems(1) m(2) by (simp add: watchdog_tick_def Let_def)
  then show ?case using Suc.IH [of ?k] Suc.prems(1) m(1) by (simp add: add.assoc)
qed simp

lemma hog_ticks_add: "hog_ticks n k f = Some (Ret k1 f1 False) \<Longrightarrow> hog_ticks (n + m) k f = hog_ticks m k1 f1"
  by (induction n k f rule: hog_ticks.induct) (auto split: option.splits outcome.splits bool.splits)

lemma hog_ticks_one: "hog_ticks 1 k f = watchdog_tick k f"
  by (auto split: option.splits outcome.splits bool.splits)

section \<open>Properties\<close>

text \<open>Task selection is strict priority with round robin: from any slot, \<open>select_highest\<close> returns
  nothing exactly when no task is ready; otherwise it returns a ready task such that no ready task
  has a higher priority and every ready task of the same priority comes no earlier in the circular
  order that starts after the current slot.\<close>

theorem select_highest_correct:
  "cur < MAX_TASKS \<Longrightarrow>
    (case select_highest k cur of
       None \<Rightarrow> \<forall>i<MAX_TASKS. t_state (k_tasks k ! i) \<noteq> RtReady
     | Some b \<Rightarrow> \<exists>s\<in>{1..MAX_TASKS}. b = (cur + s) mod MAX_TASKS \<and> t_state (k_tasks k ! b) = RtReady
         \<and> (\<forall>r\<in>{1..MAX_TASKS}. let i = (cur + r) mod MAX_TASKS in t_state (k_tasks k ! i) = RtReady \<longrightarrow>
              t_prio (k_tasks k ! i) < t_prio (k_tasks k ! b) \<or> t_prio (k_tasks k ! i) = t_prio (k_tasks k ! b) \<and> s \<le> r))"
proof (cases "select_highest k cur")
  case None
  assume "cur < MAX_TASKS"
  then show ?thesis using select_highest_None [OF _ None] None by simp
next
  case (Some b)
  obtain s where s: "s \<in> {1..MAX_TASKS}" "b = (cur + s) mod MAX_TASKS" "t_state (k_tasks k ! b) = RtReady"
    and top: "\<And>r. r \<in> {1..MAX_TASKS} \<Longrightarrow> t_state (k_tasks k ! ((cur + r) mod MAX_TASKS)) = RtReady \<Longrightarrow>
       t_prio (k_tasks k ! ((cur + r) mod MAX_TASKS)) \<le> t_prio (k_tasks k ! b)
       \<and> (r < s \<longrightarrow> t_prio (k_tasks k ! ((cur + r) mod MAX_TASKS)) < t_prio (k_tasks k ! b))"
    using select_highest_best [of k cur] Some by (auto simp: best_in_def)
  show ?thesis unfolding Some option.case Let_def
  proof (intro bexI [OF _ s(1)] conjI ballI impI)
    fix r assume "r \<in> {1..MAX_TASKS}" "t_state (k_tasks k ! ((cur + r) mod MAX_TASKS)) = RtReady"
    from top [OF this] show "t_prio (k_tasks k ! ((cur + r) mod MAX_TASKS)) < t_prio (k_tasks k ! b)
        \<or> t_prio (k_tasks k ! ((cur + r) mod MAX_TASKS)) = t_prio (k_tasks k ! b) \<and> s \<le> r"
      by (meson le_neq_trans not_less)
  qed (use s in simp_all)
qed

theorem select_highest_correct_witness:
  "select_highest sample_kernel 0 = Some 2 \<and> (0 :: nat) < MAX_TASKS"
proof -
  have cur: "(0 :: nat) < MAX_TASKS" by (simp add: MAX_TASKS_def)
  have only: "t_state (k_tasks sample_kernel ! i) = RtReady \<longleftrightarrow> i = 2" if "i < 16" for i
    using that by (simp add: sample_nth sample_task_def sample_worker_def EMPTY_TCB_def)
  show ?thesis
  proof (cases "select_highest sample_kernel 0")
    case None
    then show ?thesis using select_highest_correct [OF cur, of sample_kernel] only [of 2] by (simp add: MAX_TASKS_def)
  next
    case (Some b)
    then have "t_state (k_tasks sample_kernel ! b) = RtReady" "b < 16"
      using select_highest_correct [OF cur, of sample_kernel] by (auto simp: MAX_TASKS_def)
    then show ?thesis using Some only cur by simp
  qed
qed

text \<open>C18. The watchdog contains a task that never enters the kernel: four ticks in a row change only
  the two counters, and on the fifth the task is faulted and a successor runs, or the kernel stops
  because no task is ready. The ticks are those of the watchdog alone; the rest of the timer interrupt
  is the subject of \<open>Trap\<close>.\<close>

theorem watchdog_contains_hog:
  assumes "kinv pl k f" and "k_watchdog_miss k = 0"
  shows "(\<forall>n\<le>4. hog_ticks n k f =
           Some (Ret (k\<lparr>k_ticks := k_ticks k + of_nat n, k_watchdog_miss := of_nat n\<rparr>) f False))
    \<and> (\<exists>out. hog_ticks 5 k f = Some out \<and> fault_contained pl k out)"
proof -
  note K = kinvD [OF assms(1)]
  have four: "hog_ticks n k f = Some (Ret (k\<lparr>k_ticks := k_ticks k + of_nat n, k_watchdog_miss := of_nat n\<rparr>) f False)"
    if "n \<le> 4" for n
    using hog_ticks_window [OF K(3), of n f] that assms(2) by simp
  let ?k4 = "k\<lparr>k_ticks := k_ticks k + 4, k_watchdog_miss := 4\<rparr>"
  have "hog_ticks (4 + 1) k f = watchdog_tick ?k4 f"
    using hog_ticks_add [OF four [of 4], of 1] unfolding hog_ticks_one by simp
  moreover have "kinv pl ?k4 f" by (rule kinv_cong [OF assms(1)]) (simp_all add: K(4))
  moreover have "\<not> k_watchdog_miss ?k4 + 1 \<le> WATCHDOG_WINDOW" by (simp add: WATCHDOG_WINDOW_def)
  ultimately obtain k1 out where "hog_ticks (4 + 1) k f = Some out" "fault_contained pl ?k4 out"
    using watchdog_fault_eq [of pl ?k4 f] fault_left_contained [of pl ?k4 f _ no_ready_lines] by metis
  moreover have "fault_contained pl ?k4 out = fault_contained pl k out"
    by (simp add: fault_contained_def split: outcome.split)
  ultimately show ?thesis using four by auto
qed

theorem watchdog_contains_hog_witness:
  "\<exists>out. hog_ticks 5 sample_kernel sample_frame = Some out \<and> fault_contained sample_platform sample_kernel out"
  using watchdog_contains_hog [OF sample_kinv] by simp

end
