(* ===== verification/Dispatch_Ipc.thy ===== *)
theory Dispatch_Ipc
  imports Dispatch_Sched
begin

text \<open>
  Synchronous IPC on target (\<open>ipc_send\<close> and \<open>ipc_recv\<close> of \<open>dispatch.rs\<close>) with the device event
  path of a receive.
\<close>

section \<open>Device events\<close>

definition IRQ_EVENT_CODE :: u8 where "IRQ_EVENT_CODE = 0x10"

definition emit_irq_delivered :: "string \<Rightarrow> string \<Rightarrow> kernel \<Rightarrow> kernel" where
  "emit_irq_delivered to_name source k = put_strs [''IRQ delivered to='', to_name, '' source='', source, nl] k"

definition irq_pending_for :: "kernel \<Rightarrow> u32 \<Rightarrow> nat \<Rightarrow> nat option" where
  "irq_pending_for k ep_id cur =
     find (\<lambda>i. dd_irq_endpoint (DEVICES ! i) = ep_id \<and> ir_pending (irq_route_at k i)
              \<and> ir_receiver (irq_route_at k i) = cur) [0..<length DEVICES]"

section \<open>Send\<close>

definition ipc_send :: "platform \<Rightarrow> kernel \<Rightarrow> trap_frame \<Rightarrow> unit outcome option" where
  "ipc_send pl k frame =
     do {
       let cur = k_current k;
       let cap_index = unat (tf_regs frame ! 9);
       let buf = tf_regs frame ! 10;
       let len = unat (tf_regs frame ! 11);
       t \<leftarrow> task_at k cur;
       check \<leftarrow> cap_check k cur cap_index RIGHT_SEND;
       case check of
         CapOk ep_id \<Rightarrow>
           if len > IPC_MSG_MAX then
             Some (Ret (emit ''IPC_DENIED op=send reason=msg_too_large task='' (t_name t) k)
                       (set_a0 frame ERR_MSG_TOO_LARGE) ())
           else if \<not> (len \<le> IPC_MSG_MAX \<and> in_readable_window pl buf len) then
             Some (Ret (emit ''IPC_DENIED op=send reason=bad_buffer task='' (t_name t) k)
                       (set_a0 frame ERR_INVALID_ARG) ())
           else do {
             let k = copy_from_user buf len k;
             e \<leftarrow> ep_get k ep_id;
             case e of
               ReceiverWaiting tid dst cap \<Rightarrow>
                 do {
                   let k = emit ''IPC send task='' (t_name t) k;
                   let k = put_str (line ''IPC endpoint=log op=send'') k;
                   r \<leftarrow> task_at k tid;
                   let k = (if len \<le> cap \<and> valid_user_buf dst len then
                              set_pending tid (Some \<lparr>pm_dst = dst, pm_len = len,
                                pm_data = take len (k_kmsg k) @ replicate (IPC_MSG_MAX - len) 0\<rparr>) k
                            else set_frame tid (set_a0 (t_frame r) ERR_MSG_TOO_LARGE) k);
                   let k = set_state tid RtReady k;
                   let k = ep_set ep_id EpIdle k;
                   Some (Ret k (set_a0 frame (of_nat len)) ())
                 }
             | EpIdle \<Rightarrow>
                 do {
                   let k = ep_set ep_id (SenderWaiting cur len) k;
                   let k = emit ''IPC send task='' (t_name t) k;
                   let k = put_str (line ''IPC endpoint=log op=send state=blocked'') k;
                   block_and_switch k frame
                 }
             | SenderWaiting _ _ \<Rightarrow>
                 Some (Ret (emit ''IPC_DENIED op=send reason=busy task='' (t_name t) k)
                           (set_a0 frame ERR_INVALID_ARG) ())
           }
       | other \<Rightarrow>
           do {
             (k, code) \<leftarrow> deny_cap cur other k;
             Some (Ret k (set_a0 frame code) ())
           }
     }"

section \<open>Receive\<close>

definition ipc_recv :: "kernel \<Rightarrow> trap_frame \<Rightarrow> unit outcome option" where
  "ipc_recv k frame =
     do {
       let cur = k_current k;
       let cap_index = unat (tf_regs frame ! 9);
       let dst = tf_regs frame ! 10;
       let cap = unat (tf_regs frame ! 11);
       t \<leftarrow> task_at k cur;
       check \<leftarrow> cap_check k cur cap_index RIGHT_RECV;
       let bad_buffer = Ret (emit ''IPC_DENIED op=recv reason=bad_buffer task='' (t_name t) k)
                          (set_a0 frame ERR_INVALID_ARG) ();
       case check of
         CapOk ep_id \<Rightarrow>
           (case irq_pending_for k ep_id cur of
              Some dev \<Rightarrow>
                if cap < 1 \<or> \<not> valid_user_buf dst 1 then Some bad_buffer
                else
                  let k = irq_route_set dev \<lparr>ir_receiver = cur, ir_pending = False\<rparr> k;
                      k = copy_bytes_to_user dst [IRQ_EVENT_CODE] k;
                      k = emit_irq_delivered (t_name t) (dd_name (DEVICES ! dev)) k
                  in Some (Ret k (set_a0 frame 1) ())
            | None \<Rightarrow>
                do {
                  e \<leftarrow> ep_get k ep_id;
                  case e of
                    SenderWaiting tid len \<Rightarrow>
                      if len > cap \<or> \<not> valid_user_buf dst len then Some bad_buffer
                      else do {
                        k \<leftarrow> copy_to_user dst len k;
                        s \<leftarrow> task_at k tid;
                        let k = set_state tid RtReady k;
                        let k = set_frame tid (set_a0 (t_frame s) (of_nat len)) k;
                        let k = ep_set ep_id EpIdle k;
                        let k = emit ''IPC recv task='' (t_name t) k;
                        let k = put_str nl (put_dec (of_nat len) (put_str ''IPC delivered bytes='' k));
                        Some (Ret k (set_a0 frame (of_nat len)) ())
                      }
                  | EpIdle \<Rightarrow>
                      if cap > IPC_MSG_MAX \<or> \<not> valid_user_buf dst (min cap IPC_MSG_MAX) then Some bad_buffer
                      else do {
                        let k = ep_set ep_id (ReceiverWaiting cur dst cap) k;
                        let k = emit ''IPC recv task='' (t_name t) k;
                        let k = put_str (line ''IPC endpoint=log op=recv state=blocked'') k;
                        block_and_switch k frame
                      }
                  | ReceiverWaiting _ _ _ \<Rightarrow>
                      Some (Ret (emit ''IPC_DENIED op=recv reason=busy task='' (t_name t) k)
                                (set_a0 frame ERR_INVALID_ARG) ())
                })
       | other \<Rightarrow>
           do {
             (k, code) \<leftarrow> deny_cap cur other k;
             Some (Ret k (set_a0 frame code) ())
           }
     }"

section \<open>Capability checks on a well-formed kernel\<close>

lemma rt_check_CapOk:
  "rt_check c pre required = CapOk i \<longleftrightarrow>
     (\<exists>d. c = Some d \<and> (pre d = Some (CapOk i) \<or>
        pre d = None \<and> rc_rights d AND required = required \<and> rc_object_id d = i))"
  by (auto simp: rt_check_def split: option.splits)

lemma cap_check_total:
  assumes "kinv pl k f"
  shows "\<exists>v. cap_check k (k_current k) ci r = Some v \<and> (\<forall>i. v = CapOk i \<longrightarrow> unat i < NUM_ENDPOINTS)"
proof (cases "ci < CAPS_PER_TASK")
  case True
  let ?t = "k_tasks k ! k_current k"
  have caps: "caps_ok (t_caps ?t)" using kinvD(9) [OF assms] by (simp add: task_ok_def)
  let ?v = "rt_check (t_caps ?t ! ci) (\<lambda>c. if rc_otype c \<noteq> OTYPE_ENDPOINT then Some CapWrongType else None) r"
  have "unat i < NUM_ENDPOINTS" if ok: "?v = CapOk i" for i
  proof -
    obtain d where d: "t_caps ?t ! ci = Some d" "rc_otype d = OTYPE_ENDPOINT" "rc_object_id d = i"
      using ok by (auto simp: rt_check_CapOk split: if_splits)
    then show ?thesis using caps True by (auto simp: caps_ok_def list_all_length)
  qed
  then show ?thesis using True kinvD(6) [OF assms] by (simp add: cap_check_def)
qed (simp add: cap_check_def)

fun cap_error_code :: "cap_verdict \<Rightarrow> u64" where
  "cap_error_code CapInvalid = ERR_INVALID_CAP"
| "cap_error_code CapWrongType = ERR_WRONG_OBJECT_TYPE"
| "cap_error_code CapInsufficientRights = ERR_INSUFFICIENT_RIGHTS"
| "cap_error_code (CapOk _) = 0"

lemma deny_cap_eq:
  assumes "kinv pl k f"
  shows "\<exists>c. deny_cap (k_current k) v k = Some ((ring_push EV_CAP_DENIED (k_current k) k)\<lparr>k_console := c\<rparr>, cap_error_code v)"
proof -
  have "task_at (ring_push EV_CAP_DENIED (k_current k) k) (k_current k) = Some (k_tasks k ! k_current k)"
    using kinvD(5,8) [OF assms] by (simp add: task_at_def)
  then show ?thesis by (cases v) (auto simp: deny_cap_def Let_def put_strs_console)
qed

lemma denied_step:
  assumes "kinv pl k f"
  shows "step_ok pl k ((ring_push e (k_current k) k)\<lparr>k_console := c\<rparr>) (set_a0 f code)"
  using kinv_ring_push [OF assms kinvD(5) [OF assms]] by (intro step_ok_same) simp_all

section \<open>Waking and blocking\<close>

lemma waiter_facts:
  assumes "kinv pl k f" "unat e < NUM_ENDPOINTS" "ep_waiter (k_endpoints k ! unat e) = Some tid"
  shows "tid < MAX_TASKS" "tid \<noteq> k_current k" "t_state (k_tasks k ! tid) = RtBlocked"
    "task_at k tid = Some (k_tasks k ! tid)" "task_ok (k_tasks k ! tid)" "t_pending_ipc (k_tasks k ! tid) = None"
proof -
  note K = kinvD [OF assms(1)]
  have len: "unat e < length (k_endpoints k)" using K(10) assms(2) by (simp add: shape_ok_def)
  have eps: "eps_ok (k_tasks k) (k_endpoints k)" using K(1) by (simp add: kwf_def)
  show tid: "tid < MAX_TASKS" and st: "t_state (k_tasks k ! tid) = RtBlocked"
    using eps_ok_waiter [OF eps len assms(3)] K(8) by simp_all
  then show "tid \<noteq> k_current k" using K(7) by auto
  show "task_at k tid = Some (k_tasks k ! tid)" by (rule task_at_Some [OF K(10) tid])
  show ok: "task_ok (k_tasks k ! tid)" by (rule wf_task_ok [OF K(1) tid])
  then show "t_pending_ipc (k_tasks k ! tid) = None" using st by (auto simp: task_ok_def split: option.splits)
qed

lemma wake_kinv:
  assumes "kinv pl k f" "unat e < NUM_ENDPOINTS" "ep_waiter (k_endpoints k ! unat e) = Some tid"
    and "task_ok t" "t_state t = RtReady"
  shows "kinv pl (k\<lparr>k_tasks := (k_tasks k)[tid := t], k_endpoints := (k_endpoints k)[unat e := EpIdle]\<rparr>) f"
    (is "kinv pl ?k f")
proof -
  note K = kinvD [OF assms(1)] and W = waiter_facts [OF assms(1-3)]
  have len: "unat e < length (k_endpoints k)" using K(10) assms(2) by (simp add: shape_ok_def)
  have eps: "eps_ok (k_tasks k) (k_endpoints k)" using K(1) by (simp add: kwf_def)
  have "kwf pl ?k"
    by (rule wf_change [OF K(1) W(1), of _ t]) (use eps_ok_wake [OF eps len assms(3), of t] assms(4,5) in simp_all)
  moreover have "running_ok ?k"
    using K(2) W(2,3) assms(5) K(8) W(1) by (auto simp: running_ok_def nth_list_update)
  ultimately show ?thesis using K(3,4) by (simp add: kinv_def)
qed

lemma block_step:
  assumes "kinv pl k f" "unat e < NUM_ENDPOINTS" "k_endpoints k ! unat e = EpIdle"
    and "ep_waiter w = Some (k_current k)" "ep_buf_ok w" "user_frame f'"
  shows "returns (\<lambda>k' f' _. step_ok pl k k' f') (block_and_switch ((ep_set e w k)\<lparr>k_console := c\<rparr>) f')"
proof -
  note K = kinvD [OF assms(1)]
  let ?cur = "k_current k" and ?k1 = "(ep_set e w k)\<lparr>k_console := c\<rparr>"
  let ?t = "(k_tasks k ! k_current k)\<lparr>t_frame := f', t_state := RtBlocked\<rparr>"
  let ?k2 = "set_state ?cur RtBlocked (set_frame ?cur f' ?k1)"
  have len: "unat e < length (k_endpoints k)" using K(10) assms(2) by (simp add: shape_ok_def)
  have eps: "eps_ok (k_tasks k) (k_endpoints k)" using K(1) by (simp add: kwf_def)
  have ts: "k_tasks ?k2 = (k_tasks k)[?cur := ?t]" using K(5,8) by (simp add: ep_set_def)
  have "kwf pl ?k2"
  proof (rule wf_change [OF K(1,5) ts])
    show "task_ok ?t" using K(9) current_no_pending [OF assms(1)] assms(6) by (simp add: task_ok_def)
    show "eps_ok ((k_tasks k)[?cur := ?t]) (k_endpoints ?k2)"
      using eps_ok_block [OF eps len, of ?cur ?t w] K(5,7,8) assms(4,5) by (simp add: ep_set_def)
  qed (simp_all add: ep_set_def upd_task_def)
  moreover have "idle_ok ?k2"
    using K(2,5,8) unfolding idle_ok_def ts by (auto simp: running_ok_def nth_list_update)
  ultimately have "returns (\<lambda>k' f'' _. step_ok pl ?k1 k' f'') (block_and_switch ?k1 f')"
    using K(3,5,8) by (intro block_and_switch_step) (simp_all add: ep_set_def)
  then show ?thesis by (rule returns_from) (simp_all add: ep_set_def)
qed

section \<open>Send keeps the invariant\<close>

text \<open>The state after the sender's bytes were staged, and the receiver's control block after a
  completed send.\<close>

definition staged :: "u64 \<Rightarrow> nat \<Rightarrow> kernel \<Rightarrow> kernel" where
  "staged buf len k = k\<lparr>k_kmsg := user_bytes (k_umem k (k_satp_root k)) buf len @ drop len (k_kmsg k)\<rparr>"

definition delivered_to :: "u64 \<Rightarrow> nat \<Rightarrow> u8 list \<Rightarrow> tcb \<Rightarrow> tcb" where
  "delivered_to dst cap bs t =
     (if length bs \<le> cap \<and> valid_user_buf dst (length bs)
      then t\<lparr>t_pending_ipc := Some \<lparr>pm_dst = dst, pm_len = length bs,
               pm_data = bs @ replicate (IPC_MSG_MAX - length bs) 0\<rparr>, t_state := RtReady\<rparr>
      else t\<lparr>t_frame := set_a0 (t_frame t) ERR_MSG_TOO_LARGE, t_state := RtReady\<rparr>)"

lemma staged_kinv:
  assumes "kinv pl k f" "len \<le> IPC_MSG_MAX"
  shows "kinv pl (staged buf len k) f" "copy_from_user buf len k = staged buf len k"
proof -
  note K = kinvD [OF assms(1)]
  have len: "len \<le> length (k_kmsg k)" using K(10) assms(2) by (simp add: shape_ok_def)
  show "copy_from_user buf len k = staged buf len k"
    using copy_from_user_kmsg [OF K(11) len] by (simp add: staged_def)
  show "kinv pl (staged buf len k) f"
    by (rule kinv_cong [OF assms(1)]) (use len K(4) in \<open>simp_all add: staged_def\<close>)
qed

lemma staged_fields [simp]:
  "k_tasks (staged buf len k) = k_tasks k" "k_endpoints (staged buf len k) = k_endpoints k"
  "k_current (staged buf len k) = k_current k" "k_umem (staged buf len k) = k_umem k"
  "k_satp_root (staged buf len k) = k_satp_root k"
  by (simp_all add: staged_def)

lemma ipc_send_to_receiver:
  assumes "kinv pl k f" "cap_check k (k_current k) (unat (tf_regs f ! 9)) RIGHT_SEND = Some (CapOk e)"
    and "unat (tf_regs f ! 11) = len" "tf_regs f ! 10 = buf" "len \<le> IPC_MSG_MAX" "in_readable_window pl buf len"
    and "k_endpoints k ! unat e = ReceiverWaiting tid dst cap"
  shows "\<exists>c. ipc_send pl k f = Some (Ret ((staged buf len k)\<lparr>k_tasks := (k_tasks k)[tid :=
       delivered_to dst cap (user_bytes (k_umem k (k_satp_root k)) buf len) (k_tasks k ! tid)],
     k_endpoints := (k_endpoints k)[unat e := EpIdle], k_console := c\<rparr>) (set_a0 f (of_nat len)) ())"
proof -
  note K = kinvD [OF assms(1)]
  have e: "unat e < NUM_ENDPOINTS" using cap_check_total [OF assms(1)] assms(2) by (metis option.inject)
  have W: "tid < length (k_tasks k)" using waiter_facts(1) [OF assms(1) e] assms(7) K(8) by simp
  have get: "ep_get (staged buf len k) e = Some (ReceiverWaiting tid dst cap)"
    using ep_get_Some [OF K(10) e] assms(7) by (simp add: ep_get_def split: if_splits)
  have data: "take len (k_kmsg (staged buf len k)) = user_bytes (k_umem k (k_satp_root k)) buf len"
    by (simp add: staged_def)
  have short: "\<not> IPC_MSG_MAX < len" using assms(5) by simp
  let ?t = "k_tasks k ! k_current k"
  let ?k1 = "put_str (line ''IPC endpoint=log op=send'') (emit ''IPC send task='' (t_name ?t) (staged buf len k))"
  let ?bs = "user_bytes (k_umem k (k_satp_root k)) buf len"
  let ?k2 = "if len \<le> cap \<and> valid_user_buf dst len
    then set_pending tid (Some \<lparr>pm_dst = dst, pm_len = len, pm_data = ?bs @ replicate (IPC_MSG_MAX - len) 0\<rparr>) ?k1
    else set_frame tid (set_a0 (t_frame (k_tasks k ! tid)) ERR_MSG_TOO_LARGE) ?k1"
  have at: "task_at ?k1 tid = Some (k_tasks k ! tid)" and msg: "k_kmsg ?k1 = k_kmsg (staged buf len k)"
    using W by (simp_all add: console_simps task_at_def)
  have run: "ipc_send pl k f = Some (Ret (ep_set e EpIdle (set_state tid RtReady ?k2)) (set_a0 f (of_nat len)) ())"
    unfolding ipc_send_def
    by (simp add: K(6) assms short staged_kinv(2) [OF assms(1,5)] get at msg data Let_def del: staged_fields)
  have "ep_set e EpIdle (set_state tid RtReady ?k2) =
      (staged buf len k)\<lparr>k_tasks := (k_tasks k)[tid := delivered_to dst cap ?bs (k_tasks k ! tid)],
        k_endpoints := (k_endpoints k)[unat e := EpIdle], k_console := k_console ?k1\<rparr>"
    by (rule kernel.equality) (use W in \<open>simp_all add: ep_set_def upd_task_def delivered_to_def console_simps\<close>)
  then show ?thesis using run by auto
qed

lemma delivered_to_ok:
  assumes "task_ok t" "t_pending_ipc t = None" "length bs \<le> IPC_MSG_MAX"
  shows "task_ok (delivered_to dst cap bs t)" "t_state (delivered_to dst cap bs t) = RtReady"
  using assms by (auto simp: delivered_to_def task_ok_def pm_ok_def)

lemma ipc_send_step:
  assumes "kinv pl k f"
  shows "returns (\<lambda>k' f' _. step_ok pl k k' f') (ipc_send pl k f)"
proof -
  note K = kinvD [OF assms]
  let ?buf = "tf_regs f ! 10" and ?len = "unat (tf_regs f ! 11)"
  obtain v where v: "cap_check k (k_current k) (unat (tf_regs f ! 9)) RIGHT_SEND = Some v"
    and ids: "\<And>i. v = CapOk i \<Longrightarrow> unat i < NUM_ENDPOINTS"
    using cap_check_total [OF assms] by blast
  show ?thesis
  proof (cases "\<exists>e. v = CapOk e")
    case False
    obtain c where "deny_cap (k_current k) v k = Some ((ring_push EV_CAP_DENIED (k_current k) k)\<lparr>k_console := c\<rparr>, cap_error_code v)"
      using deny_cap_eq [OF assms] by blast
    with False v K(6) denied_step [OF assms] show ?thesis by (cases v) (simp_all add: ipc_send_def Let_def)
  next
    case True
    then obtain e where e: "v = CapOk e" by blast
    have same: "step_ok pl k (k\<lparr>k_console := c\<rparr>) (set_a0 f code)" for c code
      using assms by (intro step_ok_same) simp_all
    show ?thesis
    proof (cases "?len \<le> IPC_MSG_MAX \<and> in_readable_window pl ?buf ?len")
      case False
      then show ?thesis using v e K(6) same by (auto simp: ipc_send_def Let_def emit_console)
    next
      case ok: True
      note St = staged_kinv [OF assms conjunct1 [OF ok], of ?buf]
      have get: "ep_get (staged ?buf ?len k) e = Some (k_endpoints k ! unat e)"
        using ep_get_Some [OF kinvD(10) [OF St(1)] ids [OF e]] by simp
      have short: "\<not> IPC_MSG_MAX < ?len" using ok by simp
      show ?thesis
      proof (cases "k_endpoints k ! unat e")
        case EpIdle
        have "ipc_send pl k f = block_and_switch (put_str (line ''IPC endpoint=log op=send state=blocked'')
            (emit ''IPC send task='' (t_name (k_tasks k ! k_current k))
              (ep_set e (SenderWaiting (k_current k) ?len) (staged ?buf ?len k)))) f"
          unfolding ipc_send_def using v e K(6) ok short get EpIdle by (simp add: St(2) Let_def)
        moreover have "returns (\<lambda>k' f' _. step_ok pl (staged ?buf ?len k) k' f')
            (block_and_switch ((ep_set e (SenderWaiting (k_current k) ?len) (staged ?buf ?len k))\<lparr>k_console := c\<rparr>) f)" for c
          using block_step [OF St(1) ids [OF e], of "SenderWaiting (k_current k) ?len" f] EpIdle ok K(4) by simp
        ultimately have "returns (\<lambda>k' f' _. step_ok pl (staged ?buf ?len k) k' f') (ipc_send pl k f)"
          by (simp add: console_simps)
        then show ?thesis by (rule returns_from) simp_all
      next
        case (SenderWaiting tid n)
        have "ipc_send pl k f = Some (Ret (emit ''IPC_DENIED op=send reason=busy task='' (t_name (k_tasks k ! k_current k))
            (staged ?buf ?len k)) (set_a0 f ERR_INVALID_ARG) ())"
          unfolding ipc_send_def using v e K(6) ok short get SenderWaiting by (simp add: St(2) Let_def)
        then show ?thesis using St(1) by (simp add: emit_console step_ok_same)
      next
        case (ReceiverWaiting tid dst cap)
        let ?bs = "user_bytes (k_umem k (k_satp_root k)) ?buf ?len"
        note W = waiter_facts [OF St(1) ids [OF e], of tid]
        let ?k' = "(staged ?buf ?len k)\<lparr>k_tasks := (k_tasks k)[tid := delivered_to dst cap ?bs (k_tasks k ! tid)],
            k_endpoints := (k_endpoints k)[unat e := EpIdle]\<rparr>"
        obtain c where "ipc_send pl k f = Some (Ret (?k'\<lparr>k_console := c\<rparr>) (set_a0 f (of_nat ?len)) ())"
          using ipc_send_to_receiver [OF assms] v e ok ReceiverWaiting by metis
        moreover have "kinv pl ?k' f"
          using wake_kinv [OF St(1) ids [OF e], of tid "delivered_to dst cap ?bs (k_tasks k ! tid)"]
            delivered_to_ok [of "k_tasks k ! tid" ?bs] W ok ReceiverWaiting by simp
        ultimately show ?thesis by (simp add: step_ok_same)
      qed
    qed
  qed
qed

section \<open>Receive keeps the invariant\<close>

lemma irq_pending_for_Some:
  assumes "irq_pending_for k e cur = Some dev"
  shows "dev < length DEVICES" "dd_irq_endpoint (DEVICES ! dev) = e" "ir_pending (irq_route_at k dev)"
    "ir_receiver (irq_route_at k dev) = cur"
  using assms by (auto simp: irq_pending_for_def find_Some_iff)

lemma copy_in_window:
  assumes "kinv pl k f" "0x200000 \<le> unat dst" "unat dst + length bs \<le> 0x201000"
  shows "step_ok pl k (k\<lparr>k_umem := (k_umem k)(k_satp_root k := upd_bytes dst bs (k_umem k (k_satp_root k)))\<rparr>) f"
proof -
  have "kinv pl (k\<lparr>k_umem := (k_umem k)(k_satp_root k := upd_bytes dst bs (k_umem k (k_satp_root k)))\<rparr>) f"
    by (rule kinv_cong [OF assms(1)]) (simp_all add: kinvD(4) [OF assms(1)])
  moreover have "mem_confined k (k\<lparr>k_umem := (k_umem k)(k_satp_root k := upd_bytes dst bs (k_umem k (k_satp_root k)))\<rparr>)"
    by (rule mem_confined_upd_bytes [of dst bs _ _ "k_satp_root k"]) (use assms(2,3) in simp_all)
  ultimately show ?thesis by (simp add: step_ok_def)
qed

lemma step_ok_trans_tasks:
  assumes "step_ok pl k k1 f1" "kinv pl k2 f2" "k_umem k2 = k_umem k1" "k_satp_root k2 = k_satp_root k1"
  shows "step_ok pl k k2 f2"
  using assms by (simp add: step_ok_def mem_confined_def)

definition sent_by :: "nat \<Rightarrow> tcb \<Rightarrow> tcb" where
  "sent_by len t = t\<lparr>t_state := RtReady, t_frame := set_a0 (t_frame t) (of_nat len)\<rparr>"

lemma ipc_recv_from_sender:
  assumes "kinv pl k f" "cap_check k (k_current k) (unat (tf_regs f ! 9)) RIGHT_RECV = Some (CapOk e)"
    and "tf_regs f ! 10 = dst" "irq_pending_for k e (k_current k) = None"
    and "k_endpoints k ! unat e = SenderWaiting tid len" "len \<le> unat (tf_regs f ! 11)" "valid_user_buf dst len"
  shows "\<exists>c. ipc_recv k f = Some (Ret (k\<lparr>k_umem := (k_umem k)(k_satp_root k :=
         upd_bytes dst (take len (k_kmsg k)) (k_umem k (k_satp_root k))),
       k_tasks := (k_tasks k)[tid := sent_by len (k_tasks k ! tid)],
       k_endpoints := (k_endpoints k)[unat e := EpIdle], k_console := c\<rparr>) (set_a0 f (of_nat len)) ())"
proof -
  note K = kinvD [OF assms(1)]
  have e: "unat e < NUM_ENDPOINTS" using cap_check_total [OF assms(1)] assms(2) by (metis option.inject)
  have W: "tid < length (k_tasks k)" using waiter_facts(1) [OF assms(1) e] assms(5) K(8) by simp
  have get: "ep_get k e = Some (SenderWaiting tid len)" using ep_get_Some [OF K(10) e] assms(5) by simp
  have "len \<le> length (k_kmsg k)"
    using assms(7) K(10) by (simp add: valid_user_buf_def shape_ok_def)
  then have copy: "copy_to_user dst len k = Some (k\<lparr>k_umem := (k_umem k)(k_satp_root k :=
         upd_bytes dst (take len (k_kmsg k)) (k_umem k (k_satp_root k)))\<rparr>)" (is "_ = Some ?k1")
    by (simp add: copy_to_user_def copy_bytes_to_user_mem [OF K(11)])
  let ?k2 = "ep_set e EpIdle (set_frame tid (set_a0 (t_frame (k_tasks k ! tid)) (of_nat len)) (set_state tid RtReady ?k1))"
  let ?k3 = "put_str nl (put_dec (of_nat len) (put_str ''IPC delivered bytes='' (emit ''IPC recv task='' (t_name (k_tasks k ! k_current k)) ?k2)))"
  have at: "task_at ?k1 tid = Some (k_tasks k ! tid)" using W by (simp add: task_at_def)
  have run: "ipc_recv k f = Some (Ret ?k3 (set_a0 f (of_nat len)) ())"
    unfolding ipc_recv_def using assms K(6) get copy at by (simp add: Let_def)
  have "?k3 = k\<lparr>k_umem := (k_umem k)(k_satp_root k := upd_bytes dst (take len (k_kmsg k)) (k_umem k (k_satp_root k))),
       k_tasks := (k_tasks k)[tid := sent_by len (k_tasks k ! tid)],
       k_endpoints := (k_endpoints k)[unat e := EpIdle], k_console := k_console ?k3\<rparr>"
    by (rule kernel.equality) (use W in \<open>simp_all add: ep_set_def upd_task_def sent_by_def console_simps\<close>)
  then show ?thesis using run by metis
qed

lemma ipc_recv_step:
  assumes "kinv pl k f"
  shows "returns (\<lambda>k' f' _. step_ok pl k k' f') (ipc_recv k f)"
proof -
  note K = kinvD [OF assms]
  let ?dst = "tf_regs f ! 10" and ?cap = "unat (tf_regs f ! 11)" and ?t = "k_tasks k ! k_current k"
  obtain v where v: "cap_check k (k_current k) (unat (tf_regs f ! 9)) RIGHT_RECV = Some v"
    and ids: "\<And>i. v = CapOk i \<Longrightarrow> unat i < NUM_ENDPOINTS"
    using cap_check_total [OF assms] by blast
  have same: "step_ok pl k (k\<lparr>k_console := c\<rparr>) (set_a0 f code)" for c code
    using assms by (intro step_ok_same) simp_all
  show ?thesis
  proof (cases "\<exists>e. v = CapOk e")
    case False
    obtain c where "deny_cap (k_current k) v k = Some ((ring_push EV_CAP_DENIED (k_current k) k)\<lparr>k_console := c\<rparr>, cap_error_code v)"
      using deny_cap_eq [OF assms] by blast
    with False v K(6) denied_step [OF assms] show ?thesis by (cases v) (simp_all add: ipc_recv_def Let_def)
  next
    case True
    then obtain e where e: "v = CapOk e" by blast
    have get: "ep_get k e = Some (k_endpoints k ! unat e)" using ep_get_Some [OF K(10) ids [OF e]] .
    show ?thesis
    proof (cases "irq_pending_for k e (k_current k)")
      case (Some dev)
      show ?thesis
      proof (cases "?cap < 1 \<or> \<not> valid_user_buf ?dst 1")
        case True
        then show ?thesis using v e K(6) Some same by (auto simp: ipc_recv_def Let_def emit_console)
      next
        case False
        let ?k1 = "irq_route_set dev \<lparr>ir_receiver = k_current k, ir_pending = False\<rparr> k"
        have k1: "kinv pl ?k1 f" by (rule kinv_cong [OF assms]) (simp_all add: irq_route_set_def K(4))
        have "step_ok pl ?k1 (copy_bytes_to_user ?dst [IRQ_EVENT_CODE] ?k1) f"
          using copy_in_window [OF k1, of ?dst "[IRQ_EVENT_CODE]"] False
          by (simp add: copy_bytes_to_user_mem kinvD(11) [OF k1] valid_user_buf_iff)
        then have "step_ok pl k (copy_bytes_to_user ?dst [IRQ_EVENT_CODE] ?k1) f"
          by (rule step_ok_from) (simp_all add: irq_route_set_def)
        then have "step_ok pl k ((copy_bytes_to_user ?dst [IRQ_EVENT_CODE] ?k1)\<lparr>k_console := c\<rparr>) (set_a0 f 1)" for c
          by (simp add: step_ok_def mem_confined_def)
        then show ?thesis using v e K(6) Some False
          by (simp add: ipc_recv_def Let_def emit_irq_delivered_def put_strs_console)
      qed
    next
      case None
      show ?thesis
      proof (cases "k_endpoints k ! unat e")
        case EpIdle
        show ?thesis
        proof (cases "?cap > IPC_MSG_MAX \<or> \<not> valid_user_buf ?dst (min ?cap IPC_MSG_MAX)")
          case True
          then show ?thesis using v e K(6) None get EpIdle same by (auto simp: ipc_recv_def Let_def emit_console)
        next
          case False
          then have buf: "\<not> IPC_MSG_MAX < ?cap" "valid_user_buf ?dst ?cap" by (auto simp: min_def not_less)
          have "ipc_recv k f = block_and_switch (put_str (line ''IPC endpoint=log op=recv state=blocked'')
              (emit ''IPC recv task='' (t_name ?t) (ep_set e (ReceiverWaiting (k_current k) ?dst ?cap) k))) f"
            unfolding ipc_recv_def using v e K(6) None get EpIdle buf by (simp add: Let_def min_def)
          moreover have "returns (\<lambda>k' f' _. step_ok pl k k' f')
              (block_and_switch ((ep_set e (ReceiverWaiting (k_current k) ?dst ?cap) k)\<lparr>k_console := c\<rparr>) f)" for c
            using block_step [OF assms ids [OF e] EpIdle, of "ReceiverWaiting (k_current k) ?dst ?cap" f] buf K(4)
            by simp
          ultimately show ?thesis by (simp add: console_simps)
        qed
      next
        case (ReceiverWaiting tid d n)
        then show ?thesis using v e K(6) None get same by (auto simp: ipc_recv_def Let_def emit_console)
      next
        case (SenderWaiting tid len)
        show ?thesis
        proof (cases "len > ?cap \<or> \<not> valid_user_buf ?dst len")
          case True
          then show ?thesis using v e K(6) None get SenderWaiting same by (auto simp: ipc_recv_def Let_def emit_console)
        next
          case False
          let ?k1 = "k\<lparr>k_umem := (k_umem k)(k_satp_root k := upd_bytes ?dst (take len (k_kmsg k)) (k_umem k (k_satp_root k)))\<rparr>"
          let ?k2 = "?k1\<lparr>k_tasks := (k_tasks k)[tid := sent_by len (k_tasks k ! tid)], k_endpoints := (k_endpoints k)[unat e := EpIdle]\<rparr>"
          obtain c where run: "ipc_recv k f = Some (Ret (?k2\<lparr>k_console := c\<rparr>) (set_a0 f (of_nat len)) ())"
            using ipc_recv_from_sender [OF assms _ _ None SenderWaiting] v e False by (auto simp: not_less)
          have "length (take len (k_kmsg k)) = len" using False K(10) by (simp add: valid_user_buf_def shape_ok_def)
          then have k1: "step_ok pl k ?k1 f" using copy_in_window [OF assms, of ?dst "take len (k_kmsg k)"] False
            by (simp add: valid_user_buf_iff)
          then have "kinv pl ?k1 f" by (simp add: step_ok_def)
          moreover have "task_ok (sent_by len (k_tasks k ! tid))" "t_state (sent_by len (k_tasks k ! tid)) = RtReady"
            using waiter_facts(5,6) [OF assms ids [OF e], of tid] SenderWaiting by (simp_all add: sent_by_def task_ok_def)
          ultimately have "kinv pl ?k2 f"
            using wake_kinv [OF _ ids [OF e], of pl ?k1 f tid "sent_by len (k_tasks k ! tid)"] SenderWaiting by simp
          then have "step_ok pl k (?k2\<lparr>k_console := c\<rparr>) (set_a0 f (of_nat len))"
            by (intro step_ok_trans_tasks [OF k1]) simp_all
          then show ?thesis using run by simp
        qed
      qed
    qed
  qed
qed

section \<open>Contents of messages\<close>

lemma user_bytes_upd:
  assumes "unat va + length bs < 2 ^ 64"
  shows "user_bytes (upd_bytes va bs m) va (length bs) = bs"
proof (rule nth_equalityI)
  fix i assume i: "i < length (user_bytes (upd_bytes va bs m) va (length bs))"
  have "unat (va + of_nat i) = unat va + i"
    using assms i by (subst unat_plus_simple [THEN iffD1]) (auto simp: word_le_nat_alt unat_word_ariths unat_of_nat)
  then show "user_bytes (upd_bytes va bs m) va (length bs) ! i = bs ! i"
    using assms i by (simp add: user_bytes_def upd_bytes_nth)
qed simp

lemma user_bytes_window:
  "valid_user_buf va (length bs) \<Longrightarrow> user_bytes (upd_bytes va bs m) va (length bs) = bs"
  by (rule user_bytes_upd) (auto simp: valid_user_buf_iff)

lemma valid_user_buf_mono: "valid_user_buf va n \<Longrightarrow> m \<le> n \<Longrightarrow> valid_user_buf va m"
  by (auto simp: valid_user_buf_iff)

section \<open>Properties\<close>

text \<open>C17. A rendezvous delivers exactly the sender's bytes: when a task sends to an endpoint where a
  receiver with a large enough buffer waits, the call completes at once with the length as its
  result, the invariant is kept, and whenever the receiver is resumed, in whatever state the
  kernel is by then as long as its control block was left alone, its buffer holds the bytes the
  sender named and its result register holds their number.\<close>

theorem rendezvous_delivers_message:
  assumes "kinv pl k f" and "cap_check k (k_current k) (unat (tf_regs f ! 9)) RIGHT_SEND = Some (CapOk e)"
    and "tf_regs f ! 10 = buf" and "unat (tf_regs f ! 11) = len" and "len \<le> IPC_MSG_MAX" and "in_readable_window pl buf len"
    and "k_endpoints k ! unat e = ReceiverWaiting tid dst cap" and "len \<le> cap"
  shows "\<exists>k1. ipc_send pl k f = Some (Ret k1 (set_a0 f (of_nat len)) ()) \<and> kinv pl k1 f
    \<and> (\<forall>k2. kwf pl k2 \<and> k_tasks k2 ! tid = k_tasks k1 ! tid \<longrightarrow>
         (\<exists>k3 f3. resume_task tid k2 = Some (k3, f3) \<and> tf_regs f3 ! 9 = of_nat len
            \<and> user_bytes (k_umem k3 (t_satp_root (k_tasks k ! tid))) dst len = user_bytes (k_umem k (k_satp_root k)) buf len))"
proof -
  let ?bs = "user_bytes (k_umem k (k_satp_root k)) buf len" and ?t = "k_tasks k ! tid"
  have e: "unat e < NUM_ENDPOINTS" using cap_check_total [OF assms(1)] assms(2) by (metis option.inject)
  have W: "tid < MAX_TASKS" "task_ok ?t" using waiter_facts [OF assms(1) e] assms(7) by simp_all
  have len16: "length (k_tasks k) = MAX_TASKS" by (rule kinvD(8) [OF assms(1)])
  have "list_all ep_buf_ok (k_endpoints k)" "unat e < length (k_endpoints k)"
    using kinvD(1) [OF assms(1)] e by (simp_all add: kwf_def eps_ok_def shape_ok_def)
  then have "ep_buf_ok (k_endpoints k ! unat e)" by (simp add: list_all_length)
  then have dst: "valid_user_buf dst len" using assms(7,8) by (auto intro: valid_user_buf_mono)
  obtain c where send: "ipc_send pl k f = Some (Ret ((staged buf len k)\<lparr>k_tasks := (k_tasks k)[tid := delivered_to dst cap ?bs ?t],
       k_endpoints := (k_endpoints k)[unat e := EpIdle], k_console := c\<rparr>) (set_a0 f (of_nat len)) ())" (is "_ = Some (Ret ?k1 _ _)")
    using ipc_send_to_receiver [OF assms(1,2,4,3,5-7)] by blast
  have "kinv pl ?k1 f" using ipc_send_step [OF assms(1), of] send by (simp add: step_ok_def)
  moreover have "\<exists>k3 f3. resume_task tid k2 = Some (k3, f3) \<and> tf_regs f3 ! 9 = of_nat len
      \<and> user_bytes (k_umem k3 (t_satp_root ?t)) dst len = ?bs"
    if wf2: "kwf pl k2" and same: "k_tasks k2 ! tid = k_tasks ?k1 ! tid" for k2
  proof -
    have t2: "k_tasks k2 ! tid = delivered_to dst cap ?bs ?t" using same W(1) len16 by simp
    have pend: "delivered_to dst cap ?bs ?t = ?t\<lparr>t_pending_ipc := Some \<lparr>pm_dst = dst, pm_len = len,
        pm_data = ?bs @ replicate (IPC_MSG_MAX - len) 0\<rparr>, t_state := RtReady\<rparr>"
      using dst assms(8) by (simp add: delivered_to_def)
    obtain c' where r: "resume_task tid k2 = Some ((resumed tid k2)\<lparr>k_console := c'\<rparr>, resumed_frame (k_tasks k2 ! tid))"
      using resume_task_eq [OF wf2 W(1)] by blast
    have "k_umem (resumed tid k2) (t_satp_root ?t) = upd_bytes dst ?bs (k_umem k2 (t_satp_root ?t))"
      by (simp add: resumed_def Let_def t2 pend)
    then have "user_bytes (k_umem (resumed tid k2) (t_satp_root ?t)) dst len = ?bs"
      using user_bytes_window [of dst ?bs] dst by simp
    moreover have "length (tf_regs (t_frame ?t)) = 31" using W(2) by (simp add: task_ok_def user_frame_def)
    then have "tf_regs (resumed_frame (k_tasks k2 ! tid)) ! 9 = of_nat len"
      by (simp add: t2 pend resumed_frame_def set_a0_def)
    ultimately show ?thesis using r by simp
  qed
  ultimately show ?thesis using send by blast
qed

theorem rendezvous_delivers_message_witness:
  "\<exists>k1. ipc_send sample_platform sample_kernel (sample_frame\<lparr>tf_regs := (replicate 31 0)[10 := 0x200000, 11 := 3]\<rparr>)
     = Some (Ret k1 (set_a0 (sample_frame\<lparr>tf_regs := (replicate 31 0)[10 := 0x200000, 11 := 3]\<rparr>) 3) ())"
proof -
  let ?f = "sample_frame\<lparr>tf_regs := (replicate 31 0)[10 := 0x200000, 11 := 3]\<rparr>"
  have inv: "kinv sample_platform sample_kernel ?f"
    using sample_kinv by (simp add: kinv_def user_frame_def sample_frame_def is_from_user_def)
  have cap: "cap_check sample_kernel (k_current sample_kernel) (unat (tf_regs ?f ! 9)) RIGHT_SEND = Some (CapOk 0)"
    by (simp add: cap_check_def CAPS_PER_TASK_def task_at_def sample_nth sample_task_def rt_check_def cap_endpoint_def)
  have win: "in_readable_window sample_platform 0x200000 3"
    using in_stack_window_iff [of 3 "0x200000"] by (simp add: in_readable_window_def)
  have args: "tf_regs ?f ! 10 = 0x200000" "unat (tf_regs ?f ! 11) = 3" "(3 :: nat) \<le> IPC_MSG_MAX"
    "k_endpoints sample_kernel ! unat (0 :: u32) = ReceiverWaiting 1 0x200040 64" "(3 :: nat) \<le> 64"
    by (simp_all add: IPC_MSG_MAX_def)
  show ?thesis using rendezvous_delivers_message [OF inv cap args(1-3) win args(4,5)] by auto
qed

text \<open>C33. A waiting message can be replaced by a rejected one: while a sender waits, its bytes exist
  only in the one staging buffer of the kernel, and a send to a busy endpoint by any task with a
  send capability overwrites that buffer before it is rejected. When the rejected message is at least as
  long as the waiting one, the receiver that serves the
  waiting sender afterwards gets the bytes of the rejected call, and the waiting sender is told
  that its message was delivered.\<close>

theorem queued_message_overwritten:
  assumes "kinv pl k f" and "cap_check k (k_current k) (unat (tf_regs f ! 9)) RIGHT_SEND = Some (CapOk e)"
    and "tf_regs f ! 10 = buf" and "unat (tf_regs f ! 11) = len" and "len \<le> IPC_MSG_MAX" and "in_readable_window pl buf len"
    and "k_endpoints k ! unat e = SenderWaiting tid n" and "n \<le> len"
  shows "\<exists>k1. ipc_send pl k f = Some (Ret k1 (set_a0 f ERR_INVALID_ARG) ()) \<and> k_endpoints k1 = k_endpoints k
    \<and> (\<forall>k2 f2 dst. kinv pl k2 f2 \<and> k_kmsg k2 = k_kmsg k1 \<and> k_endpoints k2 = k_endpoints k1
          \<and> cap_check k2 (k_current k2) (unat (tf_regs f2 ! 9)) RIGHT_RECV = Some (CapOk e)
          \<and> irq_pending_for k2 e (k_current k2) = None \<and> tf_regs f2 ! 10 = dst \<and> n \<le> unat (tf_regs f2 ! 11) \<and> valid_user_buf dst n \<longrightarrow>
         (\<exists>k3. ipc_recv k2 f2 = Some (Ret k3 (set_a0 f2 (of_nat n)) ())
            \<and> user_bytes (k_umem k3 (k_satp_root k2)) dst n = take n (user_bytes (k_umem k (k_satp_root k)) buf len)
            \<and> t_state (k_tasks k3 ! tid) = RtReady \<and> tf_regs (t_frame (k_tasks k3 ! tid)) ! 9 = of_nat n))"
proof -
  note K = kinvD [OF assms(1)]
  let ?bs = "user_bytes (k_umem k (k_satp_root k)) buf len"
  have e: "unat e < NUM_ENDPOINTS" using cap_check_total [OF assms(1)] assms(2) by (metis option.inject)
  have get: "ep_get (staged buf len k) e = Some (SenderWaiting tid n)"
    using ep_get_Some [OF K(10) e] assms(7) by (simp add: ep_get_def split: if_splits)
  let ?k1 = "emit ''IPC_DENIED op=send reason=busy task='' (t_name (k_tasks k ! k_current k)) (staged buf len k)"
  have send: "ipc_send pl k f = Some (Ret ?k1 (set_a0 f ERR_INVALID_ARG) ())"
    using assms(5) by (simp add: ipc_send_def K(6) assms(2-4,6) staged_kinv(2) [OF assms(1,5)] get Let_def)
  have kmsg: "take n (k_kmsg ?k1) = take n ?bs" and eps: "k_endpoints ?k1 = k_endpoints k"
    using assms(8) by (simp_all add: emit_console staged_def)
  have "\<exists>k3. ipc_recv k2 f2 = Some (Ret k3 (set_a0 f2 (of_nat n)) ())
      \<and> user_bytes (k_umem k3 (k_satp_root k2)) dst n = take n ?bs
      \<and> t_state (k_tasks k3 ! tid) = RtReady \<and> tf_regs (t_frame (k_tasks k3 ! tid)) ! 9 = of_nat n"
    if inv: "kinv pl k2 f2" and m: "k_kmsg k2 = k_kmsg ?k1" and ep: "k_endpoints k2 = k_endpoints ?k1"
      and cap: "cap_check k2 (k_current k2) (unat (tf_regs f2 ! 9)) RIGHT_RECV = Some (CapOk e)"
      and irq: "irq_pending_for k2 e (k_current k2) = None" and args: "n \<le> unat (tf_regs f2 ! 11)" "tf_regs f2 ! 10 = dst" "valid_user_buf dst n"
    for k2 f2 dst
  proof -
    have w: "k_endpoints k2 ! unat e = SenderWaiting tid n" using ep eps assms(7) by simp
    have tid: "tid < length (k_tasks k2)" "length (tf_regs (t_frame (k_tasks k2 ! tid))) = 31"
      using waiter_facts(1,5) [OF inv e] w kinvD(8) [OF inv] by (simp_all add: task_ok_def user_frame_def)
    obtain c where r: "ipc_recv k2 f2 = Some (Ret (k2\<lparr>k_umem := (k_umem k2)(k_satp_root k2 :=
         upd_bytes dst (take n (k_kmsg k2)) (k_umem k2 (k_satp_root k2))),
       k_tasks := (k_tasks k2)[tid := sent_by n (k_tasks k2 ! tid)],
       k_endpoints := (k_endpoints k2)[unat e := EpIdle], k_console := c\<rparr>) (set_a0 f2 (of_nat n)) ())"
      using ipc_recv_from_sender [OF inv cap args(2) irq w args(1,3)] by blast
    have "length (take n ?bs) = n" using assms(8) by simp
    then have "user_bytes (upd_bytes dst (take n ?bs) (k_umem k2 (k_satp_root k2))) dst n = take n ?bs"
      using user_bytes_window [of dst "take n ?bs"] args(3) by simp
    then show ?thesis using r tid by (simp add: m kmsg sent_by_def set_a0_def)
  qed
  then show ?thesis using send eps by blast
qed

theorem queued_message_overwritten_witness:
  "\<exists>k1. ipc_send sample_platform (sample_kernel\<lparr>k_endpoints := SenderWaiting 1 2 # replicate 11 EpIdle\<rparr>)
         (sample_frame\<lparr>tf_regs := (replicate 31 0)[10 := 0x200000, 11 := 3]\<rparr>)
     = Some (Ret k1 (set_a0 (sample_frame\<lparr>tf_regs := (replicate 31 0)[10 := 0x200000, 11 := 3]\<rparr>) ERR_INVALID_ARG) ())"
proof -
  let ?f = "sample_frame\<lparr>tf_regs := (replicate 31 0)[10 := 0x200000, 11 := 3]\<rparr>"
  let ?k = "sample_kernel\<lparr>k_endpoints := SenderWaiting 1 2 # replicate 11 EpIdle\<rparr>"
  have "eps_ok (k_tasks ?k) (k_endpoints ?k)"
    by (auto simp: eps_ok_def nth_Cons' sample_nth sample_task_def list_all_length IPC_MSG_MAX_def split: if_splits)
  then have inv: "kinv sample_platform ?k ?f"
    using sample_kinv by (simp add: kinv_def kwf_def shape_ok_def services_ok_def sum_clear_def running_ok_def NUM_ENDPOINTS_def
        user_frame_def sample_frame_def is_from_user_def)
  have cap: "cap_check ?k (k_current ?k) (unat (tf_regs ?f ! 9)) RIGHT_SEND = Some (CapOk 0)"
    by (simp add: cap_check_def CAPS_PER_TASK_def task_at_def sample_nth sample_task_def rt_check_def cap_endpoint_def)
  have win: "in_readable_window sample_platform 0x200000 3"
    using in_stack_window_iff [of 3 "0x200000"] by (simp add: in_readable_window_def)
  have args: "tf_regs ?f ! 10 = 0x200000" "unat (tf_regs ?f ! 11) = 3" "(3 :: nat) \<le> IPC_MSG_MAX"
    "k_endpoints ?k ! unat (0 :: u32) = SenderWaiting 1 2" "(2 :: nat) \<le> 3"
    by (simp_all add: IPC_MSG_MAX_def)
  show ?thesis using queued_message_overwritten [OF inv cap args(1-3) win args(4,5)] by auto
qed

end
