(* ===== verification/Dispatch_Device.thy ===== *)
theory Dispatch_Device
  imports Dispatch_Ipc
begin

text \<open>
  Device objects on target (\<open>dispatch.rs\<close>): the device capability check, mediated register and
  DMA buffer access, synthetic interrupts and the grants a starting task receives. The bounds
  rule is \<open>access_in_bounds\<close> of theory \<open>Devices\<close>. The bounded output buffer \<open>InfoBuf\<close> stands
  here because \<open>sys_device_info\<close> is its first user.
\<close>

section \<open>Information buffer\<close>

definition INFO_MAX :: nat where "INFO_MAX = 768"

record info_buf =
  ib_buf :: "u8 list"
  ib_len :: nat

definition info_new :: info_buf where
  "info_new = \<lparr>ib_buf = replicate INFO_MAX 0, ib_len = 0\<rparr>"

definition push_byte :: "u8 \<Rightarrow> info_buf \<Rightarrow> info_buf" where
  "push_byte b out =
     (if ib_len out < INFO_MAX then out\<lparr>ib_buf := (ib_buf out)[ib_len out := b], ib_len := ib_len out + 1\<rparr> else out)"

definition push_str :: "string \<Rightarrow> info_buf \<Rightarrow> info_buf" where
  "push_str s out = fold push_byte (bytes s) out"

definition push_dec :: "u64 \<Rightarrow> info_buf \<Rightarrow> info_buf" where
  "push_dec v out = (if v = 0 then push_byte 48 out else fold push_byte (dec_loop v []) out)"

section \<open>Capability check\<close>

definition device_cap_check :: "kernel \<Rightarrow> nat \<Rightarrow> nat \<Rightarrow> u16 \<Rightarrow> cap_verdict option" where
  "device_cap_check k cur cap_index required =
     (if cap_index \<ge> CAPS_PER_TASK then Some CapInvalid
      else do {
        t \<leftarrow> task_at k cur;
        Some (rt_check (t_caps t ! cap_index)
          (\<lambda>c. if rc_otype c \<noteq> OTYPE_DEVICE then Some CapWrongType
               else if unat (rc_object_id c) \<ge> length DEVICES then Some CapInvalid
               else None) required)
      })"

definition deny_device_op :: "nat \<Rightarrow> string \<Rightarrow> string \<Rightarrow> kernel \<Rightarrow> kernel option" where
  "deny_device_op cur kind reason k =
     do {
       let k = ring_push EV_CAP_DENIED cur k;
       t \<leftarrow> task_at k cur;
       Some (put_strs [kind, '' task='', t_name t, '' reason='', reason, nl] k)
     }"

fun device_check_err :: "cap_verdict \<Rightarrow> u64 \<times> string" where
  "device_check_err CapInvalid = (ERR_INVALID_CAP, ''no_valid_capability'')"
| "device_check_err CapWrongType = (ERR_WRONG_OBJECT_TYPE, ''no_valid_capability'')"
| "device_check_err CapInsufficientRights = (ERR_INSUFFICIENT_RIGHTS, ''insufficient_rights'')"
| "device_check_err (CapOk _) = (ERR_INVALID_ARG, ''unexpected'')"

text \<open>The denial branch every device system call starts with.\<close>

definition deny_device :: "string \<Rightarrow> cap_verdict \<Rightarrow> kernel \<Rightarrow> trap_frame \<Rightarrow> unit outcome option" where
  "deny_device kind other k frame =
     (let (code, reason) = device_check_err other
      in do {
        k \<leftarrow> deny_device_op (k_current k) kind reason k;
        Some (Ret k (set_a0 frame code) ())
      })"

definition out_of_range :: "string \<Rightarrow> kernel \<Rightarrow> trap_frame \<Rightarrow> unit outcome option" where
  "out_of_range kind k frame =
     do {
       k \<leftarrow> deny_device_op (k_current k) kind ''out_of_range'' k;
       Some (Ret k (set_a0 frame ERR_INVALID_ARG) ())
     }"

section \<open>Registration and grants\<close>

definition register_devices :: "kernel \<Rightarrow> kernel" where
  "register_devices k =
     fold (\<lambda>d k. put_strs [''DEVICE registered='', dd_name d, '' kind='', dd_kind d, nl,
                   ''IRQ registered source='', dd_name d, '' endpoint='', dd_irq_name d, nl] k) DEVICES k"

definition announce_grant :: "nat \<Rightarrow> string \<Rightarrow> rt_cap option \<Rightarrow> kernel \<Rightarrow> kernel" where
  "announce_grant slot name entry k =
     (case entry of None \<Rightarrow> k
      | Some c \<Rightarrow>
        if rc_otype c = OTYPE_DEVICE \<and> unat (rc_object_id c) < length DEVICES then
          let dev = unat (rc_object_id c);
              d = DEVICES ! dev;
              k = (if rc_rights c AND DEV_RIGHT_IRQ_RECEIVE \<noteq> 0
                   then irq_route_set dev \<lparr>ir_receiver = slot, ir_pending = ir_pending (irq_route_at k dev)\<rparr> k
                   else k);
              k = (if rc_rights c AND (DEV_RIGHT_MMIO_READ OR DEV_RIGHT_MMIO_WRITE) \<noteq> 0
                   then put_strs [''MMIO grant task='', name, '' device='', dd_name d,
                          '' region='', dd_mmio_name d, nl] k
                   else k)
          in if rc_rights c AND (DEV_RIGHT_DMA_READ OR DEV_RIGHT_DMA_WRITE) \<noteq> 0
             then put_str nl (put_dec (dd_dma_size d) (put_strs [''DMA grant task='', name, '' buffer='',
                    dd_dma_name d, '' size=''] k))
             else k
        else k)"

definition announce_device_grants :: "nat \<Rightarrow> kernel \<Rightarrow> kernel option" where
  "announce_device_grants slot k =
     do {
       t \<leftarrow> task_at k slot;
       Some (fold (\<lambda>i. announce_grant slot (t_name t) (t_caps t ! i)) [0..<CAPS_PER_TASK] k)
     }"

section \<open>Interrupts\<close>

definition IRQ_PENDING :: u64 where "IRQ_PENDING = 1"

definition receiver_dead :: "kernel \<Rightarrow> nat \<Rightarrow> bool" where
  "receiver_dead k r \<longleftrightarrow>
     r \<ge> MAX_TASKS \<or> t_state (k_tasks k ! r) \<in> {RtFaulted, RtKilled, RtEmpty}"

definition irq_raise :: "nat \<Rightarrow> kernel \<Rightarrow> (kernel \<times> u64) option" where
  "irq_raise dev k =
     (let d = DEVICES ! dev; route = irq_route_at k dev
      in if receiver_dead k (ir_receiver route) then
           Some (put_str (line ''IRQ_DROPPED reason=driver_not_ready'')
                   (irq_route_set dev \<lparr>ir_receiver = ir_receiver route, ir_pending = False\<rparr> k), ERR_NO_SLOT)
         else do {
           e \<leftarrow> ep_get k (dd_irq_endpoint d);
           case e of
             ReceiverWaiting tid dst cap \<Rightarrow>
               if tid = ir_receiver route \<and> cap \<ge> 1 \<and> valid_user_buf dst 1 then
                 do {
                   t \<leftarrow> task_at k tid;
                   let k = set_pending tid (Some (event_msg dst IRQ_EVENT_CODE)) k;
                   let k = set_state tid RtReady k;
                   let k = ep_set (dd_irq_endpoint d) EpIdle k;
                   Some (emit_irq_delivered (t_name t) (dd_name d) k, 0)
                 }
               else Some (put_str (line ''IRQ_DROPPED reason=unauthorized_receiver'') k, ERR_NO_SLOT)
           | _ \<Rightarrow> Some (irq_route_set dev \<lparr>ir_receiver = ir_receiver route, ir_pending = True\<rparr> k, IRQ_PENDING)
         })"

definition sys_irq_raise :: "kernel \<Rightarrow> trap_frame \<Rightarrow> unit outcome option" where
  "sys_irq_raise k frame =
     do {
       check \<leftarrow> device_cap_check k (k_current k) (unat (tf_regs frame ! 9)) DEV_RIGHT_DRIVER_CONTROL;
       case check of
         CapOk did \<Rightarrow>
           do {
             (k, code) \<leftarrow> irq_raise (unat did) k;
             Some (Ret k (set_a0 frame code) ())
           }
       | other \<Rightarrow> deny_device ''IRQ_DENIED'' other k frame
     }"

section \<open>DMA buffer\<close>

definition dma_write :: "u64 \<Rightarrow> u64 \<Rightarrow> u64 \<Rightarrow> kernel \<Rightarrow> kernel" where
  "dma_write offset width value k =
     (let bs = (if width = 1 then le_bytes 1 value else if width = 2 then le_bytes 2 value else le_bytes 4 value);
          off = unat offset
      in k\<lparr>k_dma := take off (k_dma k) @ bs @ drop (off + length bs) (k_dma k)\<rparr>)"

definition dma_read :: "u64 \<Rightarrow> u64 \<Rightarrow> kernel \<Rightarrow> u64" where
  "dma_read offset width k =
     (let n = (if width = 1 then 1 else if width = 2 then 2 else 4)
      in from_le_bytes (take n (drop (unat offset) (k_dma k))))"

definition dma_access :: "u16 \<Rightarrow> bool \<Rightarrow> kernel \<Rightarrow> trap_frame \<Rightarrow> unit outcome option" where
  "dma_access required is_write k frame =
     do {
       let offset = tf_regs frame ! 10;
       let width = tf_regs frame ! 11;
       let value = tf_regs frame ! 12;
       check \<leftarrow> device_cap_check k (k_current k) (unat (tf_regs frame ! 9)) required;
       case check of
         CapOk did \<Rightarrow>
           (let d = DEVICES ! unat did
            in if \<not> access_in_bounds (dd_dma_size d) offset width then out_of_range ''DMA_DENIED'' k frame
               else if is_write then Some (Ret (dma_write offset width value k) (set_a0 frame 0) ())
               else Some (Ret k (set_a0 frame (dma_read offset width k)) ()))
       | other \<Rightarrow> deny_device ''DMA_DENIED'' other k frame
     }"

definition sys_dma_read :: "kernel \<Rightarrow> trap_frame \<Rightarrow> unit outcome option" where
  "sys_dma_read k frame = dma_access DEV_RIGHT_DMA_READ False k frame"

definition sys_dma_write :: "kernel \<Rightarrow> trap_frame \<Rightarrow> unit outcome option" where
  "sys_dma_write k frame = dma_access DEV_RIGHT_DMA_WRITE True k frame"

section \<open>Device information and registers\<close>

definition device_info_line :: "u32 \<Rightarrow> info_buf" where
  "device_info_line did =
     (let d = DEVICES ! unat did
      in push_str nl (push_dec (dd_dma_size d) (push_str '' dma_size='' (push_str (dd_dma_name d)
         (push_str '' dma='' (push_str (dd_irq_name d) (push_str '' irq='' (push_dec (dd_mmio_size d)
         (push_str '' mmio_size='' (push_str (dd_mmio_name d) (push_str '' mmio='' (push_str (dd_kind d)
         (push_str '' kind='' (push_str (dd_name d) (push_str '' name='' (push_dec (ucast did)
         (push_str ''device id='' info_new)))))))))))))))))"

definition sys_device_info :: "kernel \<Rightarrow> trap_frame \<Rightarrow> unit outcome option" where
  "sys_device_info k frame =
     do {
       let va = tf_regs frame ! 10;
       let mx = unat (tf_regs frame ! 11);
       check \<leftarrow> device_cap_check k (k_current k) (unat (tf_regs frame ! 9)) DEV_RIGHT_INFO;
       case check of
         CapOk did \<Rightarrow>
           if \<not> in_stack_window va (min mx INFO_MAX) then Some (Ret k (set_a0 frame ERR_INVALID_ARG) ())
           else let out = device_info_line did; n = min (ib_len out) mx
           in Some (Ret (copy_bytes_to_user va (take n (ib_buf out)) k) (set_a0 frame (of_nat n)) ())
       | other \<Rightarrow> deny_device ''DEVICE_DENIED'' other k frame
     }"

definition mmio_report :: "string \<Rightarrow> string \<Rightarrow> string \<Rightarrow> u64 \<Rightarrow> u64 \<Rightarrow> kernel \<Rightarrow> kernel" where
  "mmio_report op task dev offset value k =
     put_str nl (put_hex value (put_str '' value='' (put_dec offset
       (put_strs [op, task, '' device='', dev, '' offset=''] k))))"

definition sys_mmio_read :: "platform \<Rightarrow> kernel \<Rightarrow> trap_frame \<Rightarrow> unit outcome option" where
  "sys_mmio_read pl k frame =
     do {
       let offset = tf_regs frame ! 10;
       let width = tf_regs frame ! 11;
       check \<leftarrow> device_cap_check k (k_current k) (unat (tf_regs frame ! 9)) DEV_RIGHT_MMIO_READ;
       case check of
         CapOk did \<Rightarrow>
           (let d = DEVICES ! unat did
            in if \<not> access_in_bounds (dd_mmio_size d) offset width then out_of_range ''MMIO_DENIED'' k frame
               else do {
                 let addr = dd_mmio_base d + offset;
                 let value = (if width = 1 then ucast (pl_mmio8 pl (k_mmio k) addr)
                              else if width = 2 then ucast (pl_mmio16 pl (k_mmio k) addr)
                              else ucast (pl_mmio32 pl (k_mmio k) addr));
                 let k = k\<lparr>k_mmio := k_mmio k @ [MmioRead addr width]\<rparr>;
                 t \<leftarrow> task_at k (k_current k);
                 let k = mmio_report ''MMIO read task='' (t_name t) (dd_name d) offset value k;
                 Some (Ret k (set_a0 frame value) ())
               })
       | other \<Rightarrow> deny_device ''MMIO_DENIED'' other k frame
     }"

definition sys_mmio_write :: "kernel \<Rightarrow> trap_frame \<Rightarrow> unit outcome option" where
  "sys_mmio_write k frame =
     do {
       let offset = tf_regs frame ! 10;
       let width = tf_regs frame ! 11;
       let value = tf_regs frame ! 12;
       check \<leftarrow> device_cap_check k (k_current k) (unat (tf_regs frame ! 9)) DEV_RIGHT_MMIO_WRITE;
       case check of
         CapOk did \<Rightarrow>
           (let d = DEVICES ! unat did
            in if \<not> access_in_bounds (dd_mmio_size d) offset width then out_of_range ''MMIO_DENIED'' k frame
               else do {
                 let addr = dd_mmio_base d + offset;
                 let written = (if width = 1 then ucast (ucast value :: u8)
                                else if width = 2 then ucast (ucast value :: u16)
                                else ucast (ucast value :: u32));
                 let k = k\<lparr>k_mmio := k_mmio k @ [MmioWrite addr width written]\<rparr>;
                 t \<leftarrow> task_at k (k_current k);
                 let k = mmio_report ''MMIO write task='' (t_name t) (dd_name d) offset value k;
                 Some (Ret k (set_a0 frame 0) ())
               })
       | other \<Rightarrow> deny_device ''MMIO_DENIED'' other k frame
     }"

section \<open>The information buffer never overflows\<close>

definition ib_ok :: "info_buf \<Rightarrow> bool" where
  "ib_ok b \<longleftrightarrow> length (ib_buf b) = INFO_MAX \<and> ib_len b \<le> INFO_MAX"

lemma ib_ok_new [simp]: "ib_ok info_new"
  by (simp add: ib_ok_def info_new_def)

lemma ib_ok_push_byte [simp]: "ib_ok b \<Longrightarrow> ib_ok (push_byte c b)"
  by (simp add: ib_ok_def push_byte_def)

lemma ib_ok_fold: "(\<And>x b. ib_ok b \<Longrightarrow> ib_ok (g x b)) \<Longrightarrow> ib_ok b \<Longrightarrow> ib_ok (fold g xs b)"
  by (induction xs arbitrary: b) simp_all

lemma ib_ok_push [simp]: "ib_ok b \<Longrightarrow> ib_ok (push_str s b)" "ib_ok b \<Longrightarrow> ib_ok (push_dec v b)"
  by (simp_all add: push_str_def push_dec_def ib_ok_fold)

text \<open>The buffer holds the pushed bytes, cut off at its capacity.\<close>

definition ib_text :: "info_buf \<Rightarrow> u8 list" where
  "ib_text b = take (ib_len b) (ib_buf b)"

lemma ib_text_push_byte: "ib_ok b \<Longrightarrow> ib_text (push_byte c b) = take INFO_MAX (ib_text b @ [c])"
  by (auto simp: ib_ok_def push_byte_def ib_text_def take_Suc_conv_app_nth)

lemma ib_text_fold: "ib_ok b \<Longrightarrow> ib_text (fold push_byte cs b) = take INFO_MAX (ib_text b @ cs)"
proof (induction cs arbitrary: b)
  case Nil
  then show ?case by (simp add: ib_ok_def ib_text_def)
next
  case (Cons c cs)
  then show ?case
    by (cases "INFO_MAX - length (ib_text b)")
      (simp_all add: ib_text_push_byte take_append min_def diff_Suc)
qed

lemma ib_text_push:
  "ib_ok b \<Longrightarrow> ib_text (push_str s b) = take INFO_MAX (ib_text b @ bytes s)"
  "ib_ok b \<Longrightarrow> ib_text (push_dec v b) = take INFO_MAX (ib_text b @ bytes (dec_string (unat v)))"
  by (simp_all add: push_str_def ib_text_fold push_dec_def ib_text_push_byte dec_text_correct [symmetric] dec_text_def)

lemma copy_info_step:
  assumes "kinv pl k f" "in_stack_window va (min mx INFO_MAX)" "ib_ok out" "n = min (ib_len out) mx"
  shows "step_ok pl k (copy_bytes_to_user va (take n (ib_buf out)) k) (set_a0 f code)"
proof -
  have "0x200000 \<le> unat va" "unat va + min mx INFO_MAX \<le> 0x201000"
    using assms(2) in_stack_window_iff [of "min mx INFO_MAX" va] by (simp_all add: INFO_MAX_def)
  moreover have "length (take n (ib_buf out)) \<le> min mx INFO_MAX"
    using assms(3,4) by (simp add: ib_ok_def)
  ultimately have "0x200000 \<le> unat va" "unat va + length (take n (ib_buf out)) \<le> 0x201000"
    by linarith+
  then have "step_ok pl k (copy_bytes_to_user va (take n (ib_buf out)) k) f"
    using copy_in_window [OF assms(1), of va "take n (ib_buf out)"]
    by (simp add: copy_bytes_to_user_mem kinvD(11) [OF assms(1)])
  then show ?thesis by (simp add: step_ok_def)
qed

section \<open>Device system calls keep the invariant\<close>

lemma length_DEVICES [simp]: "length DEVICES = 2"
  by (simp add: DEVICES_def)

lemma device_cap_check_CapOk:
  "device_cap_check k cur ci r = Some (CapOk i) \<longleftrightarrow>
     (\<exists>t c. ci < CAPS_PER_TASK \<and> task_at k cur = Some t \<and> t_caps t ! ci = Some c \<and> rc_otype c = OTYPE_DEVICE
        \<and> rc_object_id c = i \<and> unat i < length DEVICES \<and> rc_rights c AND r = r)"
  by (auto simp: device_cap_check_def bind_eq_Some_conv rt_check_CapOk not_le split: if_splits)

lemma device_cap_check_total:
  assumes "kinv pl k f"
  shows "\<exists>v. device_cap_check k (k_current k) ci r = Some v \<and> (\<forall>i. v = CapOk i \<longrightarrow> unat i < length DEVICES)"
proof -
  have "device_cap_check k (k_current k) ci r \<noteq> None"
    using kinvD(6) [OF assms] by (simp add: device_cap_check_def)
  then obtain v where v: "device_cap_check k (k_current k) ci r = Some v" by blast
  moreover have "unat i < length DEVICES" if "v = CapOk i" for i
    using v that by (auto simp: device_cap_check_CapOk)
  ultimately show ?thesis by blast
qed

lemma deny_device_op_eq:
  assumes "kinv pl k f"
  shows "\<exists>c. deny_device_op (k_current k) kind reason k = Some ((ring_push EV_CAP_DENIED (k_current k) k)\<lparr>k_console := c\<rparr>)"
proof -
  have "task_at (ring_push EV_CAP_DENIED (k_current k) k) (k_current k) = Some (k_tasks k ! k_current k)"
    using kinvD(5,8) [OF assms] by (simp add: task_at_def)
  then show ?thesis by (simp add: deny_device_op_def Let_def put_strs_console) blast
qed

lemma deny_device_eq:
  assumes "kinv pl k f"
  shows "\<exists>c. deny_device kind v k f = Some (Ret ((ring_push EV_CAP_DENIED (k_current k) k)\<lparr>k_console := c\<rparr>)
      (set_a0 f (fst (device_check_err v))) ())"
  using deny_device_op_eq [OF assms, of kind "snd (device_check_err v)"] by (auto simp: deny_device_def split_beta)

lemma deny_device_step:
  assumes "kinv pl k f"
  shows "returns (\<lambda>k' f' _. step_ok pl k k' f') (deny_device kind v k f)"
    and "returns (\<lambda>k' f' _. step_ok pl k k' f') (out_of_range kind k f)"
proof -
  show "returns (\<lambda>k' f' _. step_ok pl k k' f') (deny_device kind v k f)"
    using deny_device_eq [OF assms, of kind v] denied_step [OF assms] by auto
  show "returns (\<lambda>k' f' _. step_ok pl k k' f') (out_of_range kind k f)"
    using deny_device_op_eq [OF assms, of kind "''out_of_range''"] denied_step [OF assms] by (auto simp: out_of_range_def)
qed

text \<open>The pattern of every device call: a check, then a body for the device that was named.\<close>

lemma device_call_step:
  assumes "kinv pl k f"
    and "\<And>d. device_cap_check k (k_current k) ci r = Some (CapOk d) \<Longrightarrow> unat d < length DEVICES \<Longrightarrow>
           returns (\<lambda>k' f' _. step_ok pl k k' f') (body d)"
  shows "returns (\<lambda>k' f' _. step_ok pl k k' f')
    (do { check \<leftarrow> device_cap_check k (k_current k) ci r;
          case check of CapOk d \<Rightarrow> body d | other \<Rightarrow> deny_device kind other k f })"
proof -
  obtain v where v: "device_cap_check k (k_current k) ci r = Some v" and ids: "\<And>i. v = CapOk i \<Longrightarrow> unat i < length DEVICES"
    using device_cap_check_total [OF assms(1)] by blast
  show ?thesis
    using v ids assms(2) deny_device_step(1) [OF assms(1)] by (cases v) simp_all
qed

lemma irq_raise_ok:
  assumes "kinv pl k f" "dev < length DEVICES"
  shows "\<exists>k' code. irq_raise dev k = Some (k', code) \<and> kinv pl k' f \<and> k_umem k' = k_umem k"
proof -
  note K = kinvD [OF assms(1)]
  let ?d = "DEVICES ! dev" and ?r = "irq_route_at k dev"
  have ep: "unat (dd_irq_endpoint ?d) < NUM_ENDPOINTS"
    using assms(2) by (auto simp: DEVICES_def NUM_ENDPOINTS_def less_Suc_eq)
  have route: "kinv pl (irq_route_set dev r k) f" for r
    by (rule kinv_cong [OF assms(1)]) (simp_all add: irq_route_set_def K(4))
  show ?thesis
  proof (cases "receiver_dead k (ir_receiver ?r)")
    case True
    then show ?thesis using route by (simp add: irq_raise_def Let_def put_str_console) (simp add: irq_route_set_def)
  next
    case alive: False
    have get: "ep_get k (dd_irq_endpoint ?d) = Some (k_endpoints k ! unat (dd_irq_endpoint ?d))"
      using ep_get_Some [OF K(10) ep] .
    show ?thesis
    proof (cases "k_endpoints k ! unat (dd_irq_endpoint ?d)")
      case (ReceiverWaiting tid dst cap)
      note W = waiter_facts [OF assms(1) ep, of tid]
      show ?thesis
      proof (cases "tid = ir_receiver ?r \<and> cap \<ge> 1 \<and> valid_user_buf dst 1")
        case True
        let ?t = "(k_tasks k ! tid)\<lparr>t_pending_ipc := Some (event_msg dst IRQ_EVENT_CODE), t_state := RtReady\<rparr>"
        let ?k1 = "ep_set (dd_irq_endpoint ?d) EpIdle (set_state tid RtReady (set_pending tid (Some (event_msg dst IRQ_EVENT_CODE)) k))"
        have "?k1 = k\<lparr>k_tasks := (k_tasks k)[tid := ?t], k_endpoints := (k_endpoints k)[unat (dd_irq_endpoint ?d) := EpIdle]\<rparr>"
          using W(1) ReceiverWaiting K(8) by (simp add: ep_set_def upd_task_def)
        moreover have "task_ok ?t" using W(5) ReceiverWaiting True by (simp add: task_ok_def event_msg_ok)
        ultimately have "kinv pl ?k1 f" using wake_kinv [OF assms(1) ep, of tid ?t] ReceiverWaiting by simp
        then show ?thesis using alive get ReceiverWaiting True W(4)
          by (simp add: irq_raise_def Let_def emit_irq_delivered_def put_strs_console) (simp add: ep_set_def)
      next
        case False
        then show ?thesis using alive get ReceiverWaiting assms(1) by (auto simp: irq_raise_def Let_def put_str_console)
      qed
    qed (use alive get route in \<open>simp_all add: irq_raise_def Let_def irq_route_set_def\<close>)
  qed
qed

lemma sys_irq_raise_step:
  assumes "kinv pl k f"
  shows "returns (\<lambda>k' f' _. step_ok pl k k' f') (sys_irq_raise k f)"
  unfolding sys_irq_raise_def
proof (rule device_call_step [OF assms])
  fix d assume "unat d < length DEVICES"
  then obtain k' code where "irq_raise (unat d) k = Some (k', code)" "kinv pl k' f" "k_umem k' = k_umem k"
    using irq_raise_ok [OF assms] by blast
  then show "returns (\<lambda>k' f' _. step_ok pl k k' f')
      (do { (k, code) \<leftarrow> irq_raise (unat d) k; Some (Ret k (set_a0 f code) ()) })"
    by (simp add: step_ok_same)
qed

lemma dma_size_bound: "i < length DEVICES \<Longrightarrow> unat (dd_dma_size (DEVICES ! i)) \<le> 4096"
  by (auto simp: DEVICES_def less_Suc_eq)

lemma dma_bound:
  assumes "unat d < length DEVICES" "access_in_bounds (dd_dma_size (DEVICES ! unat d)) off w"
  shows "unat off + unat w \<le> 4096 \<and> w \<in> {1, 2, 4}"
proof -
  have "unat off + unat w \<le> unat (dd_dma_size (DEVICES ! unat d))"
    using assms(2) by (simp only: access_in_bounds_iff)
  moreover have "w \<in> {1, 2, 4}" using assms(2) by (simp add: access_in_bounds_def)
  ultimately show ?thesis using dma_size_bound [OF assms(1)] by simp
qed

lemma dma_write_length:
  assumes "length (k_dma k) = 4096" "unat off + unat w \<le> 4096" "w \<in> {1, 2, 4}"
  shows "length (k_dma (dma_write off w v k)) = 4096"
  using assms by (auto simp: dma_write_def Let_def)

lemma dma_access_step:
  assumes "kinv pl k f"
  shows "returns (\<lambda>k' f' _. step_ok pl k k' f') (dma_access required is_write k f)"
  unfolding dma_access_def Let_def
proof (rule device_call_step [OF assms])
  fix d assume d: "unat d < length DEVICES"
  let ?off = "tf_regs f ! 10" and ?w = "tf_regs f ! 11"
  show "returns (\<lambda>k' f' _. step_ok pl k k' f')
      (if \<not> access_in_bounds (dd_dma_size (DEVICES ! unat d)) ?off ?w then out_of_range ''DMA_DENIED'' k f
       else if is_write then Some (Ret (dma_write ?off ?w (tf_regs f ! 12) k) (set_a0 f 0) ())
       else Some (Ret k (set_a0 f (dma_read ?off ?w k)) ()))"
  proof (cases "access_in_bounds (dd_dma_size (DEVICES ! unat d)) ?off ?w")
    case False
    then show ?thesis using deny_device_step(2) [OF assms] by simp
  next
    case True
    have "length (k_dma k) = 4096" using kinvD(10) [OF assms] by (simp add: shape_ok_def)
    then have "length (k_dma (dma_write ?off ?w v k)) = length (k_dma k)" for v
      using dma_bound [OF d True] dma_write_length by simp
    then have "kinv pl (dma_write ?off ?w v k) f" for v
      by (intro kinv_cong [OF assms]) (simp_all add: kinvD(4) [OF assms], simp_all add: dma_write_def Let_def)
    then show ?thesis using True assms by (simp add: step_ok_same) (simp add: step_ok_same dma_write_def Let_def)
  qed
qed

lemma ib_ok_device_info [simp]: "ib_ok (device_info_line d)"
  by (simp add: device_info_line_def Let_def)

lemma sys_device_info_step:
  assumes "kinv pl k f"
  shows "returns (\<lambda>k' f' _. step_ok pl k k' f') (sys_device_info k f)"
  unfolding sys_device_info_def Let_def
  by (rule device_call_step [OF assms]) (simp add: copy_info_step [OF assms] step_ok_same assms)

lemma mmio_report_console: "\<exists>c. mmio_report op t d off v k = k\<lparr>k_console := c\<rparr>"
  by (simp add: mmio_report_def console_simps) blast

lemma mmio_log_step:
  assumes "kinv pl k f"
  shows "step_ok pl k (mmio_report op t d off v (k\<lparr>k_mmio := l\<rparr>)) (set_a0 f code)"
proof -
  have "kinv pl (k\<lparr>k_mmio := l\<rparr>) f" by (rule kinv_cong [OF assms]) (simp_all add: kinvD(4) [OF assms])
  then show ?thesis
    using mmio_report_console [of op t d off v "k\<lparr>k_mmio := l\<rparr>"] by (auto intro!: step_ok_same)
qed

lemma sys_mmio_step:
  assumes "kinv pl k f"
  shows "returns (\<lambda>k' f' _. step_ok pl k k' f') (sys_mmio_read pl k f)"
    and "returns (\<lambda>k' f' _. step_ok pl k k' f') (sys_mmio_write k f)"
proof -
  have at: "task_at (k\<lparr>k_mmio := l\<rparr>) (k_current k) = Some (k_tasks k ! k_current k)" for l
    using kinvD(5,8) [OF assms] by (simp add: task_at_def)
  show "returns (\<lambda>k' f' _. step_ok pl k k' f') (sys_mmio_read pl k f)"
    unfolding sys_mmio_read_def Let_def
    by (rule device_call_step [OF assms]) (simp add: at mmio_log_step [OF assms] deny_device_step(2) [OF assms])
  show "returns (\<lambda>k' f' _. step_ok pl k k' f') (sys_mmio_write k f)"
    unfolding sys_mmio_write_def Let_def
    by (rule device_call_step [OF assms]) (simp add: at mmio_log_step [OF assms] deny_device_step(2) [OF assms])
qed

lemma device_cap_check_cong: "k_tasks k' = k_tasks k \<Longrightarrow> device_cap_check k' cur ci r = device_cap_check k cur ci r"
  unfolding device_cap_check_def task_at_def by simp

section \<open>Contents of the DMA buffer\<close>

lemma from_le_bytes_take_bit: "from_le_bytes (le_bytes n w) = take_bit (8 * n) (w :: u64)"
  by (rule bit_word_eqI) (simp add: bit_from_le_bytes_le_bytes bit_take_bit_iff)

lemma dma_write_eq:
  assumes "w \<in> {1, 2, 4}"
  shows "dma_write off w v k = k\<lparr>k_dma := take (unat off) (k_dma k) @ le_bytes (unat w) v @ drop (unat off + unat w) (k_dma k)\<rparr>"
  using assms by (auto simp: dma_write_def Let_def)

lemma dma_read_eq:
  assumes "w \<in> {1, 2, 4}"
  shows "dma_read off w k = from_le_bytes (take (unat w) (drop (unat off) (k_dma k)))"
  using assms by (auto simp: dma_read_def Let_def)

lemma dma_read_write:
  assumes "unat off + unat w \<le> length (k_dma k)" "w \<in> {1, 2, 4}"
  shows "dma_read off w (dma_write off w v k) = take_bit (8 * unat w) v"
  using assms(1) by (simp add: dma_read_eq [OF assms(2)] dma_write_eq [OF assms(2)] from_le_bytes_take_bit)

section \<open>Properties\<close>

text \<open>DMA accesses of a driver round trip: with a capability that carries both DMA rights and an
  aligned offset inside the buffer, a write succeeds, keeps the invariant, changes no byte outside
  the named range, and a following read of the same range returns the value truncated to the
  access width.\<close>

theorem dma_round_trip:
  assumes "kinv pl k f"
    and "device_cap_check k (k_current k) (unat (tf_regs f ! 9)) (DEV_RIGHT_DMA_READ OR DEV_RIGHT_DMA_WRITE) = Some (CapOk d)"
    and "access_in_bounds (dd_dma_size (DEVICES ! unat d)) (tf_regs f ! 10) (tf_regs f ! 11)"
  shows "\<exists>k'. sys_dma_write k f = Some (Ret k' (set_a0 f 0) ()) \<and> kinv pl k' f
    \<and> (\<forall>j<4096. j < unat (tf_regs f ! 10) \<or> unat (tf_regs f ! 10) + unat (tf_regs f ! 11) \<le> j \<longrightarrow> k_dma k' ! j = k_dma k ! j)
    \<and> sys_dma_read k' f = Some (Ret k' (set_a0 f (take_bit (8 * unat (tf_regs f ! 11)) (tf_regs f ! 12))) ())"
proof -
  let ?off = "tf_regs f ! 10" and ?w = "tf_regs f ! 11" and ?v = "tf_regs f ! 12"
  let ?k' = "dma_write ?off ?w ?v k"
  have part: "rc AND (DEV_RIGHT_DMA_READ OR DEV_RIGHT_DMA_WRITE) = DEV_RIGHT_DMA_READ OR DEV_RIGHT_DMA_WRITE \<Longrightarrow>
      rc AND DEV_RIGHT_DMA_READ = DEV_RIGHT_DMA_READ \<and> rc AND DEV_RIGHT_DMA_WRITE = DEV_RIGHT_DMA_WRITE" for rc :: u16
    unfolding word_and_eq_iff_subset by (auto simp: bit_or_iff)
  have d: "device_cap_check k (k_current k) (unat (tf_regs f ! 9)) DEV_RIGHT_DMA_READ = Some (CapOk d)"
      "device_cap_check k (k_current k) (unat (tf_regs f ! 9)) DEV_RIGHT_DMA_WRITE = Some (CapOk d)" "unat d < length DEVICES"
    using assms(2) part unfolding device_cap_check_CapOk by blast+
  have b: "unat ?off + unat ?w \<le> 4096" "?w \<in> {1, 2, 4}" using dma_bound [OF d(3) assms(3)] by simp_all
  have len: "length (k_dma k) = 4096" using kinvD(10) [OF assms(1)] by (simp add: shape_ok_def)
  have k': "?k' = k\<lparr>k_dma := take (unat ?off) (k_dma k) @ le_bytes (unat ?w) ?v @ drop (unat ?off + unat ?w) (k_dma k)\<rparr>"
    by (rule dma_write_eq [OF b(2)])
  have "sys_dma_write k f = Some (Ret ?k' (set_a0 f 0) ())"
    using d(2) assms(3) by (simp add: sys_dma_write_def dma_access_def Let_def)
  moreover have "kinv pl ?k' f"
    using b(1) len by (intro kinv_cong [OF assms(1)]) (simp_all add: k' kinvD(4) [OF assms(1)])
  moreover have "k_dma ?k' ! j = k_dma k ! j" if "j < 4096" "j < unat ?off \<or> unat ?off + unat ?w \<le> j" for j
    using that b(1) len by (auto simp: k' nth_append)
  moreover have "device_cap_check ?k' (k_current ?k') (unat (tf_regs f ! 9)) DEV_RIGHT_DMA_READ = Some (CapOk d)"
    using d(1) device_cap_check_cong [of ?k' k] by (simp add: k')
  then have "sys_dma_read ?k' f = Some (Ret ?k' (set_a0 f (take_bit (8 * unat ?w) ?v)) ())"
    using assms(3) dma_read_write [of ?off ?w k ?v] b len by (simp add: sys_dma_read_def dma_access_def Let_def)
  ultimately show ?thesis by blast
qed

theorem dma_round_trip_witness:
  "\<exists>k k'. k_tasks k = (k_tasks sample_kernel)[0 := sample_task ''driver'' RtRunning 2 0x80300000
        [Some (cap_device 0 (DEV_RIGHT_DMA_READ OR DEV_RIGHT_DMA_WRITE))]]
     \<and> sys_dma_write k (sample_frame\<lparr>tf_regs := (replicate 31 0)[10 := 8, 11 := 2, 12 := 0x12345]\<rparr>) =
          Some (Ret k' (set_a0 (sample_frame\<lparr>tf_regs := (replicate 31 0)[10 := 8, 11 := 2, 12 := 0x12345]\<rparr>) 0) ())"
proof -
  let ?f = "sample_frame\<lparr>tf_regs := (replicate 31 0)[10 := 8, 11 := 2, 12 := 0x12345]\<rparr>"
  let ?t = "sample_task ''driver'' RtRunning 2 0x80300000 [Some (cap_device 0 (DEV_RIGHT_DMA_READ OR DEV_RIGHT_DMA_WRITE))]"
  let ?k = "sample_kernel\<lparr>k_tasks := (k_tasks sample_kernel)[0 := ?t]\<rparr>"
  have t: "task_ok ?t"
    by (rule sample_task_ok) (simp add: caps_ok_def sample_task_def CAPS_PER_TASK_def cap_device_def OTYPE_DEVICE_def OTYPE_ENDPOINT_def
        list_all_iff)
  have f: "user_frame ?f" by (simp add: user_frame_def sample_frame_def is_from_user_def)
  have "kwf sample_platform ?k"
  proof (rule wf_change [OF kinvD(1) [OF sample_kinv], of 0 _ ?t])
    show "eps_ok ((k_tasks sample_kernel)[0 := ?t]) (k_endpoints ?k)"
      using kinvD(1,7) [OF sample_kinv] by (simp add: kwf_def eps_ok_not_blocked)
  qed (use t in \<open>simp_all add: MAX_TASKS_def sample_task_def\<close>)
  moreover have "running_ok ?k"
    using kinvD(2) [OF sample_kinv] by (auto simp: running_ok_def nth_list_update sample_task_def)
  ultimately have inv: "kinv sample_platform ?k ?f" using f by (simp add: kinv_def)
  have cap: "device_cap_check ?k (k_current ?k) (unat (tf_regs ?f ! 9)) (DEV_RIGHT_DMA_READ OR DEV_RIGHT_DMA_WRITE) = Some (CapOk 0)"
    by (simp add: device_cap_check_def CAPS_PER_TASK_def task_at_def sample_task_def rt_check_def cap_device_def DEVICES_def)
  have "access_in_bounds (dd_dma_size (DEVICES ! unat (0 :: u32))) (tf_regs ?f ! 10) (tf_regs ?f ! 11)"
    by (simp add: access_in_bounds_def DEVICES_def is_multiple_of_def checked_add_def)
  then obtain k' where "sys_dma_write ?k ?f = Some (Ret k' (set_a0 ?f 0) ())"
    using dma_round_trip [OF inv cap] by blast
  then show ?thesis by (intro exI [of _ ?k] exI [of _ k'] conjI) simp_all
qed

end
