(* ===== verification/Dispatch_Os.thy ===== *)
theory Dispatch_Os
  imports Dispatch_Device
begin

text \<open>
  Operating system calls of the dispatcher (\<open>dispatch.rs\<close>): starting, killing and restarting
  tasks from the boot-frozen service table, console bytes, the recovery acknowledgement,
  read-only introspection and shutdown.
\<close>

section \<open>Starting and re-arming tasks\<close>

text \<open>A terminated task is re-armed with its initial frame and its unchanged capabilities.\<close>

definition rearm :: "nat \<Rightarrow> kernel \<Rightarrow> kernel" where
  "rearm slot k =
     (let t = k_tasks k ! slot;
          k = set_frame slot (fresh_user_frame k (t_entry_va t) (t_stack_top_va t)) k;
          k = set_pending slot None k;
          k = ep_clear_for_task slot k
      in set_state slot RtReady k)"

definition start_service :: "platform \<Rightarrow> nat \<Rightarrow> kernel \<Rightarrow> (kernel \<times> u64) option" where
  "start_service pl index k =
     (case k_service_table k of None \<Rightarrow> Some (k, ERR_INVALID_ARG)
      | Some table \<Rightarrow>
        if \<not> index < length table then Some (k, ERR_INVALID_ARG)
        else do {
          let sd = table ! index;
          t \<leftarrow> task_at k (sv_slot sd);
          let started = (\<lambda>k. Some (emit ''SERVICE started='' (sv_name sd) (ring_push EV_STARTED (sv_slot sd) k),
                                   of_nat (sv_slot sd)));
          case t_state t of
            RtEmpty \<Rightarrow>
              do {
                (tabs, uas) \<leftarrow> build_service_address_space (pl_link pl) (k_user_tables k) (sv_slot sd)
                                 (sv_entry sd) (sv_stack_phys sd);
                let k = k\<lparr>k_user_tables := tabs\<rparr>;
                k \<leftarrow> register_task (sv_slot sd) (sv_name sd) (sv_prio sd) (pa_u64 (uas_root uas))
                       (uas_entry_va uas) (uas_stack_top_va uas) k;
                let k = upd_task (sv_slot sd) (\<lambda>t. t\<lparr>t_caps := sv_caps sd\<rparr>) k;
                k \<leftarrow> announce_device_grants (sv_slot sd) k;
                started k
              }
          | RtKilled \<Rightarrow> started (rearm (sv_slot sd) k)
          | RtFaulted \<Rightarrow> started (rearm (sv_slot sd) k)
          | _ \<Rightarrow> Some (k, ERR_NO_SLOT)
        })"

text \<open>The authority test the calls without a capability index start with.\<close>

definition with_authority ::
  "u8 \<Rightarrow> u16 \<Rightarrow> string \<Rightarrow> kernel \<Rightarrow> trap_frame \<Rightarrow> unit outcome option \<Rightarrow> unit outcome option" where
  "with_authority otype required what k frame body =
     do {
       ok \<leftarrow> cap_find k (k_current k) otype required;
       if \<not> ok then
         do {
           (k, code) \<leftarrow> deny_authority (k_current k) what k;
           Some (Ret k (set_a0 frame code) ())
         }
       else body
     }"

definition sys_task_start :: "platform \<Rightarrow> kernel \<Rightarrow> trap_frame \<Rightarrow> unit outcome option" where
  "sys_task_start pl k frame =
     with_authority OTYPE_CONTROL RIGHT_CONTROL ''no_control_capability'' k frame
       (do {
          (k, code) \<leftarrow> start_service pl (unat (tf_regs frame ! 9)) k;
          Some (Ret k (set_a0 frame code) ())
        })"

text \<open>The terminal steps of a kill, in the order of the code.\<close>

definition kill_task :: "nat \<Rightarrow> kernel \<Rightarrow> kernel" where
  "kill_task slot k =
     (let k = set_state slot RtKilled k;
          k = set_pending slot None k;
          k = ep_clear_for_task slot k;
          k = irq_drop_for_task slot k;
          k = ring_push EV_KILLED slot k
      in emit ''TASK_KILLED task='' (t_name (k_tasks k ! slot)) k)"

definition sys_task_kill :: "kernel \<Rightarrow> trap_frame \<Rightarrow> unit outcome option" where
  "sys_task_kill k frame =
     with_authority OTYPE_CONTROL RIGHT_CONTROL ''no_control_capability'' k frame
       (let cur = k_current k; slot = unat (tf_regs frame ! 9)
        in if slot \<ge> MAX_TASKS \<or> t_state (k_tasks k ! slot) = RtEmpty
           then Some (Ret k (set_a0 frame ERR_INVALID_ARG) ())
           else if slot = cur then schedule_next cur idle_lines () (kill_task slot k)
           else Some (Ret (kill_task slot k) (set_a0 frame 0) ()))"

definition sys_task_restart :: "kernel \<Rightarrow> trap_frame \<Rightarrow> unit outcome option" where
  "sys_task_restart k frame =
     with_authority OTYPE_CONTROL RIGHT_CONTROL ''no_control_capability'' k frame
       (let cur = k_current k; slot = unat (tf_regs frame ! 9)
        in if slot \<ge> MAX_TASKS \<or> slot = cur \<or> t_state (k_tasks k ! slot) = RtEmpty
              \<or> t_entry_va (k_tasks k ! slot) = 0
           then Some (Ret k (set_a0 frame ERR_INVALID_ARG) ())
           else
             let k = rearm slot k;
                 k = ring_push EV_RESTARTED slot k;
                 k = emit ''TASK_RESTARTED task='' (t_name (k_tasks k ! slot)) k
             in Some (Ret k (set_a0 frame 0) ()))"

definition sys_shutdown :: "kernel \<Rightarrow> trap_frame \<Rightarrow> unit outcome option" where
  "sys_shutdown k frame =
     with_authority OTYPE_CONTROL RIGHT_CONTROL ''no_control_capability'' k frame
       (do {
          t \<leftarrow> task_at k (k_current k);
          Some (PowerOff (put_strs [''SHUTDOWN controlled=true by='', t_name t, nl] k))
        })"

section \<open>Recovery acknowledgement\<close>

definition fault_ack :: "kernel \<Rightarrow> trap_frame \<Rightarrow> unit outcome option" where
  "fault_ack k frame =
     do {
       t \<leftarrow> task_at k (k_current k);
       let decision = tf_regs frame ! 10;
       let policy = (if decision = 2 then ''Kill'' else if decision = 1 then ''Restart'' else ''Escalate'');
       let k = put_strs [''SUPERVISOR decision='', policy, '' by='', t_name t, nl,
                 ''RECOVERY_APPLIED policy='', policy, nl] k;
       let k = ring_push EV_RECOVERY (k_current k) k;
       Some (Ret k (set_a0 frame 0) ())
     }"

section \<open>Console\<close>

definition CON_WRITE_MAX :: nat where "CON_WRITE_MAX = 256"

definition con_write_loop :: "u64 \<Rightarrow> nat \<Rightarrow> kernel \<Rightarrow> kernel" where
  "con_write_loop va len k =
     fold (\<lambda>i k. let b = user_read k (va + of_nat i) in put_byte b (if b = 10 then put_byte 13 k else k)) [0..<len] k"

definition sys_con_write :: "platform \<Rightarrow> kernel \<Rightarrow> trap_frame \<Rightarrow> unit outcome option" where
  "sys_con_write pl k frame =
     with_authority OTYPE_CONSOLE RIGHT_SEND ''no_console_write_capability'' k frame
       (let va = tf_regs frame ! 9; len = unat (tf_regs frame ! 10)
        in if len > CON_WRITE_MAX \<or> \<not> in_readable_window pl va len
           then Some (Ret k (set_a0 frame ERR_INVALID_ARG) ())
           else Some (Ret (clear_sum (con_write_loop va len (set_sum k))) (set_a0 frame (of_nat len)) ()))"

fun con_read_loop :: "nat \<Rightarrow> u64 \<Rightarrow> nat \<Rightarrow> kernel \<Rightarrow> kernel \<times> nat" where
  "con_read_loop 0 va n k = (k, n)"
| "con_read_loop (Suc m) va n k =
     (case get_byte k of
        (None, k) \<Rightarrow> (k, n)
      | (Some b, k) \<Rightarrow> con_read_loop m va (n + 1) (user_write (va + of_nat n) b k))"

definition sys_con_read :: "kernel \<Rightarrow> trap_frame \<Rightarrow> unit outcome option" where
  "sys_con_read k frame =
     with_authority OTYPE_CONSOLE RIGHT_RECV ''no_console_read_capability'' k frame
       (let va = tf_regs frame ! 9; mx = min (unat (tf_regs frame ! 10)) IPC_MSG_MAX
        in if \<not> in_stack_window va mx then Some (Ret k (set_a0 frame ERR_INVALID_ARG) ())
           else let (k, n) = con_read_loop mx va 0 (set_sum k)
           in Some (Ret (clear_sum k) (set_a0 frame (of_nat n)) ()))"

section \<open>Introspection\<close>

definition ev_name :: "u8 \<Rightarrow> string" where
  "ev_name kind =
     (if kind = EV_STARTED then ''task_started'' else if kind = EV_EXITED then ''task_exited''
      else if kind = EV_FAULT then ''fault'' else if kind = EV_CAP_DENIED then ''cap_denied''
      else if kind = EV_RECOVERY then ''recovery_applied'' else if kind = EV_KILLED then ''task_killed''
      else if kind = EV_RESTARTED then ''task_restarted'' else ''unknown'')"

fun state_name :: "rt_state \<Rightarrow> string" where
  "state_name RtEmpty = ''empty''"
| "state_name RtReady = ''ready''"
| "state_name RtRunning = ''running''"
| "state_name RtBlocked = ''blocked''"
| "state_name RtFaulted = ''faulted''"
| "state_name RtKilled = ''killed''"

definition info_tasks :: "kernel \<Rightarrow> info_buf \<Rightarrow> info_buf" where
  "info_tasks k out =
     fold (\<lambda>(i, t) out.
        if t_state t = RtEmpty then out
        else push_str nl (push_str (state_name (t_state t)) (push_str '' state='' (push_dec (ucast (t_prio t))
             (push_str '' prio='' (push_str (t_name t) (push_str '' name='' (push_dec (of_nat i)
             (push_str ''task idx='' out)))))))))
       (List.enumerate 0 (k_tasks k)) out"

fun info_ring_loop :: "nat list \<Rightarrow> bool \<Rightarrow> kernel \<Rightarrow> info_buf \<Rightarrow> info_buf option" where
  "info_ring_loop [] only_faults k out = Some out"
| "info_ring_loop (idx # rest) only_faults k out =
     (let (kind, slot) = k_ring k ! idx
      in if only_faults \<and> kind \<noteq> EV_FAULT \<and> kind \<noteq> EV_CAP_DENIED then info_ring_loop rest only_faults k out
         else do {
           t \<leftarrow> task_at k (unat slot);
           let out = push_str nl (push_str (if t_name t = '''' then ''?'' else t_name t)
                       (push_str '' task='' (push_str (ev_name kind) (push_str ''evt kind='' out))));
           info_ring_loop rest only_faults k out
         })"

definition info_ring :: "bool \<Rightarrow> kernel \<Rightarrow> info_buf \<Rightarrow> info_buf option" where
  "info_ring only_faults k out =
     (let head = unat (k_ring_head k); cnt = min head RING_LEN
      in info_ring_loop (map (\<lambda>j. (head - cnt + j) mod RING_LEN) [0..<cnt]) only_faults k out)"

fun ep_state_name :: "ep \<Rightarrow> string" where
  "ep_state_name EpIdle = ''idle''"
| "ep_state_name (SenderWaiting _ _) = ''sender_waiting''"
| "ep_state_name (ReceiverWaiting _ _ _) = ''receiver_waiting''"

definition info_ipc :: "kernel \<Rightarrow> info_buf \<Rightarrow> info_buf" where
  "info_ipc k out =
     (let out = fold (\<lambda>i out. push_str nl (push_str (ep_state_name (k_endpoints k ! i))
            (push_str '' state='' (push_dec (of_nat i) (push_str ''ep id='' out))))) [0..<NUM_ENDPOINTS] out
      in push_str nl (push_dec (k_delivered k) (push_str ''deferred_deliveries='' out)))"

definition otype_name :: "u8 \<Rightarrow> string" where
  "otype_name ty =
     (if ty = OTYPE_ENDPOINT then '' endpoint'' else if ty = OTYPE_CONSOLE then '' console''
      else if ty = OTYPE_CONTROL then '' control'' else if ty = OTYPE_INFO then '' info''
      else if ty = OTYPE_DEVICE then '' device'' else '' ?'')"

definition info_caps :: "kernel \<Rightarrow> info_buf \<Rightarrow> info_buf" where
  "info_caps k out =
     fold (\<lambda>t out.
        if t_state t = RtEmpty then out
        else push_str nl (fold (\<lambda>c. push_str (otype_name (rc_otype c))) (flatten (t_caps t))
               (push_str (t_name t) (push_str ''caps task='' out))))
       (k_tasks k) out"

definition info_memory :: "info_buf \<Rightarrow> info_buf" where
  "info_memory out =
     push_str (line ''user_stack_va=0x200000 stack_pages=1'') (push_str (line ''user_region_va=0x10000'')
       (push_str (line ''kernel_base=0x80200000'') (push_str (line ''mmu=sv39 kernel_pages=U0 wxorx=true'') out)))"

text \<open>The text of one kind of request; \<open>Some None\<close> is the rejected request.\<close>

definition info_text :: "u64 \<Rightarrow> nat \<Rightarrow> kernel \<Rightarrow> info_buf option option" where
  "info_text kind slot k =
     (if kind = 0 then Some (Some (info_tasks k info_new))
      else if kind = 1 then map_option Some (info_ring True k info_new)
      else if kind = 2 then Some (Some (info_ipc k info_new))
      else if kind = 3 then Some (Some (info_caps k info_new))
      else if kind = 4 then Some (Some (info_memory info_new))
      else if kind = 5 then Some (Some (push_str (line '' tick_interval=100000 timebase_hz=10000000'')
             (push_dec (k_ticks k) (push_str ''uptime ticks='' info_new))))
      else if kind = 6 then map_option Some (info_ring False k info_new)
      else if kind = 7 then
        if slot \<ge> MAX_TASKS then Some None
        else Some (Some (push_str (state_name (t_state (k_tasks k ! slot))) info_new))
      else Some None)"

definition sys_info :: "kernel \<Rightarrow> trap_frame \<Rightarrow> unit outcome option" where
  "sys_info k frame =
     with_authority OTYPE_INFO RIGHT_RECV ''no_info_capability'' k frame
       (let kind = tf_regs frame ! 9; va = tf_regs frame ! 10; mx = unat (tf_regs frame ! 11)
        in if \<not> in_stack_window va (min mx INFO_MAX) then Some (Ret k (set_a0 frame ERR_INVALID_ARG) ())
           else do {
             r \<leftarrow> info_text kind (unat (tf_regs frame ! 12)) k;
             case r of
               None \<Rightarrow> Some (Ret k (set_a0 frame ERR_INVALID_ARG) ())
             | Some out \<Rightarrow>
                 let n = min (ib_len out) mx
                 in Some (Ret (copy_bytes_to_user va (take n (ib_buf out)) k) (set_a0 frame (of_nat n)) ())
           })"

section \<open>Task control keeps the invariant\<close>

lemma fresh_frame_ok [simp]: "user_frame (fresh_user_frame k e s)"
proof -
  have "(k_sstatus k AND NOT SSTATUS_SPP OR SSTATUS_SPIE) AND SSTATUS_SPP = 0"
  proof (rule bit_word_eqI)
    fix n assume "n < LENGTH(64)"
    have f: "bit SSTATUS_SPP n \<longleftrightarrow> n = 8" unfolding SSTATUS_SPP_def by (rule bit_flag) simp
    have g: "bit SSTATUS_SPIE n \<longleftrightarrow> n = 5" unfolding SSTATUS_SPIE_def by (rule bit_flag) simp
    show "bit ((k_sstatus k AND NOT SSTATUS_SPP OR SSTATUS_SPIE) AND SSTATUS_SPP) n = bit (0 :: u64) n"
      unfolding bit_and_iff bit_or_iff bit_not_iff f g by auto
  qed
  then show ?thesis by (simp add: user_frame_def fresh_user_frame_def is_from_user_def new_user_def)
qed

text \<open>One task is given a new control block and stops waiting.\<close>

definition unwaited :: "nat \<Rightarrow> tcb \<Rightarrow> kernel \<Rightarrow> kernel" where
  "unwaited slot t k = k\<lparr>k_tasks := (k_tasks k)[slot := t],
     k_endpoints := map (\<lambda>e. if ep_waiter e = Some slot then EpIdle else e) (k_endpoints k)\<rparr>"

lemma unwaited_ok:
  assumes "kinv pl k f" "slot < MAX_TASKS" "task_ok t" "t_state t \<notin> {RtRunning, RtEmpty}"
  shows "kwf pl (unwaited slot t k)" "slot \<noteq> k_current k \<Longrightarrow> kinv pl (unwaited slot t k) f"
    "slot = k_current k \<Longrightarrow> idle_ok (unwaited slot t k)"
proof -
  note K = kinvD [OF assms(1)]
  show wf: "kwf pl (unwaited slot t k)"
  proof (rule wf_change [OF K(1) assms(2) _ assms(3)])
    show "eps_ok ((k_tasks k)[slot := t]) (k_endpoints (unwaited slot t k))"
      using K(1) by (simp add: unwaited_def kwf_def eps_ok_clear)
  qed (use assms(4) in \<open>simp_all add: unwaited_def\<close>)
  show "kinv pl (unwaited slot t k) f" if "slot \<noteq> k_current k"
    using wf K that assms(2,4) by (auto simp: kinv_def running_ok_def unwaited_def nth_list_update)
  show "idle_ok (unwaited slot t k)" if "slot = k_current k"
    using K(2) that assms(4) by (auto simp: idle_ok_def running_ok_def unwaited_def nth_list_update)
qed

lemma rearm_eq:
  "slot < length (k_tasks k) \<Longrightarrow> rearm slot k = unwaited slot ((k_tasks k ! slot)\<lparr>
     t_frame := fresh_user_frame k (t_entry_va (k_tasks k ! slot)) (t_stack_top_va (k_tasks k ! slot)),
     t_pending_ipc := None, t_state := RtReady\<rparr>) k"
  by (simp add: rearm_def Let_def ep_clear_for_task_def upd_task_def unwaited_def)

lemma rearm_ok:
  assumes "kinv pl k f" "slot < MAX_TASKS" "slot \<noteq> k_current k"
  shows "kinv pl (rearm slot k) f" "k_umem (rearm slot k) = k_umem k" "k_satp_root (rearm slot k) = k_satp_root k"
proof -
  have len: "slot < length (k_tasks k)" using assms(2) kinvD(8) [OF assms(1)] by simp
  have "task_ok (k_tasks k ! slot)" using wf_task_ok [OF kinvD(1) [OF assms(1)] assms(2)] .
  then show "kinv pl (rearm slot k) f"
    unfolding rearm_eq [OF len] by (intro unwaited_ok(2) [OF assms(1,2) _ _ assms(3)]) (simp_all add: task_ok_def)
qed (simp_all add: rearm_def Let_def ep_clear_for_task_def)

definition routes_only :: "kernel \<Rightarrow> kernel \<Rightarrow> bool" where
  "routes_only k k' \<longleftrightarrow> k' = k\<lparr>k_irq_routes := k_irq_routes k', k_console := k_console k'\<rparr>
     \<and> length (k_irq_routes k') = length (k_irq_routes k)"

lemma routes_only_iff:
  "routes_only k k' \<longleftrightarrow> (\<exists>r c. k' = k\<lparr>k_irq_routes := r, k_console := c\<rparr> \<and> length r = length (k_irq_routes k))"
proof
  show "routes_only k k' \<Longrightarrow> \<exists>r c. k' = k\<lparr>k_irq_routes := r, k_console := c\<rparr> \<and> length r = length (k_irq_routes k)"
    unfolding routes_only_def by blast
qed (auto simp: routes_only_def)

lemma routes_only_trans: "routes_only k k1 \<Longrightarrow> routes_only k1 k2 \<Longrightarrow> routes_only k k2"
  unfolding routes_only_iff by fastforce

lemma announce_grant_routes: "routes_only k (announce_grant slot name entry k)"
  by (cases entry) (simp_all add: routes_only_def announce_grant_def Let_def console_simps irq_route_set_def)

lemma announce_fold_routes: "routes_only k (fold (\<lambda>i. announce_grant slot name (cs ! i)) is k)"
proof (induction "is" arbitrary: k)
  case Nil
  show ?case by (simp add: routes_only_def)
next
  case (Cons i "is")
  show ?case using routes_only_trans [OF announce_grant_routes Cons.IH] by simp
qed

lemma routes_only_kinv:
  assumes "kinv pl k f" "routes_only k k'"
  shows "kinv pl k' f" "k_umem k' = k_umem k" "k_satp_root k' = k_satp_root k"
proof -
  obtain r c where k': "k' = k\<lparr>k_irq_routes := r, k_console := c\<rparr>" "length r = length (k_irq_routes k)"
    using assms(2) unfolding routes_only_iff by blast
  show "kinv pl k' f" using kinvD(4) [OF assms(1)] k'(2) by (intro kinv_cong [OF assms(1)]) (simp_all add: k'(1))
  show "k_umem k' = k_umem k" "k_satp_root k' = k_satp_root k" by (simp_all add: k'(1))
qed

text \<open>The control block of a service that starts for the first time.\<close>

definition service_tcb :: "kernel \<Rightarrow> service_def \<Rightarrow> user_address_space \<Rightarrow> tcb" where
  "service_tcb k sd uas =
     \<lparr>t_state = RtReady, t_prio = sv_prio sd, t_satp_root = pa_u64 (uas_root uas),
      t_frame = fresh_user_frame k (uas_entry_va uas) (uas_stack_top_va uas), t_pending_ipc = None,
      t_caps = sv_caps sd, t_name = sv_name sd, t_entry_va = uas_entry_va uas, t_stack_top_va = uas_stack_top_va uas\<rparr>"

lemma first_start_kinv:
  assumes "kinv pl k f" "slot < MAX_TASKS" "t_state (k_tasks k ! slot) = RtEmpty" "task_ok t" "t_state t = RtReady"
    and "slot < length (k_user_tables k)"
  shows "kinv pl (k\<lparr>k_user_tables := (k_user_tables k)[slot := ts], k_tasks := (k_tasks k)[slot := t]\<rparr>) f" (is "kinv pl ?k f")
proof -
  note K = kinvD [OF assms(1)]
  have "services_ok pl ?k"
    using K(1,8) assms(2,5) by (auto simp: kwf_def services_ok_def service_ok_def list_all_iff nth_list_update)
  moreover have "eps_ok (k_tasks ?k) (k_endpoints ?k)"
    using K(1) assms(3) by (simp add: kwf_def eps_ok_not_blocked)
  ultimately have "kwf pl ?k"
    using K(1) assms(4) by (simp add: kwf_def shape_ok_def sum_clear_def list_all_update)
  moreover have "slot \<noteq> k_current k" using K(7) assms(3) by auto
  then have "running_ok ?k"
    using K(2,8) assms(2,5) by (auto simp: running_ok_def nth_list_update split: if_splits)
  ultimately show ?thesis using K by (simp add: kinv_def)
qed

lemma start_service_ok:
  assumes "kinv pl k f"
  shows "\<exists>k' code. start_service pl index k = Some (k', code) \<and> kinv pl k' f \<and> k_umem k' = k_umem k"
proof -
  note K = kinvD [OF assms]
  have started: "\<exists>k' code. Some (emit ''SERVICE started='' n (ring_push EV_STARTED i k1), of_nat i) = Some (k', code :: u64)
      \<and> kinv pl k' f \<and> k_umem k' = k_umem k" if "kinv pl k1 f" "k_umem k1 = k_umem k" "i < MAX_TASKS" for k1 n i
    using that kinv_ring_push [OF that(1,3)] by (simp add: emit_console)
  show ?thesis
  proof (cases "\<exists>table. k_service_table k = Some table \<and> index < length table")
    case False
    then show ?thesis using assms by (auto simp: start_service_def split: option.splits)
  next
    case True
    then obtain table where table: "k_service_table k = Some table" "index < length table" by blast
    define sd where "sd = table ! index"
    have sd: "service_ok pl (k_tasks k) (k_user_tables k) sd"
      using K(1) table by (simp add: kwf_def services_ok_def list_all_length sd_def)
    then have slot: "sv_slot sd < MAX_TASKS" and caps: "caps_ok (sv_caps sd)" by (simp_all add: service_ok_def)
    let ?t = "k_tasks k ! sv_slot sd"
    have at: "task_at k (sv_slot sd) = Some ?t" using task_at_Some [OF K(10) slot] .
    have neq: "sv_slot sd \<noteq> k_current k" if "t_state ?t \<noteq> RtRunning" using that K(7) by auto
    show ?thesis
    proof (cases "t_state ?t")
      case RtEmpty
      have lens: "length (k_user_tables k) = MAX_USER_AS" using K(10) by (simp add: shape_ok_def)
      have idx: "sv_slot sd < MAX_USER_AS" using slot by (simp add: MAX_TASKS_def MAX_USER_AS_def)
      obtain ts uas where b: "build_service_address_space (pl_link pl) (k_user_tables k) (sv_slot sd) (sv_entry sd) (sv_stack_phys sd)
          = Some ((k_user_tables k)[sv_slot sd := ts], uas)"
        using sd RtEmpty idx by (auto simp: service_ok_def build_service_address_space_def)
      let ?k1 = "k\<lparr>k_user_tables := (k_user_tables k)[sv_slot sd := ts], k_tasks := (k_tasks k)[sv_slot sd := service_tcb k sd uas]\<rparr>"
      have k1: "kinv pl ?k1 f"
        using first_start_kinv [OF assms slot RtEmpty, of "service_tcb k sd uas"] caps idx lens
        by (simp add: task_ok_def service_tcb_def)
      define k2 where "k2 = fold (\<lambda>i. announce_grant (sv_slot sd) (sv_name sd) (sv_caps sd ! i)) [0..<CAPS_PER_TASK] ?k1"
      have "routes_only ?k1 k2" unfolding k2_def by (rule announce_fold_routes)
      note k2 = routes_only_kinv [OF k1 this]
      have "start_service pl index k = Some (emit ''SERVICE started='' (sv_name sd) (ring_push EV_STARTED (sv_slot sd) k2), of_nat (sv_slot sd))"
        using table at RtEmpty b slot K(8)
        by (simp add: start_service_def Let_def sd_def [symmetric] register_task_def upd_task_def announce_device_grants_def
            task_at_def k2_def service_tcb_def fresh_user_frame_def)
      then show ?thesis using started [OF k2(1) _ slot] k2(2) by simp
    next
      case RtKilled
      then show ?thesis using started [OF rearm_ok(1,2) [OF assms slot neq] slot] table at
        by (simp add: start_service_def Let_def sd_def [symmetric])
    next
      case RtFaulted
      then show ?thesis using started [OF rearm_ok(1,2) [OF assms slot neq] slot] table at
        by (simp add: start_service_def Let_def sd_def [symmetric])
    qed (use table at assms in \<open>simp_all add: start_service_def Let_def sd_def [symmetric]\<close>)
  qed
qed

lemma cap_find_Some: "kinv pl k f \<Longrightarrow> \<exists>b. cap_find k (k_current k) ty r = Some b"
  using kinvD(6) [of pl k f] by (simp add: cap_find_def)

lemma deny_authority_eq:
  assumes "kinv pl k f"
  shows "\<exists>c. deny_authority (k_current k) what k =
     Some ((ring_push EV_CAP_DENIED (k_current k) k)\<lparr>k_console := c\<rparr>, ERR_INVALID_CAP)"
proof -
  have "task_at (ring_push EV_CAP_DENIED (k_current k) k) (k_current k) = Some (k_tasks k ! k_current k)"
    using kinvD(5,8) [OF assms] by (simp add: task_at_def)
  then show ?thesis by (simp add: deny_authority_def Let_def put_strs_console) blast
qed

lemma with_authority_step:
  assumes "kinv pl k f" "returns (\<lambda>k' f' _. step_ok pl k k' f') body"
  shows "returns (\<lambda>k' f' _. step_ok pl k k' f') (with_authority ty r what k f body)"
proof -
  obtain b where b: "cap_find k (k_current k) ty r = Some b" using cap_find_Some [OF assms(1)] by blast
  show ?thesis
  proof (cases b)
    case True
    then show ?thesis using b assms(2) by (simp add: with_authority_def)
  next
    case False
    then show ?thesis using b deny_authority_eq [OF assms(1), of what] denied_step [OF assms(1)]
      by (auto simp: with_authority_def)
  qed
qed

lemma sys_task_start_step:
  assumes "kinv pl k f"
  shows "returns (\<lambda>k' f' _. step_ok pl k k' f') (sys_task_start pl k f)"
  unfolding sys_task_start_def
proof (rule with_authority_step [OF assms])
  show "returns (\<lambda>k' f' _. step_ok pl k k' f')
      (do { (k, code) \<leftarrow> start_service pl (unat (tf_regs f ! 9)) k; Some (Ret k (set_a0 f code) ()) })"
    using start_service_ok [OF assms, of "unat (tf_regs f ! 9)"] by (auto simp: step_ok_same)
qed

lemma kill_task_eq:
  assumes "kinv pl k f" "slot < MAX_TASKS"
  shows "\<exists>c. kill_task slot k = (ring_push EV_KILLED slot
      ((unwaited slot ((k_tasks k ! slot)\<lparr>t_state := RtKilled, t_pending_ipc := None\<rparr>) k)
         \<lparr>k_irq_routes := map (dropped_route slot) (k_irq_routes k)\<rparr>))\<lparr>k_console := c\<rparr>"
proof -
  note K = kinvD [OF assms(1)]
  let ?u = "unwaited slot ((k_tasks k ! slot)\<lparr>t_state := RtKilled, t_pending_ipc := None\<rparr>) k"
  have u: "ep_clear_for_task slot (set_pending slot None (set_state slot RtKilled k)) = ?u"
    using assms(2) K(8) by (simp add: ep_clear_for_task_def upd_task_def unwaited_def)
  obtain c where "irq_drop_for_task slot ?u = ?u\<lparr>k_irq_routes := map (dropped_route slot) (k_irq_routes ?u), k_console := c\<rparr>"
    using irq_drop_eq [of ?u slot] K(12) by (auto simp: unwaited_def)
  then show ?thesis by (simp add: kill_task_def Let_def u emit_console) (simp add: ring_push_def unwaited_def, blast)
qed

lemma kill_task_ok:
  assumes "kinv pl k f" "slot < MAX_TASKS"
  shows "kwf pl (kill_task slot k)" "slot \<noteq> k_current k \<Longrightarrow> kinv pl (kill_task slot k) f"
    "slot = k_current k \<Longrightarrow> idle_ok (kill_task slot k)" "k_active (kill_task slot k)"
    "k_umem (kill_task slot k) = k_umem k" "k_satp_root (kill_task slot k) = k_satp_root k"
proof -
  let ?t = "(k_tasks k ! slot)\<lparr>t_state := RtKilled, t_pending_ipc := None\<rparr>"
  let ?u = "(unwaited slot ?t k)\<lparr>k_irq_routes := map (dropped_route slot) (k_irq_routes k)\<rparr>"
  have "task_ok (k_tasks k ! slot)" using wf_task_ok [OF kinvD(1) [OF assms(1)] assms(2)] .
  then have t: "task_ok ?t" "t_state ?t \<notin> {RtRunning, RtEmpty}" by (simp_all add: task_ok_def)
  have wf: "kwf pl ?u"
    by (rule wf_cong [OF unwaited_ok(1) [OF assms t]]) (simp_all add: unwaited_def)
  have inv: "kinv pl ?u f" if "slot \<noteq> k_current k"
    by (rule kinv_cong [OF unwaited_ok(2) [OF assms t that]]) (simp_all add: unwaited_def kinvD(4) [OF assms(1)])
  have idle: "idle_ok ?u" if "slot = k_current k"
    using unwaited_ok(3) [OF assms t that] by (simp add: idle_ok_def)
  obtain c where eq: "kill_task slot k = (ring_push EV_KILLED slot ?u)\<lparr>k_console := c\<rparr>"
    using kill_task_eq [OF assms] by blast
  show "kwf pl (kill_task slot k)" using wf_ring_push [OF wf assms(2)] by (simp add: eq)
  show "kinv pl (kill_task slot k) f" if "slot \<noteq> k_current k"
    using kinv_ring_push [OF inv [OF that] assms(2)] by (simp add: eq)
  show "idle_ok (kill_task slot k)" if "slot = k_current k"
    using idle [OF that] by (simp add: eq idle_ok_def)
  show "k_active (kill_task slot k)" "k_umem (kill_task slot k) = k_umem k" "k_satp_root (kill_task slot k) = k_satp_root k"
    using kinvD(3) [OF assms(1)] by (simp_all add: eq unwaited_def)
qed

lemma sys_task_kill_step:
  assumes "kinv pl k f"
  shows "returns (\<lambda>k' f' _. step_ok pl k k' f') (sys_task_kill k f)"
  unfolding sys_task_kill_def
proof (rule with_authority_step [OF assms])
  define slot where "slot = unat (tf_regs f ! 9)"
  note D = kill_task_ok [OF assms, of slot]
  have bad: "step_ok pl k k (set_a0 f c)" for c using assms by (simp add: step_ok_same)
  have "returns (\<lambda>k' f' _. step_ok pl (kill_task slot k) k' f') (schedule_next slot idle_lines () (kill_task slot k))"
    if "slot = k_current k" "slot < MAX_TASKS"
    by (rule returns_mono [OF schedule_next_step [OF D(1,3,4) that(2)]]) (use that in simp_all)
  then have self: "returns (\<lambda>k' f' _. step_ok pl k k' f') (schedule_next slot idle_lines () (kill_task slot k))"
    if "slot = k_current k" "slot < MAX_TASKS" using that D(5,6) by (auto intro: returns_from)
  show "returns (\<lambda>k' f' _. step_ok pl k k' f')
     (let cur = k_current k; slot = unat (tf_regs f ! 9)
      in if slot \<ge> MAX_TASKS \<or> t_state (k_tasks k ! slot) = RtEmpty then Some (Ret k (set_a0 f ERR_INVALID_ARG) ())
         else if slot = cur then schedule_next cur idle_lines () (kill_task slot k)
         else Some (Ret (kill_task slot k) (set_a0 f 0) ()))"
    unfolding Let_def slot_def [symmetric] using bad self D(2,5) by (auto simp: step_ok_same)
qed

lemma sys_task_restart_step:
  assumes "kinv pl k f"
  shows "returns (\<lambda>k' f' _. step_ok pl k k' f') (sys_task_restart k f)"
  unfolding sys_task_restart_def
proof (rule with_authority_step [OF assms])
  define slot where "slot = unat (tf_regs f ! 9)"
  have bad: "step_ok pl k k (set_a0 f c)" for c using assms by (simp add: step_ok_same)
  have "step_ok pl k (emit a b (ring_push EV_RESTARTED slot (rearm slot k))) (set_a0 f c)"
    if "slot < MAX_TASKS" "slot \<noteq> k_current k" for a b c
    using kinv_ring_push [OF rearm_ok(1) [OF assms that] that(1)] rearm_ok(2) [OF assms that]
    by (simp add: step_ok_same emit_console)
  with bad show "returns (\<lambda>k' f' _. step_ok pl k k' f')
     (let cur = k_current k; slot = unat (tf_regs f ! 9)
      in if slot \<ge> MAX_TASKS \<or> slot = cur \<or> t_state (k_tasks k ! slot) = RtEmpty \<or> t_entry_va (k_tasks k ! slot) = 0
         then Some (Ret k (set_a0 f ERR_INVALID_ARG) ())
         else let k = rearm slot k; k = ring_push EV_RESTARTED slot k;
                  k = emit ''TASK_RESTARTED task='' (t_name (k_tasks k ! slot)) k
              in Some (Ret k (set_a0 f 0) ()))"
    unfolding Let_def slot_def [symmetric] by simp
qed

lemma sys_shutdown_step:
  assumes "kinv pl k f"
  shows "returns (\<lambda>k' f' _. step_ok pl k k' f') (sys_shutdown k f)"
  unfolding sys_shutdown_def by (rule with_authority_step [OF assms]) (simp add: kinvD(6) [OF assms])

lemma fault_ack_step:
  assumes "kinv pl k f"
  shows "returns (\<lambda>k' f' _. step_ok pl k k' f') (fault_ack k f)"
proof -
  have "kinv pl (ring_push EV_RECOVERY (k_current k) (k\<lparr>k_console := c\<rparr>)) f" for c
    using kinv_ring_push [of pl "k\<lparr>k_console := c\<rparr>" f "k_current k"] assms kinvD(5) [OF assms] by simp
  then show ?thesis using kinvD(6) [OF assms] by (simp add: fault_ack_def Let_def put_strs_console step_ok_same)
qed

section \<open>Console and introspection keep the invariant\<close>

definition crlf_bytes :: "u8 list \<Rightarrow> u8 list" where
  "crlf_bytes bs = concat (map (\<lambda>b. if b = 10 then [13, 10] else [b]) bs)"

lemma con_write_loop_eq:
  "con_write_loop va len k = k\<lparr>k_console := k_console k @ crlf_bytes (user_bytes (k_umem k (k_satp_root k)) va len)\<rparr>"
proof -
  have "fold (\<lambda>i k. let b = user_read k (va + of_nat i) in put_byte b (if b = 10 then put_byte 13 k else k)) js k
      = k\<lparr>k_console := k_console k @ crlf_bytes (map (\<lambda>i. k_umem k (k_satp_root k) (va + of_nat i)) js)\<rparr>" for js k
    by (induction js arbitrary: k) (simp_all add: crlf_bytes_def user_read_def put_byte_def Let_def)
  then show ?thesis by (simp add: con_write_loop_def user_bytes_def)
qed

lemma sys_con_write_eq:
  assumes "kinv pl k f" "cap_find k (k_current k) OTYPE_CONSOLE RIGHT_SEND = Some True"
    and "unat (tf_regs f ! 10) \<le> CON_WRITE_MAX" "in_readable_window pl (tf_regs f ! 9) (unat (tf_regs f ! 10))"
  shows "sys_con_write pl k f = Some (Ret (k\<lparr>k_console := k_console k @ crlf_bytes
     (user_bytes (k_umem k (k_satp_root k)) (tf_regs f ! 9) (unat (tf_regs f ! 10)))\<rparr>) (set_a0 f (tf_regs f ! 10)) ())"
  using assms kinvD(11) [OF assms(1)]
  by (simp add: sys_con_write_def with_authority_def Let_def con_write_loop_eq clear_sum_def set_sum_def sum_roundtrip)

lemma sys_con_write_step:
  assumes "kinv pl k f"
  shows "returns (\<lambda>k' f' _. step_ok pl k k' f') (sys_con_write pl k f)"
  unfolding sys_con_write_def
proof (rule with_authority_step [OF assms])
  have "clear_sum (con_write_loop va len (set_sum k)) = k\<lparr>k_console :=
      k_console k @ crlf_bytes (user_bytes (k_umem k (k_satp_root k)) va len)\<rparr>" for va len
    using kinvD(11) [OF assms] by (simp add: con_write_loop_eq clear_sum_def set_sum_def sum_roundtrip)
  then show "returns (\<lambda>k' f' _. step_ok pl k k' f')
     (let va = tf_regs f ! 9; len = unat (tf_regs f ! 10)
      in if len > CON_WRITE_MAX \<or> \<not> in_readable_window pl va len then Some (Ret k (set_a0 f ERR_INVALID_ARG) ())
         else Some (Ret (clear_sum (con_write_loop va len (set_sum k))) (set_a0 f (of_nat len)) ()))"
    using assms by (simp add: Let_def step_ok_same)
qed

lemma con_read_loop_eq:
  "con_read_loop m va n k = (k\<lparr>k_input := drop m (k_input k), k_umem := (k_umem k)(k_satp_root k :=
     upd_bytes (va + of_nat n) (take m (k_input k)) (k_umem k (k_satp_root k)))\<rparr>, n + length (take m (k_input k)))"
proof (induction m arbitrary: n k)
  case (Suc m)
  show ?case
  proof (cases "k_input k")
    case Nil
    then show ?thesis by (simp add: get_byte_def)
  next
    case (Cons b bs)
    then show ?thesis
      using Suc
      by (simp add: get_byte_def user_write_def ac_simps fun_upd_same del: fun_upd_apply)
  qed
qed simp

lemma sys_con_read_step:
  assumes "kinv pl k f"
  shows "returns (\<lambda>k' f' _. step_ok pl k k' f') (sys_con_read k f)"
  unfolding sys_con_read_def
proof (rule with_authority_step [OF assms])
  have sum: "sum_clear k" by (rule kinvD(11) [OF assms])
  have "step_ok pl k (clear_sum (fst (con_read_loop m va 0 (set_sum k)))) (set_a0 f c)" if "in_stack_window va m" "m \<le> 128" for va m c
  proof -
    let ?bs = "take m (k_input k)"
    have "0x200000 \<le> unat va" "unat va + length ?bs \<le> 0x201000"
      using that in_stack_window_iff [of m va] by (simp_all add: min_def)
    then have 1: "step_ok pl k (k\<lparr>k_umem := (k_umem k)(k_satp_root k := upd_bytes va ?bs (k_umem k (k_satp_root k)))\<rparr>) f" (is "step_ok pl k ?k1 f")
      by (rule copy_in_window [OF assms])
    then have "kinv pl ?k1 f" by (simp add: step_ok_def)
    then have "kinv pl (?k1\<lparr>k_input := drop m (k_input k)\<rparr>) f"
      using kinvD(4) [OF assms] by (elim kinv_cong) simp_all
    then have "step_ok pl k (?k1\<lparr>k_input := drop m (k_input k)\<rparr>) f"
      by (rule step_ok_trans_tasks [OF 1]) simp_all
    moreover have "clear_sum (fst (con_read_loop m va 0 (set_sum k))) = ?k1\<lparr>k_input := drop m (k_input k)\<rparr>"
      using sum by (simp add: con_read_loop_eq clear_sum_def set_sum_def sum_roundtrip)
    ultimately show ?thesis by (simp add: step_ok_def)
  qed
  then show "returns (\<lambda>k' f' _. step_ok pl k k' f')
     (let va = tf_regs f ! 9; mx = min (unat (tf_regs f ! 10)) IPC_MSG_MAX
      in if \<not> in_stack_window va mx then Some (Ret k (set_a0 f ERR_INVALID_ARG) ())
         else let (k, n) = con_read_loop mx va 0 (set_sum k)
         in Some (Ret (clear_sum k) (set_a0 f (of_nat n)) ()))"
    using assms by (simp add: Let_def split_beta step_ok_same IPC_MSG_MAX_def)
qed

lemma ib_ok_foldl: "(\<And>x b. x \<in> set xs \<Longrightarrow> ib_ok b \<Longrightarrow> ib_ok (g x b)) \<Longrightarrow> ib_ok b \<Longrightarrow> ib_ok (fold g xs b)"
  by (induction xs arbitrary: b) simp_all

lemma ib_ok_tasks [simp]: "ib_ok b \<Longrightarrow> ib_ok (info_tasks k b)"
  unfolding info_tasks_def by (rule ib_ok_foldl) (auto split: prod.splits)

lemma ib_ok_ipc [simp]: "ib_ok b \<Longrightarrow> ib_ok (info_ipc k b)"
  unfolding info_ipc_def Let_def by (simp add: ib_ok_foldl)

lemma ib_ok_caps [simp]: "ib_ok b \<Longrightarrow> ib_ok (info_caps k b)"
  unfolding info_caps_def by (rule ib_ok_foldl) (simp_all add: ib_ok_foldl)

lemma ib_ok_memory [simp]: "ib_ok b \<Longrightarrow> ib_ok (info_memory b)"
  by (simp add: info_memory_def)

lemma info_ring_loop_ok:
  assumes "shape_ok k" "\<forall>i\<in>set is. i < RING_LEN" "ib_ok b"
  shows "\<exists>b'. info_ring_loop is only k b = Some b' \<and> ib_ok b'"
  using assms(2,3)
proof (induction "is" arbitrary: b)
  case (Cons i "is")
  obtain kind slot where e: "k_ring k ! i = (kind, slot)" by fastforce
  have "unat slot < MAX_TASKS"
    using assms(1) Cons.prems(1) e by (auto simp: shape_ok_def list_all_length dest: spec [of _ i])
  then have "task_at k (unat slot) = Some (k_tasks k ! unat slot)" using task_at_Some [OF assms(1)] by simp
  then show ?case using Cons by (cases only) (simp_all add: e Let_def)
qed simp

lemma info_ring_ok: "shape_ok k \<Longrightarrow> ib_ok b \<Longrightarrow> \<exists>b'. info_ring only k b = Some b' \<and> ib_ok b'"
  unfolding info_ring_def Let_def by (rule info_ring_loop_ok) (auto simp: RING_LEN_def)

lemma info_text_ok:
  assumes "shape_ok k"
  shows "\<exists>r. info_text kind slot k = Some r \<and> (\<forall>b. r = Some b \<longrightarrow> ib_ok b)"
  using info_ring_ok [OF assms ib_ok_new, of True] info_ring_ok [OF assms ib_ok_new, of False]
  by (auto simp: info_text_def)

lemma sys_info_step:
  assumes "kinv pl k f"
  shows "returns (\<lambda>k' f' _. step_ok pl k k' f') (sys_info k f)"
  unfolding sys_info_def
proof (rule with_authority_step [OF assms])
  let ?kind = "tf_regs f ! 9" and ?slot = "unat (tf_regs f ! 12)"
  obtain r where r: "info_text ?kind ?slot k = Some r" "\<And>b. r = Some b \<Longrightarrow> ib_ok b"
    using info_text_ok [OF kinvD(10) [OF assms]] by blast
  have bad: "step_ok pl k k (set_a0 f c)" for c using assms by (simp add: step_ok_same)
  show "returns (\<lambda>k' f' _. step_ok pl k k' f')
     (let kind = tf_regs f ! 9; va = tf_regs f ! 10; mx = unat (tf_regs f ! 11)
      in if \<not> in_stack_window va (min mx INFO_MAX) then Some (Ret k (set_a0 f ERR_INVALID_ARG) ())
         else do {
           r \<leftarrow> info_text kind ?slot k;
           case r of
             None \<Rightarrow> Some (Ret k (set_a0 f ERR_INVALID_ARG) ())
           | Some out \<Rightarrow> let n = min (ib_len out) mx
               in Some (Ret (copy_bytes_to_user va (take n (ib_buf out)) k) (set_a0 f (of_nat n)) ())
         })"
    using r bad copy_info_step [OF assms] by (cases r) (simp_all add: Let_def)
qed

end
