(* ===== verification/Trap.thy ===== *)
theory Trap
  imports Dispatch_Os
begin

text \<open>
  Entry into the kernel: the system call switch of the dispatcher (\<open>on_syscall\<close> in
  \<open>dispatch.rs\<close>), the fallback system call table (\<open>kernel/src/syscall/mod.rs\<close>), the timer
  interrupt (\<open>timer.rs\<close>) and the trap handler (\<open>trap.rs\<close>). The trap cause, the faulting
  address and the current time are what the hardware reports: the fields of \<open>trap_info\<close>.
\<close>

section \<open>System call switch\<close>

definition SYS_YIELD :: u64 where "SYS_YIELD = 1"
definition SYS_EXIT :: u64 where "SYS_EXIT = 2"
definition SYS_SEND :: u64 where "SYS_SEND = 3"
definition SYS_RECV :: u64 where "SYS_RECV = 4"
definition SYS_REPLY :: u64 where "SYS_REPLY = 5"
definition SYS_CAP_QUERY :: u64 where "SYS_CAP_QUERY = 6"
definition SYS_FAULT_ACK :: u64 where "SYS_FAULT_ACK = 7"
definition SYS_TASK_START :: u64 where "SYS_TASK_START = 8"
definition SYS_CON_WRITE :: u64 where "SYS_CON_WRITE = 9"
definition SYS_CON_READ :: u64 where "SYS_CON_READ = 10"
definition SYS_INFO :: u64 where "SYS_INFO = 11"
definition SYS_TASK_KILL :: u64 where "SYS_TASK_KILL = 12"
definition SYS_TASK_RESTART :: u64 where "SYS_TASK_RESTART = 13"
definition SYS_SHUTDOWN :: u64 where "SYS_SHUTDOWN = 14"
definition SYS_DEVICE_INFO :: u64 where "SYS_DEVICE_INFO = 15"
definition SYS_MMIO_READ :: u64 where "SYS_MMIO_READ = 16"
definition SYS_MMIO_WRITE :: u64 where "SYS_MMIO_WRITE = 17"
definition SYS_DMA_READ :: u64 where "SYS_DMA_READ = 18"
definition SYS_DMA_WRITE :: u64 where "SYS_DMA_WRITE = 19"
definition SYS_IRQ_RAISE :: u64 where "SYS_IRQ_RAISE = 20"

lemmas sys_consts [ax_const] =
  SYS_YIELD_def SYS_EXIT_def SYS_SEND_def SYS_RECV_def SYS_REPLY_def SYS_CAP_QUERY_def SYS_FAULT_ACK_def
  SYS_TASK_START_def SYS_CON_WRITE_def SYS_CON_READ_def SYS_INFO_def SYS_TASK_KILL_def SYS_TASK_RESTART_def
  SYS_SHUTDOWN_def SYS_DEVICE_INFO_def SYS_MMIO_READ_def SYS_MMIO_WRITE_def SYS_DMA_READ_def SYS_DMA_WRITE_def
  SYS_IRQ_RAISE_def

text \<open>Whether the dispatcher consumed the call is the result of the outcome.\<close>

definition consumed :: "unit outcome option \<Rightarrow> bool outcome option" where
  "consumed r = map_option (\<lambda>r. case r of Ret k f _ \<Rightarrow> Ret k f True | Halt k \<Rightarrow> Halt k | PowerOff k \<Rightarrow> PowerOff k) r"

definition on_syscall :: "platform \<Rightarrow> u64 \<Rightarrow> kernel \<Rightarrow> trap_frame \<Rightarrow> bool outcome option" where
  "on_syscall pl num k frame =
     (if \<not> k_active k then Some (Ret k frame False)
      else
        let k = k\<lparr>k_watchdog_miss := 0\<rparr>
        in if num = SYS_YIELD then consumed (switch_task pl False k frame)
           else if num = SYS_EXIT then consumed (switch_task pl True k frame)
           else if num = SYS_SEND then consumed (ipc_send pl k frame)
           else if num = SYS_RECV then consumed (ipc_recv k frame)
           else if num = SYS_FAULT_ACK then consumed (fault_ack k frame)
           else if num = SYS_TASK_START then consumed (sys_task_start pl k frame)
           else if num = SYS_CON_WRITE then consumed (sys_con_write pl k frame)
           else if num = SYS_CON_READ then consumed (sys_con_read k frame)
           else if num = SYS_INFO then consumed (sys_info k frame)
           else if num = SYS_TASK_KILL then consumed (sys_task_kill k frame)
           else if num = SYS_TASK_RESTART then consumed (sys_task_restart k frame)
           else if num = SYS_SHUTDOWN then consumed (sys_shutdown k frame)
           else if num = SYS_DEVICE_INFO then consumed (sys_device_info k frame)
           else if num = SYS_MMIO_READ then consumed (sys_mmio_read pl k frame)
           else if num = SYS_MMIO_WRITE then consumed (sys_mmio_write k frame)
           else if num = SYS_DMA_READ then consumed (sys_dma_read k frame)
           else if num = SYS_DMA_WRITE then consumed (sys_dma_write k frame)
           else if num = SYS_IRQ_RAISE then consumed (sys_irq_raise k frame)
           else Some (Ret k frame False))"

section \<open>Fallback system call table\<close>

definition ERR_INVALID_SYSCALL :: u64 where "ERR_INVALID_SYSCALL = - 1"
definition ERR_NOT_IMPLEMENTED :: u64 where "ERR_NOT_IMPLEMENTED = - 9"

definition BOOT_CAP_TABLE :: cap_table where "BOOT_CAP_TABLE = cap_table_new"

definition stub :: "string \<Rightarrow> kernel \<Rightarrow> kernel \<times> u64" where
  "stub name k = (put_strs [''SYSCALL name='', name, line '' status=stub result=ERR_NOT_IMPLEMENTED''] k, ERR_NOT_IMPLEMENTED)"

fun map_cap_error :: "cap_error \<Rightarrow> u64" where
  "map_cap_error InvalidIndex = ERR_INVALID_CAP"
| "map_cap_error EmptySlot = ERR_INVALID_CAP"
| "map_cap_error WrongObjectType = ERR_WRONG_OBJECT_TYPE"
| "map_cap_error InsufficientRights = ERR_INSUFFICIENT_RIGHTS"
| "map_cap_error SlotOccupied = ERR_INVALID_CAP"

definition ipc_capability_gate :: "string \<Rightarrow> u64 \<Rightarrow> rights \<Rightarrow> kernel \<Rightarrow> kernel \<times> u64" where
  "ipc_capability_gate name cap_index required k =
     (case cap_lookup BOOT_CAP_TABLE (unat cap_index) Endpoint required of
        Ok _ \<Rightarrow> stub name k
      | Err e \<Rightarrow> (put_strs [''CAP_DENIED syscall='', name, line '' reason=no_valid_capability result=ERR''] k,
                 map_cap_error e))"

definition syscall_dispatch :: "u64 \<Rightarrow> trap_frame \<Rightarrow> kernel \<Rightarrow> kernel \<times> u64" where
  "syscall_dispatch number frame k =
     (if number = SYS_YIELD then stub ''sys_yield'' k
      else if number = SYS_EXIT then stub ''sys_exit'' k
      else if number = SYS_SEND then ipc_capability_gate ''sys_send'' (tf_regs frame ! 9) SEND k
      else if number = SYS_RECV then ipc_capability_gate ''sys_recv'' (tf_regs frame ! 9) RECEIVE k
      else if number = SYS_REPLY then stub ''sys_reply'' k
      else if number = SYS_CAP_QUERY then stub ''sys_cap_query'' k
      else if number = SYS_FAULT_ACK then stub ''sys_fault_ack'' k
      else (put_str (line ''SYSCALL name=unknown status=rejected result=ERR_INVALID_SYSCALL'') k, ERR_INVALID_SYSCALL))"

section \<open>Timer\<close>

record trap_info =
  ti_scause :: u64
  ti_stval :: u64
  ti_time :: u64

definition TIMER_INTERVAL :: u64 where "TIMER_INTERVAL = 100000"

definition arm_next :: "u64 \<Rightarrow> kernel \<Rightarrow> kernel" where
  "arm_next now k = k\<lparr>k_timer := Some (now + TIMER_INTERVAL)\<rparr>"

definition on_timer_interrupt :: "u64 \<Rightarrow> kernel \<Rightarrow> trap_frame \<Rightarrow> unit outcome option" where
  "on_timer_interrupt now k frame =
     do {
       let n = k_timer_ticks k + 1;
       let k = k\<lparr>k_timer_ticks := k_timer_ticks k + 1\<rparr>;
       let k = (if n \<le> 3 then put_str nl (put_dec n (put_str ''TIMER tick='' k)) else k);
       let k = arm_next now k;
       r \<leftarrow> watchdog_tick k frame;
       case r of
         Ret k frame faulted \<Rightarrow> if \<not> faulted then preempt k frame else Some (Ret k frame ())
       | Halt k \<Rightarrow> Some (Halt k)
       | PowerOff k \<Rightarrow> Some (PowerOff k)
     }"

section \<open>Trap handler\<close>

definition CAUSE_ILLEGAL_INSTRUCTION :: u64 where "CAUSE_ILLEGAL_INSTRUCTION = 2"
definition CAUSE_ECALL_FROM_U :: u64 where "CAUSE_ECALL_FROM_U = 8"
definition CAUSE_ECALL_FROM_S :: u64 where "CAUSE_ECALL_FROM_S = 9"
definition CAUSE_INSTRUCTION_PAGE_FAULT :: u64 where "CAUSE_INSTRUCTION_PAGE_FAULT = 12"
definition CAUSE_LOAD_PAGE_FAULT :: u64 where "CAUSE_LOAD_PAGE_FAULT = 13"
definition CAUSE_STORE_PAGE_FAULT :: u64 where "CAUSE_STORE_PAGE_FAULT = 15"
definition INTERRUPT_BIT :: u64 where "INTERRUPT_BIT = push_bit 63 1"
definition CAUSE_SUPERVISOR_TIMER :: u64 where "CAUSE_SUPERVISOR_TIMER = 5"
definition TRAP_KERNEL_BASE :: u64 where "TRAP_KERNEL_BASE = 0x80200000"

lemmas cause_consts [ax_const] =
  CAUSE_ILLEGAL_INSTRUCTION_def CAUSE_ECALL_FROM_U_def CAUSE_ECALL_FROM_S_def CAUSE_INSTRUCTION_PAGE_FAULT_def
  CAUSE_LOAD_PAGE_FAULT_def CAUSE_STORE_PAGE_FAULT_def CAUSE_SUPERVISOR_TIMER_def

definition set_user_fault_continuation :: "u64 \<Rightarrow> u64 \<Rightarrow> kernel \<Rightarrow> kernel" where
  "set_user_fault_continuation pc sp k = k\<lparr>k_fault_cont := (pc, sp)\<rparr>"

definition contain_user_fault :: "string \<Rightarrow> kernel \<Rightarrow> trap_frame \<Rightarrow> (kernel \<times> trap_frame) option" where
  "contain_user_fault reason k frame =
     (let (pc, sp) = k_fault_cont k
      in if pc = 0 \<or> sp = 0 then None
         else Some (put_strs [''CONTAIN scope=user reason='', reason, line '' action=terminate_task kernel=alive''] k,
                frame\<lparr>tf_sepc := pc, tf_regs := (tf_regs frame)[1 := sp],
                      tf_sstatus := tf_sstatus frame OR SSTATUS_SPP\<rparr>))"

definition trap_put_hex :: "u64 \<Rightarrow> kernel \<Rightarrow> kernel" where
  "trap_put_hex value k =
     fold (\<lambda>shift k. let digit = ucast (drop_bit (shift * 4) value AND 0xf) :: u8
        in put_byte (if digit < 10 then 48 + digit else 97 + digit - 10) k) (rev [0..<16]) (put_str ''0x'' k)"

definition report :: "string \<Rightarrow> trap_info \<Rightarrow> trap_frame \<Rightarrow> kernel \<Rightarrow> kernel" where
  "report kind ti frame k =
     put_str nl (trap_put_hex (ti_stval ti) (put_str '' stval='' (trap_put_hex (tf_sepc frame)
       (put_str '' sepc='' (trap_put_hex (ti_scause ti) (put_strs [''TRAP kind='', kind, '' cause=''] k))))))"

definition page_fault_reason :: "u64 \<Rightarrow> u64 \<Rightarrow> string" where
  "page_fault_reason scause fault_addr =
     (if fault_addr \<ge> TRAP_KERNEL_BASE then ''user_access_kernel_memory''
      else if scause = CAUSE_INSTRUCTION_PAGE_FAULT then ''user_execute_nonexecutable''
      else ''user_access_unmapped'')"

text \<open>A user fault is first offered to the dispatcher, then to the registered continuation;
  otherwise, and for every fault in kernel mode, the kernel reports and halts.\<close>

definition contain_or_halt ::
  "string \<Rightarrow> string \<Rightarrow> kernel \<Rightarrow> trap_frame \<Rightarrow> unit outcome option" where
  "contain_or_halt reason halt_line k frame =
     (if is_from_user frame then
        do {
          r \<leftarrow> contain_fault reason k frame;
          case r of
            Halt k \<Rightarrow> Some (Halt k)
          | PowerOff k \<Rightarrow> Some (PowerOff k)
          | Ret k frame taken \<Rightarrow>
              if taken then Some (Ret k frame ())
              else (case contain_user_fault reason k frame of
                      Some (k, frame) \<Rightarrow> Some (Ret k frame ())
                    | None \<Rightarrow> Some (Halt (put_str halt_line k)))
        }
      else Some (Halt (put_str halt_line k)))"

definition handle_ecall :: "platform \<Rightarrow> kernel \<Rightarrow> trap_frame \<Rightarrow> unit outcome option" where
  "handle_ecall pl k frame =
     do {
       let num = frame_a7 frame;
       let frame = frame\<lparr>tf_sepc := tf_sepc frame + 4\<rparr>;
       r \<leftarrow> on_syscall pl num k frame;
       case r of
         Ret k frame taken \<Rightarrow>
           if taken then Some (Ret k frame ())
           else let (k, result) = syscall_dispatch num frame k in Some (Ret k (set_a0 frame result) ())
       | Halt k \<Rightarrow> Some (Halt k)
       | PowerOff k \<Rightarrow> Some (PowerOff k)
     }"

definition trap_handler :: "platform \<Rightarrow> trap_info \<Rightarrow> kernel \<Rightarrow> trap_frame \<Rightarrow> unit outcome option" where
  "trap_handler pl ti k frame =
     (let scause = ti_scause ti
      in if scause AND INTERRUPT_BIT \<noteq> 0 then
           if scause AND 0xff = CAUSE_SUPERVISOR_TIMER then on_timer_interrupt (ti_time ti) k frame
           else Some (Halt (put_str (line ''PANIC kernel=axiomrt reason=unexpected_interrupt phase=trap'')
                             (report ''unexpected-interrupt'' ti frame k)))
         else if scause = CAUSE_ILLEGAL_INSTRUCTION then
           contain_or_halt ''illegal_instruction'' (line ''HALT reason=illegal_instruction phase=trap'')
             (report ''illegal-instruction'' ti frame k) frame
         else if scause = CAUSE_ECALL_FROM_U then handle_ecall pl k frame
         else if scause = CAUSE_ECALL_FROM_S then
           Some (Halt (put_str (line ''PANIC kernel=axiomrt reason=smode_ecall_misdelegated phase=trap'')
                        (report ''smode-ecall-misdelegated'' ti frame k)))
         else if scause = CAUSE_INSTRUCTION_PAGE_FAULT \<or> scause = CAUSE_LOAD_PAGE_FAULT
                 \<or> scause = CAUSE_STORE_PAGE_FAULT then
           contain_or_halt (page_fault_reason scause (ti_stval ti))
             (line ''PANIC kernel=axiomrt reason=kernel_page_fault phase=trap'')
             (report ''page-fault'' ti frame k) frame
         else
           contain_or_halt ''exception'' (line ''PANIC kernel=axiomrt reason=unknown_trap phase=trap'')
             (report ''unknown'' ti frame k) frame)"

section \<open>Every trap keeps the invariant\<close>

lemma consumed_returns: "returns (\<lambda>k' f' _. P k' f') r \<Longrightarrow> returns (\<lambda>k' f' _. P k' f') (consumed r)"
  by (auto simp: returns_def consumed_def split: option.splits outcome.splits)

lemmas handler_steps =
  switch_task_step ipc_send_step ipc_recv_step fault_ack_step sys_task_start_step sys_con_write_step sys_con_read_step
  sys_info_step sys_task_kill_step sys_task_restart_step sys_shutdown_step sys_device_info_step sys_mmio_step
  sys_irq_raise_step

lemma on_syscall_step:
  assumes "kinv pl k f"
  shows "returns (\<lambda>k' f' _. step_ok pl k k' f') (on_syscall pl num k f)"
proof -
  let ?k = "k\<lparr>k_watchdog_miss := 0\<rparr>"
  have inv: "kinv pl ?k f" by (rule kinv_cong [OF assms]) (simp_all add: kinvD(4) [OF assms])
  note H = handler_steps [OF inv, THEN consumed_returns] dma_access_step [OF inv, THEN consumed_returns]
  have "returns (\<lambda>k' f' _. step_ok pl ?k k' f') (on_syscall pl num k f)"
    unfolding on_syscall_def Let_def sys_dma_read_def sys_dma_write_def
    using H step_ok_same [OF inv] by (simp add: kinvD(3) [OF assms])
  then show ?thesis by (rule returns_from) simp_all
qed

lemma stub_console: "\<exists>c. fst (stub n k) = k\<lparr>k_console := c\<rparr>"
  by (simp add: stub_def put_strs_console) blast

lemma ipc_capability_gate_console: "\<exists>c. fst (ipc_capability_gate n ci r k) = k\<lparr>k_console := c\<rparr>"
  using stub_console [of n k]
  by (cases "cap_lookup BOOT_CAP_TABLE (unat ci) Endpoint r") (auto simp: ipc_capability_gate_def put_strs_console)

lemma syscall_dispatch_console: "\<exists>c. fst (syscall_dispatch num f k) = k\<lparr>k_console := c\<rparr>"
  using stub_console ipc_capability_gate_console by (auto simp: syscall_dispatch_def put_str_console)

lemma kinv_sepc [simp]: "kinv pl k (f\<lparr>tf_sepc := v\<rparr>) = kinv pl k f"
  by (simp add: kinv_def user_frame_def is_from_user_def)

lemma step_ok_console [simp]: "step_ok pl k (k'\<lparr>k_console := c\<rparr>) f = step_ok pl k k' f"
  by (simp add: step_ok_def mem_confined_def)

lemma step_ok_set_a0 [simp]: "step_ok pl k k' (set_a0 f v) = step_ok pl k k' f"
  by (simp add: step_ok_def)

lemma handle_ecall_step:
  assumes "kinv pl k f"
  shows "returns (\<lambda>k' f' _. step_ok pl k k' f') (handle_ecall pl k f)"
proof -
  have "returns (\<lambda>k' f' _. step_ok pl k k' f') (on_syscall pl (frame_a7 f) k (f\<lparr>tf_sepc := tf_sepc f + 4\<rparr>))"
    using on_syscall_step [of pl k "f\<lparr>tf_sepc := tf_sepc f + 4\<rparr>"] assms by simp
  then show ?thesis
  proof (cases "on_syscall pl (frame_a7 f) k (f\<lparr>tf_sepc := tf_sepc f + 4\<rparr>)")
    case (Some r)
    assume "returns (\<lambda>k' f' _. step_ok pl k k' f') (on_syscall pl (frame_a7 f) k (f\<lparr>tf_sepc := tf_sepc f + 4\<rparr>))"
    then show ?thesis
    proof (cases r)
      case (Ret k1 f1 taken)
      obtain c where "fst (syscall_dispatch (frame_a7 f) f1 k1) = k1\<lparr>k_console := c\<rparr>"
        using syscall_dispatch_console by blast
      then show ?thesis using Some Ret \<open>returns _ _\<close>
        by (cases taken) (simp_all add: handle_ecall_def Let_def split_beta)
    qed (use Some in \<open>simp_all add: handle_ecall_def Let_def\<close>)
  qed simp
qed

lemma returns_bind:
  assumes "returns P r" "\<And>k f x. P k f x \<Longrightarrow> returns Q (g k f x)"
  shows "returns Q (do { r \<leftarrow> r; case r of Ret k f x \<Rightarrow> g k f x | Halt k \<Rightarrow> Some (Halt k) | PowerOff k \<Rightarrow> Some (PowerOff k) })"
  using assms by (cases r) (auto split: outcome.splits)

lemma on_timer_interrupt_step:
  assumes "kinv pl k f"
  shows "returns (\<lambda>k' f' _. step_ok pl k k' f') (on_timer_interrupt now k f)"
proof -
  let ?n = "k_timer_ticks k + 1"
  define k1 where "k1 = arm_next now (if ?n \<le> 3 then put_str nl (put_dec ?n (put_str ''TIMER tick='' (k\<lparr>k_timer_ticks := ?n\<rparr>)))
     else k\<lparr>k_timer_ticks := ?n\<rparr>)"
  have inv: "kinv pl k1 f"
    by (rule kinv_cong [OF assms]) (simp_all add: k1_def arm_next_def console_simps kinvD(4) [OF assms])
  have tick: "returns (\<lambda>k' f' _. step_ok pl k1 k' f') (do { r \<leftarrow> watchdog_tick k1 f;
      case r of Ret k frame faulted \<Rightarrow> if \<not> faulted then preempt k frame else Some (Ret k frame ())
       | Halt k \<Rightarrow> Some (Halt k) | PowerOff k \<Rightarrow> Some (PowerOff k) })"
  proof (rule returns_bind [OF watchdog_tick_step [OF inv]])
    fix k' f' faulted
    assume a: "step_ok pl k1 k' f' \<and> (\<not> faulted \<longrightarrow> k_umem k' = k_umem k1 \<and> k_satp_root k' = k_satp_root k1)"
    have "returns (\<lambda>k'' f'' _. step_ok pl k1 k'' f'') (preempt k' f')" if "\<not> faulted"
      using a that by (intro returns_from [OF preempt_step]) (simp_all add: step_ok_def)
    then show "returns (\<lambda>k' f' _. step_ok pl k1 k' f') (if \<not> faulted then preempt k' f' else Some (Ret k' f' ()))"
      using a by simp
  qed
  have "on_timer_interrupt now k f = (do { r \<leftarrow> watchdog_tick k1 f;
      case r of Ret k frame faulted \<Rightarrow> if \<not> faulted then preempt k frame else Some (Ret k frame ())
       | Halt k \<Rightarrow> Some (Halt k) | PowerOff k \<Rightarrow> Some (PowerOff k) })"
    by (simp only: on_timer_interrupt_def Let_def k1_def)
  then have "returns (\<lambda>k' f' _. step_ok pl k1 k' f') (on_timer_interrupt now k f)" using tick by simp
  then show ?thesis by (rule returns_from) (simp_all add: k1_def arm_next_def console_simps)
qed

lemma contain_or_halt_step:
  assumes "kinv pl k f"
  shows "returns (\<lambda>k' f' _. step_ok pl k k' f') (contain_or_halt reason hl k f)"
proof -
  have "is_from_user f" using kinvD(4) [OF assms] by (simp add: user_frame_def)
  moreover have "returns (\<lambda>k' f' _. step_ok pl k k' f') (do { r \<leftarrow> contain_fault reason k f;
      case r of Ret k frame taken \<Rightarrow> if taken then Some (Ret k frame ())
              else (case contain_user_fault reason k frame of
                      Some (k, frame) \<Rightarrow> Some (Ret k frame ())
                    | None \<Rightarrow> Some (Halt (put_str hl k)))
       | Halt k \<Rightarrow> Some (Halt k) | PowerOff k \<Rightarrow> Some (PowerOff k) })"
    by (rule returns_bind [OF contain_fault_step [OF assms]]) simp
  ultimately show ?thesis by (simp add: contain_or_halt_def)
qed

lemma trap_put_hex_console: "\<exists>c. trap_put_hex v k = k\<lparr>k_console := c\<rparr>"
proof -
  have "\<exists>c. fold (\<lambda>x. put_byte (g x)) xs k = k\<lparr>k_console := c\<rparr>" for g :: "nat \<Rightarrow> u8" and xs k
  proof (induction xs arbitrary: k)
    case Nil
    show ?case by (intro exI [of _ "k_console k"]) simp
  next
    case (Cons x xs)
    then obtain c where "fold (\<lambda>x. put_byte (g x)) xs (put_byte (g x) k) = put_byte (g x) k\<lparr>k_console := c\<rparr>" by blast
    then have "fold (\<lambda>x. put_byte (g x)) (x # xs) k = k\<lparr>k_console := c\<rparr>" by simp (simp add: put_byte_def)
    then show ?case by blast
  qed
  from this [of "\<lambda>shift. let digit = ucast (drop_bit (shift * 4) v AND 0xf) in if digit < 10 then 48 + digit else 97 + digit - 10"]
  obtain c where "trap_put_hex v k = put_str ''0x'' k\<lparr>k_console := c\<rparr>"
    unfolding trap_put_hex_def Let_def by blast
  then show ?thesis by (simp add: put_str_console) blast
qed

lemma report_console: "\<exists>c. report kind ti f k = k\<lparr>k_console := c\<rparr>"
proof -
  obtain c1 where 1: "trap_put_hex (ti_scause ti) (put_strs [''TRAP kind='', kind, '' cause=''] k) = k\<lparr>k_console := c1\<rparr>"
    using trap_put_hex_console [of "ti_scause ti" "put_strs [''TRAP kind='', kind, '' cause=''] k"] by (auto simp: put_strs_console)
  obtain c2 where 2: "trap_put_hex (tf_sepc f) (put_str '' sepc='' (k\<lparr>k_console := c1\<rparr>)) = k\<lparr>k_console := c2\<rparr>"
    using trap_put_hex_console [of "tf_sepc f" "put_str '' sepc='' (k\<lparr>k_console := c1\<rparr>)"] by (auto simp: put_str_console)
  obtain c3 where 3: "trap_put_hex (ti_stval ti) (put_str '' stval='' (k\<lparr>k_console := c2\<rparr>)) = k\<lparr>k_console := c3\<rparr>"
    using trap_put_hex_console [of "ti_stval ti" "put_str '' stval='' (k\<lparr>k_console := c2\<rparr>)"] by (auto simp: put_str_console)
  show ?thesis unfolding report_def 1 2 3 by (simp add: put_str_console) blast
qed

lemma trap_handler_step:
  assumes "kinv pl k f"
  shows "returns (\<lambda>k' f' _. step_ok pl k k' f') (trap_handler pl ti k f)"
proof -
  have fault: "returns (\<lambda>k' f' _. step_ok pl k k' f') (contain_or_halt reason hl (report kind ti f k) f)" for reason hl kind
  proof -
    obtain c where c: "report kind ti f k = k\<lparr>k_console := c\<rparr>" using report_console by blast
    show ?thesis unfolding c
      by (rule returns_from [OF contain_or_halt_step]) (simp_all add: assms)
  qed
  show ?thesis
    unfolding trap_handler_def Let_def
    using fault on_timer_interrupt_step [OF assms] handle_ecall_step [OF assms] by simp
qed

section \<open>What a timer tick and a fault decide\<close>

lemma timer_split:
  assumes "kinv pl k f" "on_timer_interrupt now k f = Some (Ret k' f' x)"
  obtains k1 where "kinv pl k1 f" "watchdog_tick k1 f = Some (Ret k' f' True)"
    | k1 k2 f2 where "kinv pl k1 f" "watchdog_tick k1 f = Some (Ret k2 f2 False)" "preempt k2 f2 = Some (Ret k' f' x)"
proof -
  let ?n = "k_timer_ticks k + 1"
  define k1 where "k1 = arm_next now (if ?n \<le> 3 then put_str nl (put_dec ?n (put_str ''TIMER tick='' (k\<lparr>k_timer_ticks := ?n\<rparr>)))
     else k\<lparr>k_timer_ticks := ?n\<rparr>)"
  have inv: "kinv pl k1 f"
    by (rule kinv_cong [OF assms(1)]) (simp_all add: k1_def arm_next_def console_simps kinvD(4) [OF assms(1)])
  have eq: "on_timer_interrupt now k f = (do { r \<leftarrow> watchdog_tick k1 f;
      case r of Ret k frame faulted \<Rightarrow> if \<not> faulted then preempt k frame else Some (Ret k frame ())
       | Halt k \<Rightarrow> Some (Halt k) | PowerOff k \<Rightarrow> Some (PowerOff k) })"
    by (simp only: on_timer_interrupt_def Let_def k1_def)
  show thesis
  proof (cases "watchdog_tick k1 f")
    case (Some r)
    then show thesis
    proof (cases r)
      case (Ret k2 f2 faulted)
      then show thesis using Some assms(2) inv that unfolding eq by (cases faulted) simp_all
    qed (use Some assms(2) in \<open>simp_all add: eq\<close>)
  qed (use assms(2) in \<open>simp add: eq\<close>)
qed

lemma watchdog_faulted_highest:
  assumes "kinv pl k f" "watchdog_tick k f = Some (Ret k' f' True)"
  shows "runs_highest k'"
proof -
  have "\<not> k_watchdog_miss k + 1 \<le> WATCHDOG_WINDOW"
    using assms(2) kinvD(3) [OF assms(1)] by (auto simp: watchdog_tick_def Let_def)
  then obtain k1 where "watchdog_tick k f = schedule_next (k_current k) no_ready_lines True k1" "fault_left pl k k1"
    using watchdog_fault_eq [OF assms(1)] by blast
  then show ?thesis
    using fault_left_contained [OF assms(1), of k1 no_ready_lines] assms(2) by (auto simp: fault_contained_def)
qed

lemma fault_contained_console: "fault_contained pl (k\<lparr>k_console := c\<rparr>) out = fault_contained pl k out"
  by (simp add: fault_contained_def split: outcome.split)

lemma contain_or_halt_contained:
  assumes "kinv pl k f"
  shows "\<exists>out. contain_or_halt reason hl k f = Some out \<and> fault_contained pl k out"
proof -
  obtain k1 where "contain_fault reason k f = schedule_next (k_current k) no_ready_lines True k1" "fault_left pl k k1"
    using contain_fault_eq [OF assms] by blast
  then obtain out where out: "contain_fault reason k f = Some out" "fault_contained pl k out"
      "\<And>k' f' x. out = Ret k' f' x \<Longrightarrow> x"
    using fault_left_contained [OF assms, of k1 no_ready_lines] by auto
  have user: "is_from_user f" using kinvD(4) [OF assms] by (simp add: user_frame_def)
  show ?thesis
  proof (cases out)
    case (Ret k' f' x)
    then have "contain_or_halt reason hl k f = Some (Ret k' f' ())" using out user by (simp add: contain_or_halt_def)
    then show ?thesis using out(2) Ret by (simp add: fault_contained_def)
  qed (use out user in \<open>simp_all add: contain_or_halt_def fault_contained_def\<close>)
qed

text \<open>A timer tick in the sample state preempts \<open>init\<close> by \<open>worker\<close> and completes its delivery.\<close>

lemma sample_tick:
  "case on_timer_interrupt 0 sample_kernel sample_frame of
     Some (Ret k' f' x) \<Rightarrow> k_current k' = 2 \<and> k_umem k' 0x80320000 0x200080 = 1 \<and> t_state (k_tasks k' ! 0) = RtReady
       \<and> t_prio (k_tasks k' ! 0) = 2
   | _ \<Rightarrow> False"
  by code_simp

section \<open>Properties\<close>

text \<open>C2. No trap panics the kernel and every trap preserves its invariant: from a well-formed
  state with one running task, the handler ends for every cause and every register content; when it
  returns, task table, endpoints, event ring, service table and the running address space are well-formed
  again, a single task is running, and the frame resumes in user mode. A panic is a Rust panic, the value
  \<open>None\<close>; the paths that print a \<open>PANIC\<close> line and stop on purpose end with
  \<open>Halt\<close>.\<close>

theorem trap_preserves_invariant:
  assumes "kinv pl k f"
  shows "\<exists>out. trap_handler pl ti k f = Some out \<and> (\<forall>k' f' x. out = Ret k' f' x \<longrightarrow> kinv pl k' f')"
proof -
  have "returns (\<lambda>k' f' _. step_ok pl k k' f') (trap_handler pl ti k f)" by (rule trap_handler_step [OF assms])
  then show ?thesis by (cases "trap_handler pl ti k f") (auto simp: step_ok_def)
qed

theorem trap_preserves_invariant_witness:
  "\<exists>out. trap_handler sample_platform \<lparr>ti_scause = 8, ti_stval = 0, ti_time = 0\<rparr> sample_kernel sample_frame = Some out"
  using trap_preserves_invariant [OF sample_kinv] by blast

text \<open>C8. The kernel writes user memory only where the call or the delivery points: a byte of any
  address space differs after a trap only if it lies in the 4 KiB data window and the address
  space is the one that was active when the trap was taken or the one that runs afterwards.\<close>

theorem user_memory_confined:
  assumes "kinv pl k f" and "trap_handler pl ti k f = Some (Ret k' f' x)" and "k_umem k' root va \<noteq> k_umem k root va"
  shows "0x200000 \<le> unat va \<and> unat va < 0x201000
    \<and> (root = t_satp_root (k_tasks k ! k_current k) \<or> root = t_satp_root (k_tasks k' ! k_current k'))"
proof -
  have s: "step_ok pl k k' f'" using trap_handler_step [OF assms(1), of ti] assms(2) by simp
  then have "kinv pl k' f'" "mem_confined k k'" by (simp_all add: step_ok_def)
  then show ?thesis using kinvD(2) [OF assms(1)] kinvD(2) assms(3) by (auto simp: mem_confined_def running_ok_def)
qed

theorem user_memory_confined_witness:
  "\<exists>k' f' x. trap_handler sample_platform \<lparr>ti_scause = 0x8000000000000005, ti_stval = 0, ti_time = 0\<rparr> sample_kernel sample_frame
       = Some (Ret k' f' x) \<and> k_umem k' 0x80320000 0x200080 = 1 \<and> 0x200000 \<le> unat (0x200080 :: u64)"
proof -
  let ?ti = "\<lparr>ti_scause = 0x8000000000000005, ti_stval = 0, ti_time = 0\<rparr>"
  obtain k' f' x where r: "on_timer_interrupt 0 sample_kernel sample_frame = Some (Ret k' f' x)" "k_umem k' 0x80320000 0x200080 = 1"
    using sample_tick by (auto split: option.splits outcome.splits)
  then have t: "trap_handler sample_platform ?ti sample_kernel sample_frame = Some (Ret k' f' x)"
    by (simp add: trap_handler_def INTERRUPT_BIT_def CAUSE_SUPERVISOR_TIMER_def)
  have "k_umem k' 0x80320000 0x200080 \<noteq> k_umem sample_kernel 0x80320000 0x200080" using r(2) by simp
  then show ?thesis using user_memory_confined [OF sample_kinv t] t r(2) by blast
qed

text \<open>C19. After every timer interrupt that returns, the running task has the highest priority: no
  ready task has a higher one, whether the tick preempted, left the task running or contained a
  task the watchdog gave up on.\<close>

theorem timer_runs_highest_priority:
  assumes "kinv pl k f" and "on_timer_interrupt now k f = Some (Ret k' f' x)"
    and "i < MAX_TASKS" and "t_state (k_tasks k' ! i) = RtReady"
  shows "t_prio (k_tasks k' ! i) \<le> t_prio (k_tasks k' ! k_current k')"
proof -
  have "runs_highest k'"
    using assms(1,2)
  proof (cases rule: timer_split)
    case (1 k1)
    then show ?thesis using watchdog_faulted_highest by blast
  next
    case (2 k1 k2 f2)
    then have "kinv pl k2 f2" using watchdog_tick_step [OF 2(1)] by (simp add: step_ok_def)
    then show ?thesis using preempt_highest 2(3) by blast
  qed
  then show ?thesis using assms(3,4) by (simp add: runs_highest_def)
qed

theorem timer_runs_highest_priority_witness:
  "\<exists>k' f' x. on_timer_interrupt 0 sample_kernel sample_frame = Some (Ret k' f' x) \<and> t_state (k_tasks k' ! 0) = RtReady
     \<and> t_prio (k_tasks k' ! 0) \<le> t_prio (k_tasks k' ! k_current k')"
proof -
  obtain k' f' x where r: "on_timer_interrupt 0 sample_kernel sample_frame = Some (Ret k' f' x)" "t_state (k_tasks k' ! 0) = RtReady"
    using sample_tick by (auto split: option.splits outcome.splits)
  then show ?thesis using timer_runs_highest_priority [OF sample_kinv r(1) _ r(2)] by (simp add: MAX_TASKS_def)
qed

text \<open>C16. A fault in user mode is contained: every exception other than a system call, taken from
  user mode, leaves the faulting task faulted, every other task untouched except for a
  notification that wakes its waiter and for the successor that now runs, and the kernel alive;
  it stops only when no task is ready.\<close>

theorem user_fault_contained:
  assumes "kinv pl k f" and "ti_scause ti AND INTERRUPT_BIT = 0"
    and "ti_scause ti \<noteq> CAUSE_ECALL_FROM_U" and "ti_scause ti \<noteq> CAUSE_ECALL_FROM_S"
  shows "\<exists>out. trap_handler pl ti k f = Some out \<and> fault_contained pl k out"
proof -
  have "\<exists>out. contain_or_halt reason hl (report kind ti f k) f = Some out \<and> fault_contained pl k out" for reason hl kind
  proof -
    obtain c where c: "report kind ti f k = k\<lparr>k_console := c\<rparr>" using report_console by blast
    show ?thesis unfolding c using contain_or_halt_contained [of pl "k\<lparr>k_console := c\<rparr>" f reason hl] assms(1)
      by (simp add: fault_contained_console)
  qed
  then show ?thesis using assms(2-4) by (simp add: trap_handler_def Let_def)
qed

theorem user_fault_contained_witness:
  "\<exists>out. trap_handler sample_platform \<lparr>ti_scause = 13, ti_stval = 0x80200000, ti_time = 0\<rparr> sample_kernel sample_frame = Some out
     \<and> fault_contained sample_platform sample_kernel out"
  by (rule user_fault_contained [OF sample_kinv]) (simp_all add: INTERRUPT_BIT_def cause_consts)

end
