(* ===== verification/Authority.thy ===== *)
theory Authority
  imports Trap
begin

text \<open>
  Who may do what: the capabilities of every task are fixed when its service is started and no
  trap changes them, a call without the capability it needs has no effect beyond the denial
  record, and device registers are touched only through the two mediated calls.
\<close>

section \<open>Grants\<close>

text \<open>The authority a state holds: the capability slots of every task, the boot-frozen service
  table and the log of device register accesses.\<close>

definition authority_of :: "kernel \<Rightarrow> rt_cap option list list \<times> service_def list option \<times> mmio_access list" where
  "authority_of k = (map t_caps (k_tasks k), k_service_table k, k_mmio k)"

lemma grants_fields [simp]:
  "authority_of (k\<lparr>k_current := a\<rparr>) = authority_of k" "authority_of (k\<lparr>k_active := b\<rparr>) = authority_of k"
  "authority_of (k\<lparr>k_watchdog_miss := c\<rparr>) = authority_of k" "authority_of (k\<lparr>k_endpoints := d\<rparr>) = authority_of k"
  "authority_of (k\<lparr>k_kmsg := e\<rparr>) = authority_of k" "authority_of (k\<lparr>k_irq_routes := g\<rparr>) = authority_of k"
  "authority_of (k\<lparr>k_dma := h\<rparr>) = authority_of k" "authority_of (k\<lparr>k_ticks := i\<rparr>) = authority_of k"
  "authority_of (k\<lparr>k_delivered := j\<rparr>) = authority_of k" "authority_of (k\<lparr>k_ring := l\<rparr>) = authority_of k"
  "authority_of (k\<lparr>k_ring_head := m\<rparr>) = authority_of k" "authority_of (k\<lparr>k_sstatus := n\<rparr>) = authority_of k"
  "authority_of (k\<lparr>k_satp_root := p\<rparr>) = authority_of k" "authority_of (k\<lparr>k_umem := q\<rparr>) = authority_of k"
  "authority_of (k\<lparr>k_console := r\<rparr>) = authority_of k" "authority_of (k\<lparr>k_input := s\<rparr>) = authority_of k"
  "authority_of (k\<lparr>k_timer_ticks := t\<rparr>) = authority_of k" "authority_of (k\<lparr>k_timer := u\<rparr>) = authority_of k"
  by (simp_all add: authority_of_def)

lemma map_caps_update: "t_caps t = t_caps (ts ! i) \<Longrightarrow> map t_caps (ts[i := t]) = map t_caps ts"
  by (cases "i < length ts") (simp_all add: map_update list_update_same_conv list_update_beyond)

lemma grants_upd_task [simp]: "t_caps (g (k_tasks k ! i)) = t_caps (k_tasks k ! i) \<Longrightarrow> authority_of (upd_task i g k) = authority_of k"
  by (simp add: authority_of_def upd_task_def map_caps_update)

lemma grants_primitives [simp]:
  "authority_of (put_byte a k) = authority_of k" "authority_of (put_str b k) = authority_of k" "authority_of (put_strs c k) = authority_of k"
  "authority_of (put_dec d k) = authority_of k" "authority_of (put_hex e k) = authority_of k" "authority_of (emit g h k) = authority_of k"
  "authority_of (ring_push i j k) = authority_of k" "authority_of (ep_set l m k) = authority_of k" "authority_of (ep_clear_for_task n k) = authority_of k"
  "authority_of (irq_route_set p q k) = authority_of k" "authority_of (set_sum k) = authority_of k" "authority_of (clear_sum k) = authority_of k"
  "authority_of (switch_to_user_space r k) = authority_of k" "authority_of (user_write va x k) = authority_of k" "authority_of (dma_write o1 o2 o3 k) = authority_of k"
  "authority_of (arm_next w k) = authority_of k"
  by (simp_all add: put_byte_def console_simps ring_push_def ep_set_def ep_clear_for_task_def irq_route_set_def set_sum_def
      clear_sum_def switch_to_user_space_def user_write_def dma_write_def Let_def arm_next_def)

lemma grants_fold: "(\<And>x k. authority_of (g x k) = authority_of k) \<Longrightarrow> authority_of (fold g xs k) = authority_of k"
  by (induction xs arbitrary: k) simp_all

lemma grants_copies [simp]:
  "authority_of (copy_from_user va len k) = authority_of k" "authority_of (write_bytes va bs k) = authority_of k"
  "authority_of (copy_bytes_to_user va bs k) = authority_of k" "authority_of (irq_drop_one s i k) = authority_of k"
  "authority_of (irq_drop_for_task s k) = authority_of k" "authority_of (con_write_loop va len k) = authority_of k"
  by (simp_all add: copy_from_user_def write_bytes_mem copy_bytes_to_user_def Let_def irq_drop_one_def
      irq_drop_for_task_def con_write_loop_def grants_fold)

lemma grants_frame_simps [simp]:
  "task_at (put_str s k) i = task_at k i" "task_at (put_strs ss k) i = task_at k i" "task_at (emit a b k) i = task_at k i"
  "task_at (ring_push e j k) i = task_at k i"
  by (simp_all add: task_at_def console_simps)

lemma deny_cap_grants: "deny_cap c v k = Some (k', code) \<Longrightarrow> authority_of k' = authority_of k"
  by (auto simp: deny_cap_def Let_def bind_eq_Some_conv)

lemma deny_authority_grants: "deny_authority c w k = Some (k', code) \<Longrightarrow> authority_of k' = authority_of k"
  by (auto simp: deny_authority_def Let_def bind_eq_Some_conv)

lemma deny_device_grants:
  "deny_device kind v k f = Some (Ret k' f' x) \<Longrightarrow> authority_of k' = authority_of k"
  "out_of_range kind k f = Some (Ret k' f' x) \<Longrightarrow> authority_of k' = authority_of k"
  by (auto simp: deny_device_def out_of_range_def deny_device_op_def Let_def bind_eq_Some_conv split: prod.splits)

lemma notify_endpoint_grants: "notify_endpoint e c k = Some (k', r) \<Longrightarrow> authority_of k' = authority_of k"
  by (cases "ep_get k e"; cases "the (ep_get k e)") (auto simp: notify_endpoint_def Let_def bind_eq_Some_conv split: if_splits)

lemma notify_supervisor_grants: "notify_supervisor_and_logger n k = Some k' \<Longrightarrow> authority_of k' = authority_of k"
  by (auto simp: notify_supervisor_and_logger_def Let_def bind_eq_Some_conv dest!: notify_endpoint_grants split: if_splits)

lemma resume_task_grants: "resume_task n k = Some (k', f) \<Longrightarrow> authority_of k' = authority_of k"
  by (auto simp: resume_task_def Let_def bind_eq_Some_conv split: option.splits if_splits)

lemma schedule_next_grants: "schedule_next c ls r k = Some (Ret k' f' x) \<Longrightarrow> authority_of k' = authority_of k"
  by (auto simp: schedule_next_def bind_eq_Some_conv dest!: resume_task_grants split: option.splits)

text \<open>Every handler except the first start of a service and the two register calls keeps the
  authority of the state.\<close>

definition keeps_authority :: "kernel \<Rightarrow> 'a outcome option \<Rightarrow> bool" where
  "keeps_authority k r \<longleftrightarrow> (\<forall>k' f' x. r = Some (Ret k' f' x) \<longrightarrow> authority_of k' = authority_of k)"

lemma keeps_Ret [simp]: "keeps_authority k (Some (Ret k' f x)) \<longleftrightarrow> authority_of k' = authority_of k"
  by (auto simp: keeps_authority_def)

lemma keeps_other [simp]:
  "keeps_authority k None" "keeps_authority k (Some (Halt k'))" "keeps_authority k (Some (PowerOff k'))"
  by (simp_all add: keeps_authority_def)

lemma keeps_from: "authority_of k1 = authority_of k \<Longrightarrow> keeps_authority k1 r \<Longrightarrow> keeps_authority k r"
  by (simp add: keeps_authority_def)

lemma keeps_bind: "(\<And>x. m = Some x \<Longrightarrow> keeps_authority k (g x)) \<Longrightarrow> keeps_authority k (m \<bind> g)"
  by (cases m) simp_all

lemma keeps_resume: "authority_of k1 = authority_of k \<Longrightarrow> keeps_authority k (do { (k2, f) \<leftarrow> resume_task n k1; Some (Ret k2 f x) })"
  by (rule keeps_bind) (auto dest!: resume_task_grants)

lemma keeps_schedule: "authority_of k1 = authority_of k \<Longrightarrow> keeps_authority k (schedule_next c ls r k1)"
  by (auto simp: keeps_authority_def dest!: schedule_next_grants)

lemma keeps_switch: "keeps_authority k (switch_task pl ex k f)"
  unfolding switch_task_def Let_def
  by (intro keeps_bind) (auto split: option.split intro!: keeps_bind keeps_resume simp: idle_halt_def)

lemma keeps_block: "authority_of k1 = authority_of k \<Longrightarrow> keeps_authority k (block_and_switch k1 f)"
  unfolding block_and_switch_def Let_def by (intro keeps_bind keeps_schedule) simp

lemma keeps_preempt: "keeps_authority k (preempt k f)"
  unfolding preempt_def Let_def by (auto split: option.split intro!: keeps_bind keeps_resume)

lemma keeps_watchdog: "keeps_authority k (watchdog_tick k f)"
  unfolding watchdog_tick_def Let_def
  by (auto intro!: keeps_bind keeps_schedule dest!: notify_supervisor_grants)

lemma keeps_contain: "keeps_authority k (contain_fault reason k f)"
  unfolding contain_fault_def Let_def
  by (auto intro!: keeps_bind keeps_schedule dest!: notify_supervisor_grants)

lemma keeps_deny_cap: "keeps_authority k (do { (k1, code) \<leftarrow> deny_cap c v k; Some (Ret k1 (set_a0 f code) ()) })"
  by (rule keeps_bind) (auto dest!: deny_cap_grants)

lemma keeps_send: "keeps_authority k (ipc_send pl k f)"
  unfolding ipc_send_def Let_def
  by (auto split: cap_verdict.split ep.split intro!: keeps_bind keeps_block keeps_deny_cap)

lemma copy_to_user_grants: "copy_to_user va len k = Some k' \<Longrightarrow> authority_of k' = authority_of k"
  by (auto simp: copy_to_user_def split: if_splits)

lemma keeps_recv: "keeps_authority k (ipc_recv k f)"
  unfolding ipc_recv_def Let_def emit_irq_delivered_def
  by (auto split: cap_verdict.split ep.split option.split intro!: keeps_bind keeps_block keeps_deny_cap dest!: copy_to_user_grants)

lemma keeps_deny_device:
  "keeps_authority k (deny_device kind v k f)" "keeps_authority k (out_of_range kind k f)"
  by (auto simp: keeps_authority_def dest!: deny_device_grants)

lemma irq_raise_grants: "irq_raise d k = Some (k', code) \<Longrightarrow> authority_of k' = authority_of k"
  by (cases "ep_get k (dd_irq_endpoint (DEVICES ! d))"; cases "the (ep_get k (dd_irq_endpoint (DEVICES ! d)))")
    (auto simp: irq_raise_def Let_def bind_eq_Some_conv emit_irq_delivered_def split: if_splits)

lemma keeps_irq_raise: "keeps_authority k (sys_irq_raise k f)"
  unfolding sys_irq_raise_def
  by (auto split: cap_verdict.split intro!: keeps_bind keeps_deny_device dest!: irq_raise_grants)

lemma keeps_dma: "keeps_authority k (dma_access r w k f)"
  unfolding dma_access_def Let_def by (auto split: cap_verdict.split intro!: keeps_bind keeps_deny_device)

lemma keeps_device_info: "keeps_authority k (sys_device_info k f)"
  unfolding sys_device_info_def Let_def by (auto split: cap_verdict.split intro!: keeps_bind keeps_deny_device)

lemma keeps_with_authority: "keeps_authority k body \<Longrightarrow> keeps_authority k (with_authority ty r what k f body)"
  unfolding with_authority_def by (auto intro!: keeps_bind dest!: deny_authority_grants)

lemma kill_task_grants [simp]: "authority_of (kill_task s k) = authority_of k"
  by (simp add: kill_task_def Let_def)

lemma keeps_kill: "keeps_authority k (sys_task_kill k f)"
  unfolding sys_task_kill_def Let_def by (rule keeps_with_authority) (simp add: keeps_schedule)

lemma rearm_grants [simp]: "authority_of (rearm s k) = authority_of k"
  by (simp add: rearm_def Let_def)

lemma keeps_restart: "keeps_authority k (sys_task_restart k f)"
  unfolding sys_task_restart_def Let_def by (rule keeps_with_authority) simp

lemma keeps_shutdown: "keeps_authority k (sys_shutdown k f)"
  unfolding sys_shutdown_def by (intro keeps_with_authority keeps_bind) simp

lemma keeps_fault_ack: "keeps_authority k (fault_ack k f)"
  unfolding fault_ack_def Let_def by (intro keeps_bind) simp

lemma keeps_con_write: "keeps_authority k (sys_con_write pl k f)"
  unfolding sys_con_write_def Let_def by (rule keeps_with_authority) simp

lemma keeps_con_read: "keeps_authority k (sys_con_read k f)"
  unfolding sys_con_read_def Let_def by (rule keeps_with_authority) (simp add: con_read_loop_eq)

lemma keeps_info: "keeps_authority k (sys_info k f)"
  unfolding sys_info_def Let_def by (auto intro!: keeps_with_authority keeps_bind split: option.split)

section \<open>The exceptions\<close>

text \<open>A register access the current task holds a capability for: a granted device, the right of
  the direction, and an aligned offset inside the device's register window.\<close>

definition reg_granted :: "kernel \<Rightarrow> u16 \<Rightarrow> u64 \<Rightarrow> u64 \<Rightarrow> bool" where
  "reg_granted k r addr w \<longleftrightarrow>
     (\<exists>c off. Some c \<in> set (t_caps (k_tasks k ! k_current k)) \<and> rc_otype c = OTYPE_DEVICE
        \<and> unat (rc_object_id c) < length DEVICES \<and> rc_rights c AND r = r
        \<and> access_in_bounds (dd_mmio_size (DEVICES ! unat (rc_object_id c))) off w
        \<and> addr = dd_mmio_base (DEVICES ! unat (rc_object_id c)) + off)"

fun access_granted :: "kernel \<Rightarrow> mmio_access \<Rightarrow> bool" where
  "access_granted k (MmioRead addr w) \<longleftrightarrow> reg_granted k DEV_RIGHT_MMIO_READ addr w"
| "access_granted k (MmioWrite addr w _) \<longleftrightarrow> reg_granted k DEV_RIGHT_MMIO_WRITE addr w"

text \<open>What a trap may do to the authority: the slots of a task change only when its service is
  started for the first time, and then to the slots of the service table; the register log grows
  by at most one access, and only by a granted one.\<close>

definition authority_step :: "kernel \<Rightarrow> kernel \<Rightarrow> bool" where
  "authority_step k k' \<longleftrightarrow> k_service_table k' = k_service_table k
     \<and> length (k_tasks k') = length (k_tasks k)
     \<and> (\<forall>i<length (k_tasks k). t_caps (k_tasks k' ! i) = t_caps (k_tasks k ! i)
          \<or> (\<exists>table sd. k_service_table k = Some table \<and> sd \<in> set table \<and> sv_slot sd = i
               \<and> t_state (k_tasks k ! i) = RtEmpty \<and> t_caps (k_tasks k' ! i) = sv_caps sd))
     \<and> (k_mmio k' = k_mmio k \<or> (\<exists>a. k_mmio k' = k_mmio k @ [a] \<and> access_granted k a))"

definition respects_authority :: "kernel \<Rightarrow> 'a outcome option \<Rightarrow> bool" where
  "respects_authority k r \<longleftrightarrow> (\<forall>k' f' x. r = Some (Ret k' f' x) \<longrightarrow> authority_step k k')"

lemma authority_step_same: "authority_of k' = authority_of k \<Longrightarrow> authority_step k k'"
proof -
  assume a: "authority_of k' = authority_of k"
  then have m: "map t_caps (k_tasks k') = map t_caps (k_tasks k)" by (simp add: authority_of_def)
  then have "length (k_tasks k') = length (k_tasks k)" by (rule map_eq_imp_length_eq)
  moreover have "t_caps (k_tasks k' ! i) = t_caps (k_tasks k ! i)" if "i < length (k_tasks k)" for i
    using m that \<open>length _ = length _\<close> by (metis nth_map)
  ultimately show ?thesis using a by (simp add: authority_step_def authority_of_def)
qed

lemma keeps_respects: "keeps_authority k r \<Longrightarrow> respects_authority k r"
  by (simp add: keeps_authority_def respects_authority_def authority_step_same)

lemma authority_step_from:
  assumes "authority_of k1 = authority_of k" "map t_state (k_tasks k1) = map t_state (k_tasks k)" "k_current k1 = k_current k"
    and "authority_step k1 k'" "k_current k < length (k_tasks k)"
  shows "authority_step k k'"
proof -
  have m: "map t_caps (k_tasks k1) = map t_caps (k_tasks k)" using assms(1) by (simp add: authority_of_def)
  have len: "length (k_tasks k1) = length (k_tasks k)" using m by (rule map_eq_imp_length_eq)
  have caps: "t_caps (k_tasks k1 ! i) = t_caps (k_tasks k ! i)" "t_state (k_tasks k1 ! i) = t_state (k_tasks k ! i)"
    if "i < length (k_tasks k)" for i
    using m assms(2) that len by (metis nth_map)+
  have "access_granted k1 a = access_granted k a" for a
    using caps(1) [OF assms(5)] assms(3) by (cases a) (simp_all add: reg_granted_def)
  then show ?thesis
    using assms(1,4) caps len by (auto simp: authority_step_def authority_of_def)
qed

lemma device_granted:
  assumes "kinv pl k f" "device_cap_check k (k_current k) ci r = Some (CapOk d)"
    and "access_in_bounds (dd_mmio_size (DEVICES ! unat d)) off w"
  shows "reg_granted k r (dd_mmio_base (DEVICES ! unat d) + off) w"
proof -
  obtain t c where c: "ci < CAPS_PER_TASK" "task_at k (k_current k) = Some t" "t_caps t ! ci = Some c"
      "rc_otype c = OTYPE_DEVICE" "rc_object_id c = d" "unat d < length DEVICES" "rc_rights c AND r = r"
    using assms(2) unfolding device_cap_check_CapOk by blast
  have t: "t = k_tasks k ! k_current k" using c(2) kinvD(6) [OF assms(1)] by simp
  have "ci < length (t_caps t)" using c(1) kinvD(9) [OF assms(1)] t by (simp add: task_ok_def caps_ok_def)
  then have "Some c \<in> set (t_caps (k_tasks k ! k_current k))" using c(3) t by (metis nth_mem)
  then show ?thesis using c assms(3) unfolding reg_granted_def by blast
qed

lemma mmio_log_authority: "access_granted k a \<Longrightarrow> authority_step k (mmio_report op t d off v (k\<lparr>k_mmio := k_mmio k @ [a]\<rparr>))"
  using mmio_report_console [of op t d off v "k\<lparr>k_mmio := k_mmio k @ [a]\<rparr>"] by (auto simp: authority_step_def)

lemma respects_Ret [simp]: "respects_authority k (Some (Ret k' f x)) \<longleftrightarrow> authority_step k k'"
  by (auto simp: respects_authority_def)

lemma respects_bind: "(\<And>x. m = Some x \<Longrightarrow> respects_authority k (g x)) \<Longrightarrow> respects_authority k (m \<bind> g)"
  by (cases m) (simp_all add: respects_authority_def)

lemma respects_mmio:
  assumes "kinv pl k f"
  shows "respects_authority k (sys_mmio_read pl k f)" "respects_authority k (sys_mmio_write k f)"
proof -
  show "respects_authority k (sys_mmio_read pl k f)"
    unfolding sys_mmio_read_def Let_def
    by (auto split: cap_verdict.split intro!: respects_bind keeps_respects [OF keeps_deny_device(1)]
        keeps_respects [OF keeps_deny_device(2)] mmio_log_authority device_granted [OF assms])
  show "respects_authority k (sys_mmio_write k f)"
    unfolding sys_mmio_write_def Let_def
    by (auto split: cap_verdict.split intro!: respects_bind keeps_respects [OF keeps_deny_device(1)]
        keeps_respects [OF keeps_deny_device(2)] mmio_log_authority device_granted [OF assms])
qed

lemma announce_grants [simp]: "authority_of (announce_grant s n e k) = authority_of k"
  by (cases e) (simp_all add: announce_grant_def Let_def)

lemma start_service_authority:
  assumes "start_service pl i k = Some (k', code)"
  shows "authority_step k k'"
proof -
  have same: ?thesis if "authority_of k' = authority_of k" using that by (rule authority_step_same)
  show ?thesis
  proof (cases "\<exists>table. k_service_table k = Some table \<and> i < length table \<and> t_state (k_tasks k ! sv_slot (table ! i)) = RtEmpty
      \<and> sv_slot (table ! i) < length (k_tasks k)")
    case False
    then show ?thesis using assms
      by (intro same) (auto simp: start_service_def Let_def bind_eq_Some_conv task_at_def split: option.splits if_splits rt_state.splits)
  next
    case True
    then obtain table where table: "k_service_table k = Some table" "i < length table" "sv_slot (table ! i) < length (k_tasks k)"
      and st: "t_state (k_tasks k ! sv_slot (table ! i)) = RtEmpty" by blast
    let ?sd = "table ! i"
    obtain tabs uas where "build_service_address_space (pl_link pl) (k_user_tables k) (sv_slot ?sd) (sv_entry ?sd) (sv_stack_phys ?sd)
        = Some (tabs, uas)"
      using assms table st by (auto simp: start_service_def Let_def bind_eq_Some_conv task_at_def)
    then have "authority_of k' = authority_of (k\<lparr>k_tasks := (k_tasks k)[sv_slot ?sd := service_tcb k ?sd uas]\<rparr>)"
      using assms table st
      by (auto simp: start_service_def Let_def bind_eq_Some_conv task_at_def register_task_def upd_task_def
          announce_device_grants_def grants_fold service_tcb_def authority_of_def [of "_\<lparr>k_tasks := _\<rparr>"] fresh_user_frame_def)
    then have "k_service_table k' = k_service_table k" "k_mmio k' = k_mmio k"
      and m: "map t_caps (k_tasks k') = map t_caps ((k_tasks k)[sv_slot ?sd := service_tcb k ?sd uas])"
      by (simp_all add: authority_of_def)
    moreover have len: "length (k_tasks k') = length (k_tasks k)" using map_eq_imp_length_eq [OF m] by simp
    moreover have "t_caps (k_tasks k' ! j) = (if j = sv_slot ?sd then sv_caps ?sd else t_caps (k_tasks k ! j))"
      if "j < length (k_tasks k)" for j
      using arg_cong [OF m, of "\<lambda>xs. xs ! j"] that len by (simp add: nth_list_update service_tcb_def)
    moreover have "?sd \<in> set table" using table(2) by simp
    ultimately show ?thesis using table(1) st by (auto simp: authority_step_def)
  qed
qed

lemma respects_start: "respects_authority k (sys_task_start pl k f)"
  unfolding sys_task_start_def with_authority_def
  by (auto intro!: respects_bind dest!: start_service_authority deny_authority_grants [THEN authority_step_same])

section \<open>Every trap respects the authority\<close>

lemma respects_consumed: "respects_authority k r \<Longrightarrow> respects_authority k (consumed r)"
  by (cases r; cases "the r") (auto simp: respects_authority_def consumed_def)

lemma respects_from:
  assumes "respects_authority k1 r" "authority_of k1 = authority_of k" "map t_state (k_tasks k1) = map t_state (k_tasks k)"
    and "k_current k1 = k_current k" "k_current k < length (k_tasks k)"
  shows "respects_authority k r"
  using assms(1) authority_step_from [OF assms(2-4) _ assms(5)] by (simp add: respects_authority_def)

lemmas keeps_handlers =
  keeps_switch keeps_send keeps_recv keeps_fault_ack keeps_con_write keeps_con_read keeps_info keeps_kill keeps_restart
  keeps_shutdown keeps_device_info keeps_dma keeps_irq_raise

lemma on_syscall_authority:
  assumes "kinv pl k f"
  shows "respects_authority k (on_syscall pl num k f)"
proof -
  let ?k = "k\<lparr>k_watchdog_miss := 0\<rparr>"
  have inv: "kinv pl ?k f" by (rule kinv_cong [OF assms]) (simp_all add: kinvD(4) [OF assms])
  note H = keeps_handlers [THEN keeps_respects, THEN respects_consumed, of ?k] respects_mmio [OF inv, THEN respects_consumed]
    respects_start [of ?k, THEN respects_consumed]
  have "respects_authority ?k (on_syscall pl num k f)"
    unfolding on_syscall_def Let_def sys_dma_read_def sys_dma_write_def
    using H by (simp add: kinvD(3) [OF assms] authority_step_same)
  then show ?thesis by (rule respects_from) (use kinvD(5,8) [OF assms] in simp_all)
qed

lemma syscall_dispatch_grants: "authority_of (fst (syscall_dispatch num f k)) = authority_of k"
  using syscall_dispatch_console [of num f k] by auto

lemma handle_ecall_authority:
  assumes "kinv pl k f"
  shows "respects_authority k (handle_ecall pl k f)"
proof -
  have inv: "kinv pl k (f\<lparr>tf_sepc := tf_sepc f + 4\<rparr>)" using assms by simp
  have "authority_step k k2" if "on_syscall pl (frame_a7 f) k (f\<lparr>tf_sepc := tf_sepc f + 4\<rparr>) = Some (Ret k1 f1 x)"
    "authority_of k2 = authority_of k1" for k1 f1 x k2
  proof -
    have "authority_step k k1" using on_syscall_authority [OF inv] that(1) by (auto simp: respects_authority_def)
    moreover have "length (k_tasks k2) = length (k_tasks k1)" "\<And>i. i < length (k_tasks k1) \<Longrightarrow> t_caps (k_tasks k2 ! i) = t_caps (k_tasks k1 ! i)"
      using authority_step_same [OF that(2)] that(2) map_eq_imp_length_eq [of t_caps "k_tasks k2" t_caps "k_tasks k1"]
      by (auto simp: authority_of_def) (metis nth_map)
    ultimately show ?thesis using that(2) by (auto simp: authority_step_def authority_of_def)
  qed
  note step = this
  show ?thesis
  proof (cases "on_syscall pl (frame_a7 f) k (f\<lparr>tf_sepc := tf_sepc f + 4\<rparr>)")
    case None
    then show ?thesis by (simp add: handle_ecall_def Let_def respects_authority_def)
  next
    case (Some r)
    show ?thesis
    proof (cases r)
      case (Ret k1 f1 x)
      have "authority_step k k1" "authority_step k (fst (syscall_dispatch (frame_a7 f) f1 k1))"
        using step [of k1 f1 x] Some Ret syscall_dispatch_grants by simp_all
      then show ?thesis using Some Ret by (simp add: handle_ecall_def Let_def split_beta)
    qed (use Some in \<open>simp_all add: handle_ecall_def Let_def respects_authority_def\<close>)
  qed
qed

lemma keeps_outcome:
  assumes "keeps_authority k r" "\<And>k1 f x. authority_of k1 = authority_of k \<Longrightarrow> keeps_authority k (g k1 f x)"
  shows "keeps_authority k (do { r \<leftarrow> r; case r of Ret k f x \<Rightarrow> g k f x | Halt k \<Rightarrow> Some (Halt k) | PowerOff k \<Rightarrow> Some (PowerOff k) })"
  using assms by (cases r; cases "the r") simp_all

lemma keeps_timer: "keeps_authority k (on_timer_interrupt now k f)"
  unfolding on_timer_interrupt_def Let_def
  by (rule keeps_outcome) (auto intro: keeps_from [OF _ keeps_watchdog] keeps_from [OF _ keeps_preempt])

lemma report_grants [simp]: "authority_of (report kind ti f k) = authority_of k"
  using report_console [of kind ti f k] by auto

lemma keeps_contain_or_halt:
  assumes "authority_of k1 = authority_of k"
  shows "keeps_authority k (contain_or_halt reason hl k1 f)"
proof -
  have "keeps_authority k (do { r \<leftarrow> contain_fault reason k1 f;
      case r of Ret k frame taken \<Rightarrow> if taken then Some (Ret k frame ())
              else (case contain_user_fault reason k frame of
                      Some (k, frame) \<Rightarrow> Some (Ret k frame ())
                    | None \<Rightarrow> Some (Halt (put_str hl k)))
       | Halt k \<Rightarrow> Some (Halt k) | PowerOff k \<Rightarrow> Some (PowerOff k) })"
    by (rule keeps_outcome [OF keeps_from [OF assms keeps_contain]])
      (auto simp: contain_user_fault_def split_beta split: option.split)
  then show ?thesis by (simp add: contain_or_halt_def keeps_authority_def bind_eq_Some_conv)
qed

lemma trap_handler_authority:
  assumes "kinv pl k f"
  shows "respects_authority k (trap_handler pl ti k f)"
  unfolding trap_handler_def Let_def
  using keeps_respects [OF keeps_timer] handle_ecall_authority [OF assms] keeps_respects [OF keeps_contain_or_halt]
  by (simp add: respects_authority_def [of _ "Some (Halt _)"])

section \<open>Denied calls\<close>

text \<open>The authority a system call needs: none, a capability in the slot that register a0 names, or
  a capability in any slot.\<close>

datatype need = Free | InSlot u8 u16 | InAny u8 u16

definition needed :: "u64 \<Rightarrow> need" where
  "needed num =
     (if num = SYS_SEND then InSlot OTYPE_ENDPOINT RIGHT_SEND
      else if num = SYS_RECV then InSlot OTYPE_ENDPOINT RIGHT_RECV
      else if num = SYS_DEVICE_INFO then InSlot OTYPE_DEVICE DEV_RIGHT_INFO
      else if num = SYS_MMIO_READ then InSlot OTYPE_DEVICE DEV_RIGHT_MMIO_READ
      else if num = SYS_MMIO_WRITE then InSlot OTYPE_DEVICE DEV_RIGHT_MMIO_WRITE
      else if num = SYS_DMA_READ then InSlot OTYPE_DEVICE DEV_RIGHT_DMA_READ
      else if num = SYS_DMA_WRITE then InSlot OTYPE_DEVICE DEV_RIGHT_DMA_WRITE
      else if num = SYS_IRQ_RAISE then InSlot OTYPE_DEVICE DEV_RIGHT_DRIVER_CONTROL
      else if num \<in> {SYS_TASK_START, SYS_TASK_KILL, SYS_TASK_RESTART, SYS_SHUTDOWN} then InAny OTYPE_CONTROL RIGHT_CONTROL
      else if num = SYS_CON_WRITE then InAny OTYPE_CONSOLE RIGHT_SEND
      else if num = SYS_CON_READ then InAny OTYPE_CONSOLE RIGHT_RECV
      else if num = SYS_INFO then InAny OTYPE_INFO RIGHT_RECV
      else Free)"

definition grants_right :: "u8 \<Rightarrow> u16 \<Rightarrow> rt_cap option \<Rightarrow> bool" where
  "grants_right ty r slot \<longleftrightarrow> (\<exists>c. slot = Some c \<and> rc_otype c = ty \<and> rc_rights c AND r = r)"

fun need_met :: "need \<Rightarrow> rt_cap option list \<Rightarrow> nat \<Rightarrow> bool" where
  "need_met Free caps ci \<longleftrightarrow> True"
| "need_met (InSlot ty r) caps ci \<longleftrightarrow> ci < length caps \<and> grants_right ty r (caps ! ci)"
| "need_met (InAny ty r) caps ci \<longleftrightarrow> list_ex (grants_right ty r) caps"

text \<open>A denial: an entry in the event ring, a line on the console, an error in a0 and nothing
  else.\<close>

definition denied :: "kernel \<Rightarrow> trap_frame \<Rightarrow> 'a \<Rightarrow> 'a outcome option \<Rightarrow> bool" where
  "denied k f x r \<longleftrightarrow> (\<exists>c code. r = Some (Ret ((ring_push EV_CAP_DENIED (k_current k) k)\<lparr>k_console := c\<rparr>) (set_a0 f code) x)
     \<and> code \<in> {ERR_INVALID_CAP, ERR_WRONG_OBJECT_TYPE, ERR_INSUFFICIENT_RIGHTS})"

lemma deniedI:
  "r = Some (Ret ((ring_push EV_CAP_DENIED (k_current k) k)\<lparr>k_console := c\<rparr>) (set_a0 f code) x) \<Longrightarrow>
     code \<in> {ERR_INVALID_CAP, ERR_WRONG_OBJECT_TYPE, ERR_INSUFFICIENT_RIGHTS} \<Longrightarrow> denied k f x r"
  unfolding denied_def by blast

lemma cap_check_CapOk_held:
  assumes "cap_check k cur ci r = Some (CapOk e)" "task_at k cur = Some t" "length (t_caps t) = CAPS_PER_TASK"
  shows "need_met (InSlot OTYPE_ENDPOINT r) (t_caps t) ci"
  using assms by (auto simp: cap_check_def bind_eq_Some_conv rt_check_CapOk grants_right_def split: if_splits)

lemma device_cap_check_CapOk_held:
  assumes "device_cap_check k cur ci r = Some (CapOk e)" "task_at k cur = Some t" "length (t_caps t) = CAPS_PER_TASK"
  shows "need_met (InSlot OTYPE_DEVICE r) (t_caps t) ci"
  using assms by (auto simp: device_cap_check_CapOk grants_right_def)

lemma cap_find_held:
  "task_at k cur = Some t \<Longrightarrow> cap_find k cur ty r = Some (need_met (InAny ty r) (t_caps t) ci)"
proof -
  have "(\<lambda>c. case c of None \<Rightarrow> False | Some c \<Rightarrow> rc_otype c = ty \<and> rc_rights c AND r = r) = grants_right ty r"
    by (auto simp: fun_eq_iff grants_right_def split: option.splits)
  then show "task_at k cur = Some t \<Longrightarrow> cap_find k cur ty r = Some (need_met (InAny ty r) (t_caps t) ci)"
    by (simp add: cap_find_def)
qed

lemma error_codes:
  assumes "\<forall>i. v \<noteq> CapOk i"
  shows "cap_error_code v \<in> {ERR_INVALID_CAP, ERR_WRONG_OBJECT_TYPE, ERR_INSUFFICIENT_RIGHTS}"
    "fst (device_check_err v) \<in> {ERR_INVALID_CAP, ERR_WRONG_OBJECT_TYPE, ERR_INSUFFICIENT_RIGHTS}"
  using assms by (cases v; simp)+

lemma device_denied:
  assumes "kinv pl k f" "\<not> need_met (InSlot OTYPE_DEVICE r) (t_caps (k_tasks k ! k_current k)) ci"
  shows "denied k f () (do { check \<leftarrow> device_cap_check k (k_current k) ci r;
          case check of CapOk d \<Rightarrow> body d | other \<Rightarrow> deny_device kind other k f })"
proof -
  note K = kinvD [OF assms(1)]
  have len: "length (t_caps (k_tasks k ! k_current k)) = CAPS_PER_TASK" using K(9) by (simp add: task_ok_def caps_ok_def)
  obtain v where v: "device_cap_check k (k_current k) ci r = Some v" using device_cap_check_total [OF assms(1)] by blast
  have no: "\<forall>i. v \<noteq> CapOk i" using device_cap_check_CapOk_held [OF _ K(6) len] assms(2) v by blast
  obtain c where "deny_device kind v k f = Some (Ret ((ring_push EV_CAP_DENIED (k_current k) k)\<lparr>k_console := c\<rparr>)
      (set_a0 f (fst (device_check_err v))) ())"
    using deny_device_eq [OF assms(1)] by blast
  moreover have "(do { check \<leftarrow> device_cap_check k (k_current k) ci r;
          case check of CapOk d \<Rightarrow> body d | other \<Rightarrow> deny_device kind other k f }) = deny_device kind v k f"
    using v no by (cases v) simp_all
  ultimately show ?thesis using error_codes(2) [OF no] by (auto intro: deniedI)
qed

lemma authority_denied:
  assumes "kinv pl k f" "\<not> need_met (InAny ty r) (t_caps (k_tasks k ! k_current k)) ci"
  shows "denied k f () (with_authority ty r what k f body)"
proof -
  obtain c where "deny_authority (k_current k) what k =
      Some ((ring_push EV_CAP_DENIED (k_current k) k)\<lparr>k_console := c\<rparr>, ERR_INVALID_CAP)"
    using deny_authority_eq [OF assms(1)] by blast
  then show ?thesis
    using cap_find_held [OF kinvD(6) [OF assms(1)], of ty r ci] assms(2) by (intro deniedI [where c = c and code = ERR_INVALID_CAP]) (simp_all add: with_authority_def)
qed

lemma ipc_denied:
  assumes "kinv pl k f" "\<not> need_met (InSlot OTYPE_ENDPOINT r) (t_caps (k_tasks k ! k_current k)) (unat (tf_regs f ! 9))"
  shows "r = RIGHT_SEND \<Longrightarrow> denied k f () (ipc_send pl k f)" "r = RIGHT_RECV \<Longrightarrow> denied k f () (ipc_recv k f)"
proof -
  note K = kinvD [OF assms(1)]
  have len: "length (t_caps (k_tasks k ! k_current k)) = CAPS_PER_TASK" using K(9) by (simp add: task_ok_def caps_ok_def)
  obtain v where v: "cap_check k (k_current k) (unat (tf_regs f ! 9)) r = Some v" using cap_check_total [OF assms(1)] by blast
  have no: "\<forall>i. v \<noteq> CapOk i" using cap_check_CapOk_held [OF _ K(6) len] assms(2) v by blast
  obtain c where d: "deny_cap (k_current k) v k = Some ((ring_push EV_CAP_DENIED (k_current k) k)\<lparr>k_console := c\<rparr>, cap_error_code v)"
    using deny_cap_eq [OF assms(1)] by blast
  show "r = RIGHT_SEND \<Longrightarrow> denied k f () (ipc_send pl k f)"
    using v d no error_codes [OF no] K(6) by (intro deniedI [where c = c and code = "cap_error_code v"]; cases v) (simp_all add: ipc_send_def Let_def)
  show "r = RIGHT_RECV \<Longrightarrow> denied k f () (ipc_recv k f)"
    using v d no error_codes [OF no] K(6) by (intro deniedI [where c = c and code = "cap_error_code v"]; cases v) (simp_all add: ipc_recv_def Let_def)
qed

lemma denied_consumed: "denied k f () r \<Longrightarrow> denied k f True (consumed r)"
  by (auto simp: denied_def consumed_def)

lemma device_calls_denied:
  assumes "kinv pl k f"
  shows "\<not> need_met (InSlot OTYPE_DEVICE DEV_RIGHT_INFO) (t_caps (k_tasks k ! k_current k)) (unat (tf_regs f ! 9)) \<Longrightarrow> denied k f () (sys_device_info k f)"
    "\<not> need_met (InSlot OTYPE_DEVICE DEV_RIGHT_MMIO_READ) (t_caps (k_tasks k ! k_current k)) (unat (tf_regs f ! 9)) \<Longrightarrow> denied k f () (sys_mmio_read pl k f)"
    "\<not> need_met (InSlot OTYPE_DEVICE DEV_RIGHT_MMIO_WRITE) (t_caps (k_tasks k ! k_current k)) (unat (tf_regs f ! 9)) \<Longrightarrow> denied k f () (sys_mmio_write k f)"
    "\<not> need_met (InSlot OTYPE_DEVICE DEV_RIGHT_DMA_READ) (t_caps (k_tasks k ! k_current k)) (unat (tf_regs f ! 9)) \<Longrightarrow> denied k f () (sys_dma_read k f)"
    "\<not> need_met (InSlot OTYPE_DEVICE DEV_RIGHT_DMA_WRITE) (t_caps (k_tasks k ! k_current k)) (unat (tf_regs f ! 9)) \<Longrightarrow> denied k f () (sys_dma_write k f)"
    "\<not> need_met (InSlot OTYPE_DEVICE DEV_RIGHT_DRIVER_CONTROL) (t_caps (k_tasks k ! k_current k)) (unat (tf_regs f ! 9)) \<Longrightarrow> denied k f () (sys_irq_raise k f)"
  unfolding sys_device_info_def sys_mmio_read_def sys_mmio_write_def sys_dma_read_def sys_dma_write_def dma_access_def
    sys_irq_raise_def Let_def
  by (rule device_denied [OF assms], assumption)+

lemma authority_calls_denied:
  assumes "kinv pl k f"
  shows "\<not> need_met (InAny OTYPE_CONTROL RIGHT_CONTROL) (t_caps (k_tasks k ! k_current k)) (unat (tf_regs f ! 9)) \<Longrightarrow> denied k f () (sys_task_start pl k f)"
    "\<not> need_met (InAny OTYPE_CONTROL RIGHT_CONTROL) (t_caps (k_tasks k ! k_current k)) (unat (tf_regs f ! 9)) \<Longrightarrow> denied k f () (sys_task_kill k f)"
    "\<not> need_met (InAny OTYPE_CONTROL RIGHT_CONTROL) (t_caps (k_tasks k ! k_current k)) (unat (tf_regs f ! 9)) \<Longrightarrow> denied k f () (sys_task_restart k f)"
    "\<not> need_met (InAny OTYPE_CONTROL RIGHT_CONTROL) (t_caps (k_tasks k ! k_current k)) (unat (tf_regs f ! 9)) \<Longrightarrow> denied k f () (sys_shutdown k f)"
    "\<not> need_met (InAny OTYPE_CONSOLE RIGHT_SEND) (t_caps (k_tasks k ! k_current k)) (unat (tf_regs f ! 9)) \<Longrightarrow> denied k f () (sys_con_write pl k f)"
    "\<not> need_met (InAny OTYPE_CONSOLE RIGHT_RECV) (t_caps (k_tasks k ! k_current k)) (unat (tf_regs f ! 9)) \<Longrightarrow> denied k f () (sys_con_read k f)"
    "\<not> need_met (InAny OTYPE_INFO RIGHT_RECV) (t_caps (k_tasks k ! k_current k)) (unat (tf_regs f ! 9)) \<Longrightarrow> denied k f () (sys_info k f)"
  unfolding sys_task_start_def sys_task_kill_def sys_task_restart_def sys_shutdown_def sys_con_write_def sys_con_read_def
    sys_info_def
  by (rule authority_denied [OF assms], assumption)+

lemma unauthorised_denied:
  assumes "kinv pl k f" "\<not> need_met (needed num) (t_caps (k_tasks k ! k_current k)) (unat (tf_regs f ! 9))"
  shows "denied (k\<lparr>k_watchdog_miss := 0\<rparr>) f True (on_syscall pl num k f)"
proof -
  let ?k = "k\<lparr>k_watchdog_miss := 0\<rparr>"
  have inv: "kinv pl ?k f" by (rule kinv_cong [OF assms(1)]) (simp_all add: kinvD(4) [OF assms(1)])
  have same: "k_tasks ?k = k_tasks k" "k_current ?k = k_current k" by simp_all
  note D = device_calls_denied [OF inv, unfolded same, THEN denied_consumed]
    authority_calls_denied [OF inv, unfolded same, THEN denied_consumed]
    ipc_denied [OF inv, unfolded same, OF _ refl, THEN denied_consumed]
  have act: "k_active k" by (rule kinvD(3) [OF assms(1)])
  consider (1) "num = SYS_DEVICE_INFO"
    | (2) "num = SYS_MMIO_READ"
    | (3) "num = SYS_MMIO_WRITE"
    | (4) "num = SYS_DMA_READ"
    | (5) "num = SYS_DMA_WRITE"
    | (6) "num = SYS_IRQ_RAISE"
    | (7) "num = SYS_TASK_START"
    | (8) "num = SYS_TASK_KILL"
    | (9) "num = SYS_TASK_RESTART"
    | (10) "num = SYS_SHUTDOWN"
    | (11) "num = SYS_CON_WRITE"
    | (12) "num = SYS_CON_READ"
    | (13) "num = SYS_INFO"
    | (14) "num = SYS_SEND"
    | (15) "num = SYS_RECV"
    using assms(2) by (auto simp: needed_def split: if_splits)
  then show ?thesis
    using assms(2) by cases (simp_all add: D act on_syscall_def needed_def sys_consts)
qed

section \<open>The running check and the capability table\<close>

text \<open>A task's slots as a capability table of the host model: endpoints keep their type, every other
  object type of the running system is a type other than \<open>Endpoint\<close>.\<close>

definition host_cap :: "rt_cap \<Rightarrow> capability" where
  "host_cap c = capability_new \<lparr>object_type = (if rc_otype c = OTYPE_ENDPOINT then Endpoint else Thread),
     object_id = rc_object_id c\<rparr> (Rights (rc_rights c))"

definition host_table :: "rt_cap option list \<Rightarrow> cap_table" where
  "host_table caps = \<lparr>cap_slots = map (map_option host_cap) caps @ replicate (CAP_TABLE_SLOTS - length caps) None\<rparr>"

fun verdict_of :: "(cap_error, object_ref) result \<Rightarrow> cap_verdict" where
  "verdict_of (Ok ob) = CapOk (object_id ob)"
| "verdict_of (Err WrongObjectType) = CapWrongType"
| "verdict_of (Err InsufficientRights) = CapInsufficientRights"
| "verdict_of (Err _) = CapInvalid"

lemma host_table_slot:
  assumes "length caps = CAPS_PER_TASK" "i < CAP_TABLE_SLOTS"
  shows "cap_slots (host_table caps) ! i = (if i < CAPS_PER_TASK then map_option host_cap (caps ! i) else None)"
  using assms by (simp add: host_table_def nth_append CAP_TABLE_SLOTS_def CAPS_PER_TASK_def)

section \<open>Properties\<close>

text \<open>C24. The capability check of the running dispatcher is the table lookup of the capability
  module: for a task of a well-formed state, every slot index and every right, \<open>cap_check\<close>
  gives the verdict of \<open>cap_lookup\<close> for an endpoint on the task's slots read as a table, and
  the error code the dispatcher returns for a refusal is the one the system call layer maps the lookup
  error to.\<close>

theorem runtime_check_is_table_lookup:
  assumes "kwf pl k" and "cur < MAX_TASKS"
  shows "let found = cap_lookup (host_table (t_caps (k_tasks k ! cur))) ci Endpoint (Rights r)
    in cap_check k cur ci r = Some (verdict_of found)
       \<and> (\<forall>e. found = Err e \<longrightarrow> cap_error_code (verdict_of found) = map_cap_error e)"
proof -
  let ?t = "k_tasks k ! cur"
  have at: "task_at k cur = Some ?t" using task_at_Some [OF wf_shape [OF assms(1)] assms(2)] .
  have len: "length (t_caps ?t) = CAPS_PER_TASK"
    using wf_task_ok [OF assms] by (simp add: task_ok_def caps_ok_def)
  have code: "cap_error_code (verdict_of (Err e)) = map_cap_error e" for e by (cases e) simp_all
  show ?thesis
  proof (cases "ci < CAPS_PER_TASK")
    case False
    then have "cap_lookup (host_table (t_caps ?t)) ci Endpoint (Rights r) \<in> {Err InvalidIndex, Err EmptySlot}"
      using host_table_slot [OF len, of ci] by (simp add: cap_lookup_def)
    then show ?thesis using False code by (auto simp: cap_check_def Let_def)
  next
    case True
    then have "ci < CAP_TABLE_SLOTS" by (simp add: CAPS_PER_TASK_def CAP_TABLE_SLOTS_def)
    then have "cap_lookup (host_table (t_caps ?t)) ci Endpoint (Rights r) =
        (case t_caps ?t ! ci of None \<Rightarrow> Err EmptySlot
         | Some c \<Rightarrow> if rc_otype c \<noteq> OTYPE_ENDPOINT then Err WrongObjectType
             else if rc_rights c AND r \<noteq> r then Err InsufficientRights
             else Ok \<lparr>object_type = Endpoint, object_id = rc_object_id c\<rparr>)"
      using True host_table_slot [OF len, of ci]
      by (simp add: cap_lookup_def host_cap_def capability_new_def rights_contains_def split: option.split)
    then show ?thesis using True at code by (simp add: cap_check_def rt_check_def Let_def split: option.split)
  qed
qed

theorem runtime_check_is_table_lookup_witness:
  "cap_check sample_kernel 0 0 RIGHT_SEND = Some (CapOk 0)"
proof -
  have "cap_lookup (host_table (t_caps (k_tasks sample_kernel ! 0))) 0 Endpoint (Rights RIGHT_SEND)
      = Ok \<lparr>object_type = Endpoint, object_id = 0\<rparr>"
    by (simp add: cap_lookup_def host_table_def CAP_TABLE_SLOTS_def sample_nth sample_task_def host_cap_def capability_new_def
        cap_endpoint_def rights_contains_def)
  then show ?thesis
    using runtime_check_is_table_lookup [OF kinvD(1) [OF sample_kinv], of 0 0 RIGHT_SEND] by (simp add: MAX_TASKS_def)
qed

text \<open>C5. Deny by default: a system call that needs a capability the caller does not hold (in the
  slot register a0 names for IPC and device calls, in any slot for task control, console and
  introspection calls) changes nothing but the watchdog count, the event ring, the console and the
  result register, which gets one of the three capability errors.\<close>

theorem unauthorised_call_has_no_effect:
  assumes "kinv pl k f" and "\<not> need_met (needed num) (t_caps (k_tasks k ! k_current k)) (unat (tf_regs f ! 9))"
  shows "\<exists>c code. on_syscall pl num k f =
      Some (Ret ((ring_push EV_CAP_DENIED (k_current k) (k\<lparr>k_watchdog_miss := 0\<rparr>))\<lparr>k_console := c\<rparr>) (set_a0 f code) True)
    \<and> code \<in> {ERR_INVALID_CAP, ERR_WRONG_OBJECT_TYPE, ERR_INSUFFICIENT_RIGHTS}"
  using unauthorised_denied [OF assms] unfolding denied_def by simp

theorem unauthorised_call_has_no_effect_witness:
  "\<exists>c code. on_syscall sample_platform SYS_CON_WRITE sample_kernel sample_frame =
      Some (Ret ((ring_push EV_CAP_DENIED 0 (sample_kernel\<lparr>k_watchdog_miss := 0\<rparr>))\<lparr>k_console := c\<rparr>) (set_a0 sample_frame code) True)"
proof -
  have "\<not> need_met (needed SYS_CON_WRITE) (t_caps (k_tasks sample_kernel ! k_current sample_kernel)) (unat (tf_regs sample_frame ! 9))"
    by (simp add: needed_def sys_consts sample_nth sample_task_def grants_right_def cap_endpoint_def cap_control_def
        OTYPE_CONSOLE_def OTYPE_CONTROL_def OTYPE_ENDPOINT_def list_ex_iff)
  from unauthorised_call_has_no_effect [OF sample_kinv this] show ?thesis by auto
qed

text \<open>C26. Authority is never created by a trap: the capability slots of a task change only when its
  service is started for the first time, and then to the slots the service table gives it; the
  table never changes; and a trap makes at most one device register access, inside the register
  window of a device the caller holds a capability for, with the right of the direction.\<close>

theorem trap_creates_no_authority:
  assumes "kinv pl k f" and "trap_handler pl ti k f = Some (Ret k' f' x)"
  shows "k_service_table k' = k_service_table k
    \<and> (\<forall>i<MAX_TASKS. t_caps (k_tasks k' ! i) = t_caps (k_tasks k ! i)
         \<or> (\<exists>table sd. k_service_table k = Some table \<and> sd \<in> set table \<and> sv_slot sd = i
              \<and> t_state (k_tasks k ! i) = RtEmpty \<and> t_caps (k_tasks k' ! i) = sv_caps sd))
    \<and> (k_mmio k' = k_mmio k \<or> (\<exists>a. k_mmio k' = k_mmio k @ [a] \<and> access_granted k a))"
  using trap_handler_authority [OF assms(1), of ti] assms(2) kinvD(8) [OF assms(1)]
  by (simp add: respects_authority_def authority_step_def)

theorem trap_creates_no_authority_witness:
  "\<exists>k' f' x. trap_handler sample_platform \<lparr>ti_scause = 0x8000000000000005, ti_stval = 0, ti_time = 0\<rparr> sample_kernel sample_frame
     = Some (Ret k' f' x) \<and> k_service_table k' = None \<and> (k_mmio k' = [] \<or> (\<exists>a. k_mmio k' = [a] \<and> access_granted sample_kernel a))"
proof -
  let ?ti = "\<lparr>ti_scause = 0x8000000000000005, ti_stval = 0, ti_time = 0\<rparr>"
  obtain k' f' x where "on_timer_interrupt 0 sample_kernel sample_frame = Some (Ret k' f' x)"
    using sample_tick by (auto split: option.splits outcome.splits)
  then have t: "trap_handler sample_platform ?ti sample_kernel sample_frame = Some (Ret k' f' x)"
    by (simp add: trap_handler_def INTERRUPT_BIT_def CAUSE_SUPERVISOR_TIMER_def)
  then show ?thesis using trap_creates_no_authority [OF sample_kinv t] by auto
qed

end
