(* ===== verification/Machine.thy ===== *)
theory Machine
  imports Authority
begin

text \<open>
  The machine as a transition system: user code runs between traps and may change its registers
  and its own memory arbitrarily, a trap runs \<open>trap_handler\<close>. The interfaces \<open>safe_machine\<close> and
  \<open>guided_machine\<close> say what is needed of a step to conclude about whole runs; they are
  interpreted on the machine of this kernel.
\<close>

section \<open>Steps\<close>

type_synonym mstate = "kernel \<times> trap_frame"

text \<open>User mode reaches memory through its own address space only; received serial input
  appears at any time.\<close>

inductive machine_step :: "platform \<Rightarrow> mstate \<Rightarrow> mstate \<Rightarrow> bool" for pl where
  user: "user_frame f' \<Longrightarrow>
    machine_step pl (k, f) (k\<lparr>k_umem := (k_umem k)(k_satp_root k := m), k_input := inp\<rparr>, f')"
| trap: "trap_handler pl ti k f = Some (Ret k' f' ()) \<Longrightarrow> machine_step pl (k, f) (k', f')"

inductive_cases machine_stepE: "machine_step pl (k, f) s"

section \<open>Interfaces\<close>

locale safe_machine =
  fixes step :: "'s \<Rightarrow> 's \<Rightarrow> bool" and inv :: "'s \<Rightarrow> bool" and live :: "'s \<Rightarrow> bool"
  assumes step_inv: "inv s \<Longrightarrow> step s s' \<Longrightarrow> inv s'"
    and inv_live: "inv s \<Longrightarrow> live s"
begin

lemma run_inv: "step\<^sup>*\<^sup>* s s' \<Longrightarrow> inv s \<Longrightarrow> inv s'"
  by (induction rule: rtranclp_induct) (auto intro: step_inv)

lemma run_live: "step\<^sup>*\<^sup>* s s' \<Longrightarrow> inv s \<Longrightarrow> live s'"
  using run_inv inv_live by blast

end

text \<open>A machine whose steps stay inside a preorder of states: so do its runs.\<close>

locale guided_machine = safe_machine +
  fixes guide :: "'a \<Rightarrow> 'a \<Rightarrow> bool"
  assumes guide_refl: "guide s s" and guide_trans: "guide s t \<Longrightarrow> guide t u \<Longrightarrow> guide s u"
    and step_guide: "inv s \<Longrightarrow> step s s' \<Longrightarrow> guide s s'"
begin

lemma run_guide: "step\<^sup>*\<^sup>* s s' \<Longrightarrow> inv s \<Longrightarrow> guide s s'"
proof (induction rule: rtranclp_induct)
  case base
  show ?case by (rule guide_refl)
next
  case (step t u)
  then have "guide t u" using run_inv step_guide by blast
  then show ?case using guide_trans step by blast
qed

end

section \<open>This kernel\<close>

definition machine_inv :: "platform \<Rightarrow> mstate \<Rightarrow> bool" where
  "machine_inv pl s = kinv pl (fst s) (snd s)"

text \<open>The kernel takes the next trap, whatever it is, without a panic.\<close>

definition takes_traps :: "platform \<Rightarrow> mstate \<Rightarrow> bool" where
  "takes_traps pl s \<longleftrightarrow> (\<forall>ti. trap_handler pl ti (fst s) (snd s) \<noteq> None)"

lemma user_kinv: "kinv pl k f \<Longrightarrow> user_frame f' \<Longrightarrow> kinv pl (k\<lparr>k_umem := m, k_input := i\<rparr>) f'"
  by (erule kinv_cong) simp_all

lemma trap_returns: "kinv pl k f \<Longrightarrow> trap_handler pl ti k f = Some (Ret k' f' x) \<Longrightarrow> step_ok pl k k' f'"
  using trap_handler_step [of pl k f ti] by simp

lemma machine_step_inv: "machine_inv pl s \<Longrightarrow> machine_step pl s s' \<Longrightarrow> machine_inv pl s'"
proof -
  assume inv: "machine_inv pl s" and st: "machine_step pl s s'"
  obtain k f where s: "s = (k, f)" by fastforce
  have k: "kinv pl k f" using inv s by (simp add: machine_inv_def)
  from st [unfolded s] show "machine_inv pl s'"
    by (rule machine_stepE) (use user_kinv [OF k] trap_returns [OF k] in \<open>auto simp: machine_inv_def step_ok_def\<close>)
qed

lemma machine_live: "machine_inv pl s \<Longrightarrow> takes_traps pl s"
  unfolding takes_traps_def machine_inv_def
proof
  fix ti assume "kinv pl (fst s) (snd s)"
  from trap_handler_step [OF this, of ti] show "trap_handler pl ti (fst s) (snd s) \<noteq> None"
    by (cases "trap_handler pl ti (fst s) (snd s)") simp_all
qed

text \<open>Over a run the capability slots of a task stay, or are those the service table gives it, and
  the register log only grows.\<close>

definition authority_kept :: "mstate \<Rightarrow> mstate \<Rightarrow> bool" where
  "authority_kept s s' \<longleftrightarrow> (let k = fst s; k' = fst s' in
     k_service_table k' = k_service_table k \<and> length (k_tasks k') = length (k_tasks k)
     \<and> (\<exists>new. k_mmio k' = k_mmio k @ new)
     \<and> (\<forall>i<length (k_tasks k). t_caps (k_tasks k' ! i) = t_caps (k_tasks k ! i)
          \<or> (\<exists>table sd. k_service_table k = Some table \<and> sd \<in> set table \<and> sv_slot sd = i \<and> t_caps (k_tasks k' ! i) = sv_caps sd)))"

lemma authority_kept_step: "authority_step k k' \<Longrightarrow> authority_kept (k, f) (k', f')"
  by (auto simp: authority_kept_def authority_step_def)

lemma machine_step_authority: "machine_inv pl s \<Longrightarrow> machine_step pl s s' \<Longrightarrow> authority_step (fst s) (fst s')"
proof -
  assume inv: "machine_inv pl s" and st: "machine_step pl s s'"
  obtain k f where s: "s = (k, f)" by fastforce
  have k: "kinv pl k f" using inv s by (simp add: machine_inv_def)
  from st [unfolded s] show "authority_step (fst s) (fst s')"
    by (rule machine_stepE)
      (use trap_handler_authority [OF k] in \<open>auto simp: s respects_authority_def intro: authority_step_same\<close>)
qed

interpretation axiomrt: guided_machine "machine_step pl" "machine_inv pl" "takes_traps pl" authority_kept for pl
proof
  show "machine_inv pl s'" if "machine_inv pl s" "machine_step pl s s'" for s s' using machine_step_inv that .
  show "takes_traps pl s" if "machine_inv pl s" for s using machine_live that .
  show "authority_kept s s" for s by (simp add: authority_kept_def Let_def)
  show "authority_kept s u" if "authority_kept s t" "authority_kept t u" for s t u
    using that unfolding authority_kept_def Let_def by (auto; metis)
  show "authority_kept s s'" if "machine_inv pl s" "machine_step pl s s'" for s s'
    using authority_kept_step machine_step_authority [OF that] by (metis prod.collapse)
qed

end
