(* ===== verification/Os_Boot.thy ===== *)
theory Os_Boot
  imports Machine
begin

text \<open>
  The boot flow of the operating system (\<open>os_boot\<close> in \<open>os_boot.rs\<close>): the static service table,
  the entries, stacks and capability grants patched into it, registration of the first task, and
  the hand-over to the dispatcher. The addresses the linker gives to the task bodies and to the
  stacks are the fields of \<open>boot_map\<close>; everything else a static initialiser fixes is the state
  \<open>reset_kernel\<close>.
\<close>

section \<open>Service table\<close>

definition CAP_RIGHT_FS_READ :: u16 where "CAP_RIGHT_FS_READ = push_bit 5 1"
definition CAP_RIGHT_FS_LIST :: u16 where "CAP_RIGHT_FS_LIST = push_bit 6 1"
definition CAP_RIGHT_STORAGE_INFO :: u16 where "CAP_RIGHT_STORAGE_INFO = push_bit 8 1"
definition CAP_RIGHT_STORAGE_READ :: u16 where "CAP_RIGHT_STORAGE_READ = push_bit 9 1"
definition CAP_RIGHT_NET_STATUS :: u16 where "CAP_RIGHT_NET_STATUS = push_bit 10 1"
definition CAP_RIGHT_NET_TX :: u16 where "CAP_RIGHT_NET_TX = push_bit 11 1"
definition CAP_RIGHT_NET_RX :: u16 where "CAP_RIGHT_NET_RX = push_bit 12 1"
definition CAP_RIGHT_NET_CONTROL :: u16 where "CAP_RIGHT_NET_CONTROL = push_bit 13 1"

definition EP_APP :: u32 where "EP_APP = 0"
definition EP_LINE :: u32 where "EP_LINE = 1"
definition EP_FS :: u32 where "EP_FS = 4"
definition EP_STOR :: u32 where "EP_STOR = 5"
definition EP_DRV :: u32 where "EP_DRV = 6"
definition EP_BLK :: u32 where "EP_BLK = 7"
definition EP_IRQ :: u32 where "EP_IRQ = 8"
definition EP_NET_DRV :: u32 where "EP_NET_DRV = 9"
definition EP_NET_IRQ :: u32 where "EP_NET_IRQ = 10"
definition EP_NET :: u32 where "EP_NET = 11"

lemmas ep_consts [ax_const] =
  EP_APP_def EP_LINE_def EP_FAULT_def EP_EVENT_def EP_FS_def EP_STOR_def EP_DRV_def EP_BLK_def EP_IRQ_def
  EP_NET_DRV_def EP_NET_IRQ_def EP_NET_def

definition NO_CAPS :: "rt_cap option list" where
  "NO_CAPS = replicate CAPS_PER_TASK None"

definition service_entry :: "string \<Rightarrow> u8 \<Rightarrow> nat \<Rightarrow> service_def" where
  "service_entry name prio slot =
     \<lparr>sv_name = name, sv_entry = 0, sv_stack_phys = 0, sv_prio = prio, sv_slot = slot, sv_caps = NO_CAPS\<rparr>"

definition TABLE :: "service_def list" where
  "TABLE =
     [service_entry ''supervisor_service'' 6 1, service_entry ''logger_service'' 5 2,
      service_entry ''console_service'' 1 3, service_entry ''shell_service'' 3 4,
      service_entry ''faulty_task'' 4 5, service_entry ''app_loader_service'' 2 6,
      service_entry ''hello'' 2 7, service_entry ''fault_demo'' 2 8, service_entry ''counter'' 2 9,
      service_entry ''fs_service'' 2 10, service_entry ''storage_service'' 2 11,
      service_entry ''driver_manager'' 2 12, service_entry ''block_driver_service'' 2 13,
      service_entry ''net_driver_service'' 2 14, service_entry ''net_service'' 2 15]"

section \<open>Boot\<close>

record boot_map =
  bm_body :: "string \<Rightarrow> u64"
  bm_stacks :: u64
  bm_time :: u64

definition stack_phys :: "boot_map \<Rightarrow> nat \<Rightarrow> u64" where
  "stack_phys bm i = bm_stacks bm + of_nat i * 4096"

text \<open>The assignments to one row: entry, stack and the leading capability slots.\<close>

definition patch :: "boot_map \<Rightarrow> nat \<Rightarrow> string \<Rightarrow> rt_cap list \<Rightarrow> service_def list \<Rightarrow> service_def list" where
  "patch bm i body caps table =
     table[i := (table ! i)\<lparr>sv_entry := bm_body bm body, sv_stack_phys := stack_phys bm (i + 1),
        sv_caps := map Some caps @ drop (length caps) (sv_caps (table ! i))\<rparr>]"

definition boot_caps :: "(string \<times> rt_cap list) list" where
  "boot_caps =
     [(''supervisor_body'', [cap_endpoint EP_FAULT (RIGHT_RECV OR RIGHT_CONTROL)]),
      (''logger_body'', [cap_endpoint EP_EVENT RIGHT_RECV]),
      (''console_body'', [cap_endpoint EP_LINE RIGHT_SEND, cap_console (RIGHT_RECV OR RIGHT_SEND)]),
      (''shell_body'',
        [cap_endpoint EP_LINE RIGHT_RECV, cap_console RIGHT_SEND, cap_info, cap_control,
         cap_endpoint EP_APP (RIGHT_SEND OR RIGHT_RECV),
         cap_endpoint EP_FS (RIGHT_SEND OR RIGHT_RECV OR CAP_RIGHT_FS_READ OR CAP_RIGHT_FS_LIST),
         cap_endpoint EP_STOR (RIGHT_SEND OR RIGHT_RECV OR CAP_RIGHT_STORAGE_INFO OR CAP_RIGHT_STORAGE_READ),
         cap_endpoint EP_DRV (RIGHT_SEND OR RIGHT_RECV),
         cap_endpoint EP_NET (RIGHT_SEND OR RIGHT_RECV OR CAP_RIGHT_NET_STATUS OR CAP_RIGHT_NET_TX
           OR CAP_RIGHT_NET_RX OR CAP_RIGHT_NET_CONTROL)]),
      (''faulty_body'', []),
      (''app_loader_body'',
        [cap_endpoint EP_APP (RIGHT_RECV OR RIGHT_SEND), cap_control,
         cap_endpoint EP_FS (RIGHT_SEND OR RIGHT_RECV OR CAP_RIGHT_FS_READ), cap_console RIGHT_SEND, cap_info]),
      (''hello_body'', [cap_console RIGHT_SEND]),
      (''fault_demo_body'', []),
      (''counter_body'', [cap_console RIGHT_SEND]),
      (''fs_body'',
        [cap_endpoint EP_FS (RIGHT_RECV OR RIGHT_SEND),
         cap_endpoint EP_STOR (RIGHT_SEND OR RIGHT_RECV OR CAP_RIGHT_STORAGE_READ)]),
      (''storage_body'', [cap_endpoint EP_STOR (RIGHT_RECV OR RIGHT_SEND)]),
      (''driver_manager_body'',
        [cap_endpoint EP_DRV (RIGHT_RECV OR RIGHT_SEND), cap_endpoint EP_BLK (RIGHT_SEND OR RIGHT_RECV), cap_control,
         cap_console RIGHT_SEND, cap_device 0 DEV_RIGHT_DRIVER_CONTROL,
         cap_endpoint EP_NET_DRV (RIGHT_SEND OR RIGHT_RECV), cap_device 1 DEV_RIGHT_DRIVER_CONTROL]),
      (''block_driver_body'',
        [cap_endpoint EP_BLK (RIGHT_RECV OR RIGHT_SEND),
         cap_device 0 (DEV_RIGHT_INFO OR DEV_RIGHT_MMIO_READ OR DEV_RIGHT_DMA_READ OR DEV_RIGHT_DMA_WRITE
           OR DEV_RIGHT_IRQ_RECEIVE),
         cap_endpoint EP_IRQ RIGHT_RECV]),
      (''net_driver_body'',
        [cap_endpoint EP_NET_DRV (RIGHT_RECV OR RIGHT_SEND),
         cap_device 1 (DEV_RIGHT_INFO OR DEV_RIGHT_IRQ_RECEIVE OR DEV_RIGHT_NETWORK_DRIVER),
         cap_endpoint EP_NET_IRQ RIGHT_RECV, cap_console RIGHT_SEND]),
      (''net_service_body'',
        [cap_endpoint EP_NET (RIGHT_RECV OR RIGHT_SEND OR CAP_RIGHT_NET_STATUS OR CAP_RIGHT_NET_TX
           OR CAP_RIGHT_NET_RX OR CAP_RIGHT_NET_CONTROL),
         cap_endpoint EP_NET_DRV (RIGHT_SEND OR RIGHT_RECV), cap_endpoint EP_DRV (RIGHT_SEND OR RIGHT_RECV),
         cap_console RIGHT_SEND])]"

definition boot_table :: "boot_map \<Rightarrow> service_def list" where
  "boot_table bm = fold (\<lambda>(i, body, caps). patch bm i body caps) (List.enumerate 0 boot_caps) TABLE"

definition os_boot :: "platform \<Rightarrow> boot_map \<Rightarrow> kernel \<Rightarrow> (kernel \<times> u64 \<times> u64) option" where
  "os_boot pl bm k =
     do {
       let k = set_service_table (boot_table bm) k;
       let k = register_devices k;
       (tabs, uas) \<leftarrow> build_service_address_space (pl_link pl) (k_user_tables k) 0 (bm_body bm ''init_body'') (stack_phys bm 0);
       let k = k\<lparr>k_user_tables := tabs\<rparr>;
       k \<leftarrow> register_task 0 ''init_service'' 7 (pa_u64 (uas_root uas)) (uas_entry_va uas) (uas_stack_top_va uas) k;
       k \<leftarrow> set_boot_cap 0 cap_control k;
       let k = put_str (line ''TASK_STARTED task=init_service'') k;
       let k = arm_next (bm_time bm) k;
       start_dispatch k
     }"

text \<open>The static initial values of the kernel; the status register, the active kernel table, user
  memory and the serial line are as the startup code left them.\<close>

definition reset_kernel :: "u64 \<Rightarrow> u64 \<Rightarrow> (u64 \<Rightarrow> u64 \<Rightarrow> u8) \<Rightarrow> u8 list \<Rightarrow> u8 list \<Rightarrow> kernel" where
  "reset_kernel sstatus root umem console input =
     \<lparr>k_tasks = replicate MAX_TASKS EMPTY_TCB, k_current = 0, k_active = False, k_watchdog_miss = 0,
      k_endpoints = replicate NUM_ENDPOINTS EpIdle, k_kmsg = replicate IPC_MSG_MAX 0,
      k_irq_routes = replicate 2 \<lparr>ir_receiver = MAX_TASKS, ir_pending = False\<rparr>, k_dma = replicate 4096 0,
      k_ticks = 0, k_delivered = 0, k_ring = replicate RING_LEN (0, 0), k_ring_head = 0, k_service_table = None,
      k_user_tables = replicate MAX_USER_AS (replicate ARENA_TABLES table_zeroed), k_sstatus = sstatus, k_satp_root = root,
      k_umem = umem, k_console = console, k_input = input, k_mmio = [], k_timer_ticks = 0, k_timer = None, k_fault_cont = (0, 0)\<rparr>"

section \<open>The patched table\<close>

definition boot_service :: "boot_map \<Rightarrow> nat \<Rightarrow> service_def" where
  "boot_service bm i = (TABLE ! i)\<lparr>sv_entry := bm_body bm (fst (boot_caps ! i)), sv_stack_phys := stack_phys bm (i + 1),
     sv_caps := map Some (snd (boot_caps ! i)) @ replicate (CAPS_PER_TASK - length (snd (boot_caps ! i))) None\<rparr>"

lemma fold_patch:
  "fold (\<lambda>(i, body, caps). patch bm i body caps) (List.enumerate n cs) table =
     take n table @ map (\<lambda>i. (table ! i)\<lparr>sv_entry := bm_body bm (fst (cs ! (i - n))), sv_stack_phys := stack_phys bm (i + 1),
        sv_caps := map Some (snd (cs ! (i - n))) @ drop (length (snd (cs ! (i - n)))) (sv_caps (table ! i))\<rparr>) [n..<n + length cs]
       @ drop (n + length cs) table"
  if "n + length cs \<le> length table"
  using that
proof (induction cs arbitrary: n table)
  case (Cons c cs)
  obtain body caps where c: "c = (body, caps)" by fastforce
  have n: "n < length table" using Cons.prems by simp
  have "[n..<n + length (c # cs)] = n # [Suc n..<Suc n + length cs]" by (simp add: upt_rec)
  then show ?case
    using Cons.IH [of "Suc n" "patch bm n body caps table"] Cons.prems n
    by (auto simp: c patch_def nth_append take_Suc_conv_app_nth nth_list_update Suc_diff_le intro!: nth_equalityI)
qed simp

lemma boot_lengths [simp]: "length TABLE = 15" "length boot_caps = 15"
  by (simp_all add: TABLE_def boot_caps_def)

lemma table_rows: "i < 15 \<Longrightarrow> sv_slot (TABLE ! i) = i + 1 \<and> sv_caps (TABLE ! i) = NO_CAPS"
  by (auto simp: TABLE_def service_entry_def nth_Cons' less_Suc_eq numeral_eq_Suc)

lemma boot_table_eq: "boot_table bm = map (boot_service bm) [0..<15]"
  unfolding boot_table_def by (subst fold_patch) (simp_all add: boot_service_def table_rows NO_CAPS_def)

lemma boot_slot: "i < 15 \<Longrightarrow> sv_slot (boot_service bm i) = i + 1"
  by (simp add: boot_service_def table_rows)

lemma boot_caps_rows: "list_all (\<lambda>(_, cs). length cs \<le> CAPS_PER_TASK
    \<and> list_all (\<lambda>c. rc_otype c = OTYPE_ENDPOINT \<longrightarrow> unat (rc_object_id c) < NUM_ENDPOINTS) cs) boot_caps"
  by (simp add: boot_caps_def ax_const cap_endpoint_def cap_console_def cap_control_def cap_info_def cap_device_def)

lemma boot_service_caps_ok:
  assumes "i < 15"
  shows "caps_ok (sv_caps (boot_service bm i))"
proof -
  have "length (snd (boot_caps ! i)) \<le> CAPS_PER_TASK"
    "list_all (\<lambda>c. rc_otype c = OTYPE_ENDPOINT \<longrightarrow> unat (rc_object_id c) < NUM_ENDPOINTS) (snd (boot_caps ! i))"
    using boot_caps_rows assms by (simp_all add: list_all_length split_beta)
  then show ?thesis by (auto simp: caps_ok_def boot_service_def list_all_iff)
qed

section \<open>Boot establishes the invariant\<close>

text \<open>What boot needs of the image: every one of the sixteen address spaces can be built from a
  zeroed table arena, and supervisor access to user memory starts out closed.\<close>

definition bootable :: "platform \<Rightarrow> boot_map \<Rightarrow> bool" where
  "bootable pl bm \<longleftrightarrow> list_all (\<lambda>i. build_service_arena (pl_link pl)
       (arena_new (replicate ARENA_TABLES table_zeroed) (lm_user_tables (pl_link pl) i)) (stack_phys bm i) \<noteq> None) [0..<MAX_USER_AS]"

lemma bootableD:
  "bootable pl bm \<Longrightarrow> i < MAX_USER_AS \<Longrightarrow> \<exists>a. build_service_arena (pl_link pl)
     (arena_new (replicate ARENA_TABLES table_zeroed) (lm_user_tables (pl_link pl) i)) (stack_phys bm i) = Some a"
  by (auto simp: bootable_def list_all_length)

definition init_tcb :: "u64 \<Rightarrow> user_address_space \<Rightarrow> tcb" where
  "init_tcb sstatus uas =
     \<lparr>t_state = RtRunning, t_prio = 7, t_satp_root = pa_u64 (uas_root uas),
      t_frame = (new_user (uas_entry_va uas) (uas_stack_top_va uas))\<lparr>tf_sstatus := (sstatus AND NOT SSTATUS_SPP) OR SSTATUS_SPIE\<rparr>,
      t_pending_ipc = None, t_caps = (replicate CAPS_PER_TASK None)[0 := Some cap_control], t_name = ''init_service'',
      t_entry_va = uas_entry_va uas, t_stack_top_va = uas_stack_top_va uas\<rparr>"

lemma register_devices_console: "\<exists>c. register_devices k = k\<lparr>k_console := c\<rparr>"
  by (simp add: register_devices_def DEVICES_def put_strs_console) blast

definition booted :: "boot_map \<Rightarrow> kernel \<Rightarrow> table list \<Rightarrow> user_address_space \<Rightarrow> u8 list \<Rightarrow> kernel" where
  "booted bm k ts uas c =
     k\<lparr>k_service_table := Some (boot_table bm), k_user_tables := (k_user_tables k)[0 := ts], k_console := c,
       k_timer := Some (bm_time bm + TIMER_INTERVAL), k_active := True, k_tasks := (k_tasks k)[0 := init_tcb (k_sstatus k) uas],
       k_current := 0, k_satp_root := pa_u64 (uas_root uas)\<rparr>"

lemma os_boot_eq:
  assumes "bootable pl bm" and k: "k = reset_kernel sstatus root umem console input"
  shows "\<exists>ts uas c e sp. os_boot pl bm k = Some (booted bm k ts uas c, e, sp)"
proof -
  have len: "length (k_tasks k) = 16" "k_tasks k \<noteq> []" and t0: "k_user_tables k ! 0 = replicate ARENA_TABLES table_zeroed"
    by (simp_all add: k reset_kernel_def MAX_TASKS_def MAX_USER_AS_def)
  obtain ts uas where b: "build_service_address_space (pl_link pl) (k_user_tables k) 0 (bm_body bm ''init_body'') (stack_phys bm 0)
      = Some ((k_user_tables k)[0 := ts], uas)"
    using bootableD [OF assms(1), of 0] by (auto simp: build_service_address_space_def t0 MAX_USER_AS_def)
  obtain c where c: "register_devices (set_service_table (boot_table bm) k) = k\<lparr>k_service_table := Some (boot_table bm), k_console := c\<rparr>"
    using register_devices_console [of "set_service_table (boot_table bm) k"] by (auto simp: set_service_table_def)
  have "os_boot pl bm k = Some (booted bm k ts uas (c @ crlf (line ''TASK_STARTED task=init_service'')),
      tf_sepc (t_frame (init_tcb (k_sstatus k) uas)), tf_regs (t_frame (init_tcb (k_sstatus k) uas)) ! 1)"
    unfolding os_boot_def Let_def c
    by (simp add: b len register_task_def set_boot_cap_def task_at_def upd_task_def CAPS_PER_TASK_def put_str_console arm_next_def
        start_dispatch_def switch_to_user_space_def fresh_user_frame_def booted_def init_tcb_def)
  then show ?thesis by blast
qed

lemma init_task_ok: "task_ok (init_tcb s uas)"
proof -
  have "user_frame (t_frame (init_tcb s uas))"
    using fresh_frame_ok [of "sample_kernel\<lparr>k_sstatus := s\<rparr>" "uas_entry_va uas" "uas_stack_top_va uas"]
    by (simp add: init_tcb_def fresh_user_frame_def)
  moreover have "caps_ok ((replicate CAPS_PER_TASK None)[0 := Some cap_control])"
    unfolding caps_ok_def
    by (intro conjI list_all_update) (simp_all add: list_all_iff cap_control_def OTYPE_CONTROL_def OTYPE_ENDPOINT_def)
  ultimately show ?thesis by (simp add: task_ok_def init_tcb_def)
qed

lemma booted_services:
  assumes "bootable pl bm" "sd \<in> set (boot_table bm)"
  shows "service_ok pl ((replicate MAX_TASKS EMPTY_TCB)[0 := t]) ((replicate MAX_USER_AS (replicate ARENA_TABLES table_zeroed))[0 := ts]) sd"
proof -
  obtain i where i: "i < 15" "sd = boot_service bm i" using assms(2) by (auto simp: boot_table_eq)
  have "sv_stack_phys sd = stack_phys bm (i + 1)" by (simp add: i(2) boot_service_def)
  then show ?thesis
    using boot_slot [OF i(1), of bm] boot_service_caps_ok [OF i(1), of bm] bootableD [OF assms(1), of "i + 1"] i
    by (simp add: service_ok_def MAX_TASKS_def MAX_USER_AS_def del: replicate_Suc)
qed

lemma booted_kinv:
  assumes "bootable pl bm" "\<not> bit sstatus 18" "user_frame f"
  shows "kinv pl (booted bm (reset_kernel sstatus root umem console input) ts uas c) f" (is "kinv pl ?k f")
proof -
  have tasks: "k_tasks ?k = (replicate MAX_TASKS EMPTY_TCB)[0 := init_tcb sstatus uas]"
    and tabs: "k_user_tables ?k = (replicate MAX_USER_AS (replicate ARENA_TABLES table_zeroed))[0 := ts]"
    and eps: "k_endpoints ?k = replicate NUM_ENDPOINTS EpIdle" and table: "k_service_table ?k = Some (boot_table bm)"
    by (simp_all add: booted_def reset_kernel_def)
  have "shape_ok ?k"
    by (simp add: shape_ok_def booted_def reset_kernel_def sum_clear_def assms(2) list_all_length MAX_TASKS_def)
  moreover have "list_all task_ok (k_tasks ?k)"
    unfolding tasks by (intro list_all_update) (simp_all add: init_task_ok empty_task_ok list_all_iff)
  moreover have "eps_ok (k_tasks ?k) (k_endpoints ?k)" unfolding eps by (simp add: eps_ok_def list_all_length)
  moreover have "services_ok pl ?k"
    unfolding services_ok_def tasks tabs table using booted_services [OF assms(1)] by (simp add: list_all_iff)
  ultimately have "kwf pl ?k" by (simp add: kwf_def)
  moreover have "running_ok ?k"
    unfolding running_ok_def tasks
    by (auto simp: nth_list_update EMPTY_TCB_def init_tcb_def MAX_TASKS_def booted_def reset_kernel_def)
  moreover have "k_active ?k" by (simp add: booted_def)
  ultimately show ?thesis using assms(3) by (simp add: kinv_def)
qed

section \<open>Authority after boot\<close>

text \<open>The capability slots a task can ever have: those of its row of the boot table, or none
  before it is started.\<close>

definition slot_grant :: "nat \<Rightarrow> rt_cap list" where
  "slot_grant i = (if i = 0 then [cap_control] else snd (boot_caps ! (i - 1)))"

definition padded :: "rt_cap list \<Rightarrow> rt_cap option list" where
  "padded cs = map Some cs @ replicate (CAPS_PER_TASK - length cs) None"

definition boot_authority :: "kernel \<Rightarrow> bool" where
  "boot_authority k \<longleftrightarrow> (\<forall>i<MAX_TASKS. t_caps (k_tasks k ! i) \<in> {padded [], padded (slot_grant i)})"

lemma boot_service_padded: "sv_caps (boot_service bm i) = padded (slot_grant (i + 1))"
  by (simp add: boot_service_def padded_def slot_grant_def)

lemma init_padded: "t_caps (init_tcb s uas) = padded [cap_control]"
  by (simp add: init_tcb_def padded_def CAPS_PER_TASK_def numeral_eq_Suc)

lemma booted_tasks:
  assumes "i < MAX_TASKS"
  shows "k_tasks (booted bm (reset_kernel sstatus root umem console input) ts uas c) ! i
    = (if i = 0 then init_tcb sstatus uas else EMPTY_TCB)"
proof -
  have "k_tasks (booted bm (reset_kernel sstatus root umem console input) ts uas c) = (replicate MAX_TASKS EMPTY_TCB)[0 := init_tcb sstatus uas]"
    by (simp add: booted_def reset_kernel_def)
  then show ?thesis using assms by (simp add: nth_list_update)
qed

lemma booted_authority:
  assumes "authority_kept (booted bm (reset_kernel sstatus root umem console input) ts uas c, f) s" (is "authority_kept (?k, _) _")
  shows "boot_authority (fst s)"
  unfolding boot_authority_def
proof (intro allI impI)
  fix i assume i: "i < MAX_TASKS"
  have len: "length (k_tasks ?k) = MAX_TASKS" by (simp add: booted_def reset_kernel_def)
  have table: "k_service_table ?k = Some (boot_table bm)" by (simp add: booted_def)
  have "t_caps (k_tasks (fst s) ! i) = t_caps (k_tasks ?k ! i)
      \<or> (\<exists>sd\<in>set (boot_table bm). sv_slot sd = i \<and> t_caps (k_tasks (fst s) ! i) = sv_caps sd)"
    using assms i len table by (auto simp: authority_kept_def Let_def)
  moreover have "t_caps (k_tasks ?k ! i) \<in> {padded [], padded (slot_grant i)}"
    using i by (simp add: booted_tasks init_padded slot_grant_def EMPTY_TCB_def padded_def [of "[]"])
  moreover have "sv_caps sd = padded (slot_grant i)" if "sd \<in> set (boot_table bm)" "sv_slot sd = i" for sd
  proof -
    obtain j where j: "j < 15" "sd = boot_service bm j" using \<open>sd \<in> _\<close> by (auto simp: boot_table_eq)
    then have "i = j + 1" using that(2) boot_slot by simp
    then show ?thesis using j by (simp add: boot_service_padded)
  qed
  ultimately show "t_caps (k_tasks (fst s) ! i) \<in> {padded [], padded (slot_grant i)}" by auto
qed

text \<open>Device and control rights in the boot table.\<close>

definition device_rows :: "(string \<times> rt_cap list) list \<Rightarrow> bool" where
  "device_rows rows \<longleftrightarrow> list_all (\<lambda>(_, cs). list_all (\<lambda>c. rc_otype c = OTYPE_DEVICE \<longrightarrow>
      rc_rights c AND DEV_RIGHT_MMIO_WRITE \<noteq> DEV_RIGHT_MMIO_WRITE
      \<and> (rc_rights c AND DEV_RIGHT_MMIO_READ = DEV_RIGHT_MMIO_READ \<longrightarrow> rc_object_id c = 0)) cs) rows"

lemmas cap_defs = cap_endpoint_def cap_console_def cap_control_def cap_info_def cap_device_def
  OTYPE_ENDPOINT_def OTYPE_CONSOLE_def OTYPE_CONTROL_def OTYPE_INFO_def OTYPE_DEVICE_def

lemmas right_defs = RIGHT_SEND_def RIGHT_RECV_def RIGHT_CONTROL_def DEV_RIGHT_INFO_def DEV_RIGHT_MMIO_READ_def
  DEV_RIGHT_MMIO_WRITE_def DEV_RIGHT_DMA_READ_def DEV_RIGHT_DMA_WRITE_def DEV_RIGHT_IRQ_RECEIVE_def
  DEV_RIGHT_DRIVER_CONTROL_def DEV_RIGHT_NETWORK_DRIVER_def

lemma boot_device_rows: "device_rows ((''init_body'', [cap_control]) # boot_caps)"
  by (simp add: device_rows_def boot_caps_def cap_defs right_defs)

definition control_slots :: "nat list" where
  "control_slots = filter (\<lambda>i. list_ex (grants_right OTYPE_CONTROL RIGHT_CONTROL) (padded (slot_grant i))) [0..<MAX_TASKS]"

lemma grants_right_code [code]:
  "grants_right ty r None = False" "grants_right ty r (Some c) = (rc_otype c = ty \<and> rc_rights c AND r = r)"
  by (simp_all add: grants_right_def)

lemma control_slots_eq: "control_slots = [0, 4, 6, 12]"
  by (simp add: control_slots_def upt_rec MAX_TASKS_def slot_grant_def boot_caps_def padded_def grants_right_def cap_defs right_defs
      list_ex_iff)

section \<open>Runs of the booted machine\<close>

text \<open>A register access the booted system may have made: a read inside the 512-byte window of the
  block device.\<close>

fun window_read :: "mmio_access \<Rightarrow> bool" where
  "window_read (MmioRead addr w) \<longleftrightarrow> 0x10001000 \<le> unat addr \<and> unat addr + unat w \<le> 0x10001200"
| "window_read (MmioWrite _ _ _) \<longleftrightarrow> False"

lemma padded_device:
  assumes "i < MAX_TASKS" "Some c \<in> set (padded cs)" "cs \<in> {[], slot_grant i}" "rc_otype c = OTYPE_DEVICE"
  shows "rc_rights c AND DEV_RIGHT_MMIO_WRITE \<noteq> DEV_RIGHT_MMIO_WRITE"
    "rc_rights c AND DEV_RIGHT_MMIO_READ = DEV_RIGHT_MMIO_READ \<Longrightarrow> rc_object_id c = 0"
proof -
  have c: "c \<in> set (slot_grant i)" using assms(2,3) by (auto simp: padded_def)
  have "\<exists>row\<in>set ((''init_body'', [cap_control]) # boot_caps). slot_grant i = snd row"
    using assms(1) by (auto simp: slot_grant_def MAX_TASKS_def intro: bexI [of _ "boot_caps ! (i - 1)"])
  then show "rc_rights c AND DEV_RIGHT_MMIO_WRITE \<noteq> DEV_RIGHT_MMIO_WRITE"
    "rc_rights c AND DEV_RIGHT_MMIO_READ = DEV_RIGHT_MMIO_READ \<Longrightarrow> rc_object_id c = 0"
    using boot_device_rows c assms(4) unfolding device_rows_def list_all_iff by fastforce+
qed

lemma boot_access:
  assumes "boot_authority k" "k_current k < MAX_TASKS" "access_granted k a"
  shows "window_read a"
proof -
  obtain cs where cs: "t_caps (k_tasks k ! k_current k) = padded cs" "cs \<in> {[], slot_grant (k_current k)}"
    using assms(1,2) unfolding boot_authority_def by blast
  note P = padded_device [OF assms(2) _ cs(2)]
  show ?thesis
  proof (cases a)
    case (MmioWrite addr w v)
    then show ?thesis using assms(3) P(1) by (auto simp: reg_granted_def cs(1))
  next
    case (MmioRead addr w)
    then obtain c off where c: "Some c \<in> set (padded cs)" "rc_otype c = OTYPE_DEVICE"
        "rc_rights c AND DEV_RIGHT_MMIO_READ = DEV_RIGHT_MMIO_READ"
        "access_in_bounds (dd_mmio_size (DEVICES ! unat (rc_object_id c))) off w"
        "addr = dd_mmio_base (DEVICES ! unat (rc_object_id c)) + off"
      using assms(3) by (auto simp: reg_granted_def cs(1))
    have "rc_object_id c = 0" using P(2) [OF c(1,2,3)] .
    then have b: "unat off + unat w \<le> 0x200" and addr: "addr = 0x10001000 + off"
      using c(4,5) unfolding access_in_bounds_iff by (simp_all add: DEVICES_def)
    have "unat addr = 0x10001000 + unat off"
      unfolding addr using b by (subst unat_plus_simple [THEN iffD1]) (simp_all add: word_le_nat_alt unat_word_ariths)
    then show ?thesis using b MmioRead by simp
  qed
qed

text \<open>What holds of every state the booted machine reaches.\<close>

definition boot_safe :: "platform \<Rightarrow> mstate \<Rightarrow> bool" where
  "boot_safe pl s \<longleftrightarrow> takes_traps pl s \<and> boot_authority (fst s) \<and> list_all window_read (k_mmio (fst s))"

definition boot_state :: "platform \<Rightarrow> boot_map \<Rightarrow> mstate \<Rightarrow> bool" where
  "boot_state pl bm s \<longleftrightarrow> bootable pl bm \<and> user_frame (snd s) \<and> (\<exists>sstatus root umem console input ts uas c.
     \<not> bit sstatus 18 \<and> fst s = booted bm (reset_kernel sstatus root umem console input) ts uas c)"

lemma boot_state_inv: "boot_state pl bm s \<Longrightarrow> machine_inv pl s"
  using booted_kinv by (auto simp: boot_state_def machine_inv_def)

lemma boot_state_authority: "boot_state pl bm s0 \<Longrightarrow> authority_kept s0 s \<Longrightarrow> boot_authority (fst s)"
  by (cases s0) (auto simp: boot_state_def dest: booted_authority)

definition boot_inv :: "platform \<Rightarrow> boot_map \<Rightarrow> mstate \<Rightarrow> mstate \<Rightarrow> bool" where
  "boot_inv pl bm s0 s \<longleftrightarrow> boot_state pl bm s0 \<and> machine_inv pl s \<and> authority_kept s0 s \<and> list_all window_read (k_mmio (fst s))"

lemma boot_inv_start: "boot_state pl bm s \<Longrightarrow> boot_inv pl bm s s"
proof -
  assume s: "boot_state pl bm s"
  then have "k_mmio (fst s) = []" by (auto simp: boot_state_def booted_def reset_kernel_def)
  then show ?thesis using s boot_state_inv axiomrt.guide_refl by (simp add: boot_inv_def)
qed

interpretation booted_run: safe_machine "machine_step pl" "boot_inv pl bm s0" "boot_safe pl" for pl bm s0
proof
  fix s s' assume inv: "boot_inv pl bm s0 s" and st: "machine_step pl s s'"
  have m: "machine_inv pl s" and kept: "authority_kept s0 s" and boot: "boot_state pl bm s0"
    using inv by (simp_all add: boot_inv_def)
  have auth: "boot_authority (fst s)" using boot_state_authority [OF boot kept] .
  have cur: "k_current (fst s) < MAX_TASKS" using m kinvD(5) by (auto simp: machine_inv_def)
  have "list_all window_read (k_mmio (fst s'))"
    using machine_step_authority [OF m st] inv boot_access [OF auth cur] by (auto simp: authority_step_def boot_inv_def)
  then show "boot_inv pl bm s0 s'"
    using machine_step_inv [OF m st] axiomrt.guide_trans [OF kept axiomrt.step_guide [OF m st]] boot by (simp add: boot_inv_def)
next
  fix s assume "boot_inv pl bm s0 s"
  then show "boot_safe pl s"
    unfolding boot_inv_def boot_safe_def using machine_live boot_state_authority by blast
qed

lemma os_boot_state:
  assumes "bootable pl bm" "\<not> bit sstatus 18" "os_boot pl bm (reset_kernel sstatus root umem console input) = Some (k, e, sp)" "user_frame f"
  shows "boot_state pl bm (k, f)"
proof -
  obtain ts uas c where "k = booted bm (reset_kernel sstatus root umem console input) ts uas c"
    using os_boot_eq [OF assms(1) refl, of sstatus root umem console input] assms(3) by auto
  then show ?thesis using assms(1,2,4) unfolding boot_state_def fst_conv snd_conv by blast
qed

lemma boot_run_safe:
  assumes "boot_state pl bm s" "(machine_step pl)\<^sup>*\<^sup>* s s'"
  shows "boot_safe pl s'" "machine_inv pl s'"
  using booted_run.run_live [OF assms(2) boot_inv_start [OF assms(1)]] booted_run.run_inv [OF assms(2) boot_inv_start [OF assms(1)]]
  by (simp_all add: boot_inv_def)

lemma boot_control:
  assumes "boot_authority k" "i < MAX_TASKS" "need_met (InAny OTYPE_CONTROL RIGHT_CONTROL) (t_caps (k_tasks k ! i)) ci"
  shows "i \<in> {0, 4, 6, 12}"
proof -
  have "\<not> list_ex (grants_right OTYPE_CONTROL RIGHT_CONTROL) (padded [])"
    by (simp add: padded_def list_ex_iff grants_right_def)
  then have "t_caps (k_tasks k ! i) = padded (slot_grant i)"
    using assms by (auto simp: boot_authority_def)
  then have "i \<in> set control_slots" using assms(2,3) by (simp add: control_slots_def)
  then show ?thesis by (simp add: control_slots_eq)
qed

section \<open>A bootable image\<close>

definition sample_boot :: boot_map where
  "sample_boot = \<lparr>bm_body = \<lambda>_. 0x80201010, bm_stacks = 0x80400000, bm_time = 0\<rparr>"

lemma sample_bootable: "bootable sample_platform sample_boot"
  by code_simp

section \<open>Properties\<close>

text \<open>C25. Boot hands over a well-formed system: for an image whose sixteen address spaces can be
  built, \<open>os_boot\<close> ends without a panic from the reset state, enters user mode in the first
  task, and whatever frame that task traps with, the kernel state has the type and shape the trap handler
  relies on: sixteen tasks, twelve endpoints, capability slots that name existing endpoints, one running
  task in its own address space and a service table whose services can all be started.\<close>

theorem boot_establishes_invariant:
  assumes "bootable pl bm" and "\<not> bit sstatus 18"
  shows "\<exists>k entry sp. os_boot pl bm (reset_kernel sstatus root umem console input) = Some (k, entry, sp)
    \<and> (\<forall>f. user_frame f \<longrightarrow> kinv pl k f) \<and> k_service_table k = Some (boot_table bm)
    \<and> t_name (k_tasks k ! k_current k) = ''init_service''"
proof -
  let ?k0 = "reset_kernel sstatus root umem console input"
  obtain ts uas c e sp where b: "os_boot pl bm ?k0 = Some (booted bm ?k0 ts uas c, e, sp)"
    using os_boot_eq [OF assms(1) refl] by blast
  have "t_name (k_tasks (booted bm ?k0 ts uas c) ! k_current (booted bm ?k0 ts uas c)) = ''init_service''"
    using booted_tasks [of 0 bm sstatus root umem console input ts uas c]
    by (simp add: booted_def [of bm ?k0] MAX_TASKS_def init_tcb_def)
  moreover have "k_service_table (booted bm ?k0 ts uas c) = Some (boot_table bm)" by (simp add: booted_def)
  ultimately show ?thesis using b booted_kinv [OF assms] by blast
qed

theorem boot_establishes_invariant_witness:
  "\<exists>k entry sp. os_boot sample_platform sample_boot (reset_kernel 0 0 (\<lambda>_ _. 0) [] []) = Some (k, entry, sp)
     \<and> kinv sample_platform k sample_frame"
proof -
  have "user_frame sample_frame" by (simp add: user_frame_def sample_frame_def is_from_user_def)
  then show ?thesis using boot_establishes_invariant [OF sample_bootable, of 0 0 "\<lambda>_ _. 0" "[]" "[]"] by auto
qed

end
