(* ===== verification/User_Code.thy ===== *)
theory User_Code
  imports Ax_Prelude "HOL-Library.State_Monad"
begin

text \<open>
  User-mode code of \<open>kernel/src/arch/riscv64/os_boot.rs\<close>: the system call stubs \<open>sys3\<close> and
  \<open>sys4\<close>, the console writer and the byte helpers the services share.

  A piece of user code is a state-passing computation whose state is the log of the system calls
  it has made, each with the answer it got. The answers come from \<open>env\<close>, an arbitrary function of
  the log and the call, so that whatever is proved holds for every behaviour of the kernel and of
  the peers. A buffer with its length is a byte list; the answer to a call that fills a buffer
  carries the contents of the buffer.
\<close>

section \<open>System calls of user code\<close>

datatype call =
    CYield
  | CExit
  | CSend nat "u8 list"
  | CRecv nat nat
  | CFaultAck int u64
  | CTaskStart u64
  | CTaskKill u64
  | CTaskRestart u64
  | CShutdown
  | CConWrite "u8 list"
  | CConRead nat
  | CInfo u64 nat u64
  | CDeviceInfo nat nat
  | CMmioRead nat u64 u64
  | CMmioWrite nat u64 u64 u64
  | CDmaRead nat u64 u64
  | CDmaWrite nat u64 u64 u64
  | CIrqRaise nat
  | Store u64 u8

text \<open>\<open>Store\<close> is not a call: it is the store of the drivers' test mode to an address that is mapped
  nowhere, logged so that its place in the sequence is visible.\<close>

record reply =
  r_ret :: int
  r_buf :: "u8 list"

type_synonym event = "call \<times> reply"
type_synonym env = "event list \<Rightarrow> call \<Rightarrow> reply"
type_synonym 'a user = "(event list, 'a) state"

text \<open>The bytes a call put into its buffer: as many as its result says.\<close>

definition message :: "reply \<Rightarrow> u8 list" where
  "message r = take (nat (r_ret r)) (r_buf r)"

text \<open>The size of the buffer a call hands over; the contents after the call are that many bytes at
  most.\<close>

fun call_room :: "call \<Rightarrow> nat" where
  "call_room (CRecv _ cap) = cap"
| "call_room (CConRead cap) = cap"
| "call_room (CInfo _ cap _) = cap"
| "call_room (CDeviceInfo _ cap) = cap"
| "call_room _ = 0"

definition sys :: "env \<Rightarrow> call \<Rightarrow> reply user" where
  "sys env c =
     State (\<lambda>es. let r = env es c; r = r\<lparr>r_buf := take (call_room c) (r_buf r)\<rparr> in (r, es @ [(c, r)]))"

definition syscall :: "env \<Rightarrow> call \<Rightarrow> unit user" where
  "syscall env c = do { _ \<leftarrow> sys env c; State_Monad.return () }"

function uwrite_ptr :: "env \<Rightarrow> u8 list \<Rightarrow> unit user" where
  "uwrite_ptr env p =
     (if p = [] then State_Monad.return ()
      else do {
        r \<leftarrow> sys env (CConWrite (take 256 p));
        if r_ret r \<le> 0 then State_Monad.return () else uwrite_ptr env (drop 256 p)
      })"
  by pat_completeness auto
termination by (relation "measure (\<lambda>(_, p). length p)") auto

declare uwrite_ptr.simps [simp del]

abbreviation uput :: "env \<Rightarrow> string \<Rightarrow> unit user" where
  "uput env s \<equiv> uwrite_ptr env (bytes s)"

abbreviation skip :: "unit user" where
  "skip \<equiv> State_Monad.return ()"

text \<open>The bounded copy loops of the services: bytes are appended to a buffer while it holds fewer
  than \<open>lim\<close>. A buffer is the list of the bytes written so far.\<close>

fun copy_upto :: "nat \<Rightarrow> u8 list \<Rightarrow> u8 list \<Rightarrow> u8 list" where
  "copy_upto lim dst [] = dst"
| "copy_upto lim dst (b # src) = (if length dst < lim then copy_upto lim (dst @ [b]) src else dst)"

text \<open>A service is a start sequence and a loop that never ends; its first \<open>n\<close> rounds.\<close>

primrec serve :: "nat \<Rightarrow> ('s \<Rightarrow> 's user) \<Rightarrow> 's \<Rightarrow> 's user" where
  "serve 0 step s = State_Monad.return s"
| "serve (Suc n) step s = do { s' \<leftarrow> step s; serve n step s' }"

section \<open>Byte helpers\<close>

fun eqs_loop :: "u8 list \<Rightarrow> u8 list \<Rightarrow> bool" where
  "eqs_loop (x # p) (y # q) = (if x \<noteq> y then False else eqs_loop p q)"
| "eqs_loop _ _ = True"

definition eqs :: "u8 list \<Rightarrow> u8 list \<Rightarrow> bool" where
  "eqs p q = (if length p \<noteq> length q then False else eqs_loop p q)"

definition starts_with :: "u8 list \<Rightarrow> u8 list \<Rightarrow> bool" where
  "starts_with p q = (if length p < length q then False else eqs (take (length q) p) q)"

abbreviation is_cmd :: "u8 list \<Rightarrow> string \<Rightarrow> bool" where
  "is_cmd p s \<equiv> eqs p (bytes s)"

abbreviation has_prefix :: "u8 list \<Rightarrow> string \<Rightarrow> bool" where
  "has_prefix p s \<equiv> starts_with p (bytes s)"

text \<open>What follows a literal prefix: the pointer and the length both move by its length.\<close>

abbreviation tail_of :: "u8 list \<Rightarrow> string \<Rightarrow> u8 list" where
  "tail_of p s \<equiv> drop (length s) p"

definition is_digit :: "u8 \<Rightarrow> bool" where
  "is_digit b \<longleftrightarrow> b \<ge> 48 \<and> b \<le> 57"

definition push_digit :: "u64 \<Rightarrow> u8 \<Rightarrow> u64" where
  "push_digit v b = v * 10 + ucast (b - 48)"

fun parse_dec_loop :: "u64 \<Rightarrow> u8 list \<Rightarrow> u64" where
  "parse_dec_loop v [] = v"
| "parse_dec_loop v (b # bs) = (if \<not> is_digit b then - 1 else parse_dec_loop (push_digit v b) bs)"

definition parse_dec :: "u8 list \<Rightarrow> nat \<Rightarrow> u64" where
  "parse_dec p from = (if from \<ge> length p then - 1 else parse_dec_loop 0 (drop from p))"

fun dec_stop_loop :: "u64 \<Rightarrow> nat \<Rightarrow> bool \<Rightarrow> u8 list \<Rightarrow> u64 \<times> nat \<times> bool" where
  "dec_stop_loop v i any [] = (v, i, any)"
| "dec_stop_loop v i any (b # bs) =
     (if b < 48 \<or> b > 57 then (v, i, any) else dec_stop_loop (push_digit v b) (i + 1) True bs)"

definition parse_dec_stop :: "u8 list \<Rightarrow> nat \<Rightarrow> u64 \<times> nat" where
  "parse_dec_stop p from =
     (case dec_stop_loop 0 from False (drop from p) of (v, i, any) \<Rightarrow> if any then (v, i) else (- 1, i))"

section \<open>What a computation does\<close>

text \<open>\<open>does m Q\<close>: whatever was logged before, \<open>m\<close> only appends to the log, and its result and the
  appended events satisfy \<open>Q\<close>.\<close>

definition does :: "'a user \<Rightarrow> ('a \<Rightarrow> event list \<Rightarrow> bool) \<Rightarrow> bool" where
  "does m Q \<longleftrightarrow> (\<forall>es. \<exists>new. snd (run_state m es) = es @ new \<and> Q (fst (run_state m es)) new)"

named_theorems does_rules \<open>rules of the event logic\<close>

lemma does_return: "Q x [] \<Longrightarrow> does (State_Monad.return x) Q"
  by (simp add: does_def State_Monad.return_def)

lemma does_sys: "(\<And>r. length (r_buf r) \<le> call_room c \<Longrightarrow> Q r [(c, r)]) \<Longrightarrow> does (sys env c) Q"
  by (simp add: does_def sys_def Let_def)

lemma does_bind:
  assumes "does m R" and "\<And>x new. R x new \<Longrightarrow> does (f x) (\<lambda>y more. Q y (new @ more))"
  shows "does (m \<bind> f) Q"
  unfolding does_def
proof
  fix es
  obtain new where new: "snd (run_state m es) = es @ new" "R (fst (run_state m es)) new"
    using assms(1) unfolding does_def by blast
  obtain more where "snd (run_state (f (fst (run_state m es))) (es @ new)) = (es @ new) @ more"
      "Q (fst (run_state (f (fst (run_state m es))) (es @ new))) (new @ more)"
    using assms(2) [OF new(2)] unfolding does_def by blast
  then show "\<exists>new. snd (run_state (m \<bind> f) es) = es @ new \<and> Q (fst (run_state (m \<bind> f) es)) new"
    using new(1) by (auto simp: State_Monad.bind_def split_beta)
qed

lemma does_mono: "does m R \<Longrightarrow> (\<And>x new. R x new \<Longrightarrow> Q x new) \<Longrightarrow> does m Q"
  unfolding does_def by blast

lemma does_log: "does m Q \<Longrightarrow> Q (fst (run_state m [])) (snd (run_state m []))"
  unfolding does_def by (drule spec [of _ "[]"]) auto

lemma does_serve:
  assumes "Q s []" and "\<And>s' es. Q s' es \<Longrightarrow> does (step s') (\<lambda>s'' new. Q s'' (es @ new))"
  shows "does (serve n step s) Q"
proof -
  have "does (serve n step s') (\<lambda>s'' new. Q s'' (es @ new))" if "Q s' es" for s' es
    using that
  proof (induction n arbitrary: s' es)
    case 0
    then show ?case by (simp add: does_return)
  next
    case (Suc n)
    show ?case unfolding serve.simps
      by (rule does_bind [OF assms(2) [OF Suc.prems]]) (drule Suc.IH, simp)
  qed
  from this [OF assms(1)] show ?thesis by simp
qed

text \<open>The common case: every event satisfies \<open>P\<close> and the result satisfies \<open>I\<close>.\<close>

definition ensures :: "('a \<Rightarrow> bool) \<Rightarrow> (event \<Rightarrow> bool) \<Rightarrow> 'a user \<Rightarrow> bool" where
  "ensures I P m \<longleftrightarrow> does m (\<lambda>x es. I x \<and> list_all P es)"

lemma ens_return: "I x \<Longrightarrow> ensures I P (State_Monad.return x)"
  by (simp add: ensures_def does_return)

lemma ens_sys:
  "(\<And>r. length (r_buf r) \<le> call_room c \<Longrightarrow> P (c, r)) \<Longrightarrow>
    ensures (\<lambda>r. length (r_buf r) \<le> call_room c) P (sys env c)"
  by (simp add: ensures_def does_sys)

lemma ens_bind:
  "ensures I P m \<Longrightarrow> (\<And>x. I x \<Longrightarrow> ensures J P (f x)) \<Longrightarrow> ensures J P (m \<bind> f)"
  unfolding ensures_def
  by (rule does_bind [where R = "\<lambda>x es. I x \<and> list_all P es"], assumption) (erule conjE, auto elim!: does_mono)

lemma ens_weaken: "ensures I P m \<Longrightarrow> (\<And>x. I x \<Longrightarrow> J x) \<Longrightarrow> ensures J P m"
  unfolding ensures_def by (erule does_mono) auto

lemma ens_syscall: "(\<And>r. P (c, r)) \<Longrightarrow> ensures (\<lambda>_. True) P (syscall env c)"
  unfolding syscall_def by (rule ens_bind [OF ens_sys ens_return]) simp_all

lemma ens_uwrite:
  "(\<And>bs r. length bs \<le> 256 \<Longrightarrow> P (CConWrite bs, r)) \<Longrightarrow> ensures (\<lambda>_. True) P (uwrite_ptr env p)"
proof (induction env p rule: uwrite_ptr.induct)
  case (1 env p)
  show ?case
  proof (cases "p = []")
    case True
    then show ?thesis by (simp add: uwrite_ptr.simps ens_return)
  next
    case False
    have "ensures (\<lambda>_. True) P (uwrite_ptr env (drop 256 p))" if "\<not> r_ret r \<le> 0" for r :: reply
      using "1.IH" [OF False that] "1.prems" by blast
    then show ?thesis
      by (subst uwrite_ptr.simps) (simp add: False ens_bind [OF ens_sys] ens_return "1.prems")
  qed
qed

lemma ens_if:
  "(b \<Longrightarrow> ensures I P m) \<Longrightarrow> (\<not> b \<Longrightarrow> ensures I P m') \<Longrightarrow> ensures I P (if b then m else m')"
  by simp

lemma ens_let: "(\<And>y. y = x \<Longrightarrow> ensures I P (f y)) \<Longrightarrow> ensures I P (let y = x in f y)"
  by simp

lemma ens_prod:
  "(\<And>a b. p = (a, b) \<Longrightarrow> ensures I P (f a b)) \<Longrightarrow> ensures I P (case p of (a, b) \<Rightarrow> f a b)"
  by (cases p) simp

lemma ens_serve:
  "I s \<Longrightarrow> (\<And>s. I s \<Longrightarrow> ensures I P (step s)) \<Longrightarrow> ensures I P (serve n step s)"
  unfolding ensures_def by (rule does_serve) (auto elim!: does_mono)

lemma ens_then: "ensures (\<lambda>_. True) P m \<Longrightarrow> (\<And>x. ensures J P (f x)) \<Longrightarrow> ensures J P (m \<bind> f)"
  by (rule ens_bind, assumption) simp

lemma ens_bind_sys:
  "(\<And>r. length (r_buf r) \<le> call_room c \<Longrightarrow> P (c, r)) \<Longrightarrow>
    (\<And>r. length (r_buf r) \<le> call_room c \<Longrightarrow> ensures J P (f r)) \<Longrightarrow> ensures J P (sys env c \<bind> f)"
  by (rule ens_bind [OF ens_sys])

lemma ens_branch: "ensures I P m \<Longrightarrow> ensures I P m' \<Longrightarrow> ensures I P (if b then m else m')"
  by simp

lemmas ens_rules = ens_return ens_syscall ens_uwrite ens_prod ens_bind_sys ens_then [OF ens_syscall] ens_then [OF ens_uwrite]

lemma ensures_run:
  "ensures I P m \<Longrightarrow> e \<in> set (snd (run_state m [])) \<Longrightarrow> P e"
  unfolding ensures_def by (drule does_log) (auto simp: list_all_iff)

section \<open>Request channels\<close>

text \<open>A server receives requests and sends replies on capability slot 0. The traffic of a log on that
  channel, nothing left out: a receive that handed over data, a receive that did not (an empty
  message or an error of the kernel, with its result), and a reply with the result of its send.\<close>

datatype traffic = Request "u8 list" | Skipped int | Reply "u8 list" int

fun chan_event :: "event \<Rightarrow> traffic option" where
  "chan_event (CRecv slot cap, r) =
     (if slot \<noteq> 0 then None else if r_ret r > 0 then Some (Request (message r)) else Some (Skipped (r_ret r)))"
| "chan_event (CSend slot bs, r) = (if slot = 0 then Some (Reply bs (r_ret r)) else None)"
| "chan_event _ = None"

definition chan :: "event list \<Rightarrow> traffic list" where
  "chan es = List.map_filter chan_event es"

lemma chan_append [simp]: "chan (es @ es') = chan es @ chan es'"
  by (simp add: chan_def map_filter_def)

lemma chan_simps [simp]:
  "chan [] = []" "chan (e # es) = (case chan_event e of None \<Rightarrow> chan es | Some x \<Rightarrow> x # chan es)"
  by (simp_all add: chan_def map_filter_simps split: option.split)

text \<open>The dialogue of a server: a receive without data is passed over in silence; a request is
  followed by exactly one reply, which the kernel can carry and which is permitted for that
  request, before the next receive. The result of the send is not looked at.\<close>

fun session :: "(u8 list \<Rightarrow> u8 list \<Rightarrow> bool) \<Rightarrow> traffic list \<Rightarrow> bool" where
  "session ok [] \<longleftrightarrow> True"
| "session ok (Skipped r # xs) \<longleftrightarrow> r \<le> 0 \<and> session ok xs"
| "session ok (Request q # Reply a r # xs) \<longleftrightarrow> length a \<le> 128 \<and> ok q a \<and> session ok xs"
| "session ok _ \<longleftrightarrow> False"

text \<open>A dialogue that ended with a fatal request, which got no reply.\<close>

definition cut_session :: "(u8 list \<Rightarrow> u8 list \<Rightarrow> bool) \<Rightarrow> (u8 list \<Rightarrow> bool) \<Rightarrow> traffic list \<Rightarrow> bool" where
  "cut_session ok fatal xs \<longleftrightarrow> (\<exists>ys q. xs = ys @ [Request q] \<and> session ok ys \<and> fatal q)"

lemma session_append: "session ok xs \<Longrightarrow> session ok ys \<Longrightarrow> session ok (xs @ ys)"
  by (induction ok xs rule: session.induct) auto

text \<open>A command table: whole commands, commands with an argument, and the reply to everything else.\<close>

definition commands :: "string list \<Rightarrow> string list \<Rightarrow> u8 list \<Rightarrow> bool" where
  "commands whole prefixed q \<longleftrightarrow> (\<exists>s \<in> set whole. q = bytes s) \<or> (\<exists>s \<in> set prefixed. take (length s) q = bytes s)"

definition protocol :: "string list \<Rightarrow> string list \<Rightarrow> string \<Rightarrow> u8 list \<Rightarrow> u8 list \<Rightarrow> bool" where
  "protocol whole prefixed err q a \<longleftrightarrow> commands whole prefixed q \<or> a = bytes err"

text \<open>The contract of a server: while it lives a round passes over one receive or takes one request
  and answers it; the round it dies in takes a fatal request and leaves it open; a dead server
  does nothing.\<close>

definition round_ok :: "('s \<Rightarrow> bool) \<Rightarrow> (u8 list \<Rightarrow> u8 list \<Rightarrow> bool) \<Rightarrow> (u8 list \<Rightarrow> bool) \<Rightarrow> 's \<Rightarrow> event list \<Rightarrow> bool" where
  "round_ok live ok fatal s es \<longleftrightarrow>
     (if live s
      then (\<exists>r. r \<le> 0 \<and> chan es = [Skipped r]) \<or> (\<exists>q a r. chan es = [Request q, Reply a r] \<and> length a \<le> 128 \<and> ok q a)
      else \<exists>q. chan es = [Request q] \<and> fatal q)"

locale request_server =
  fixes step :: "env \<Rightarrow> 's \<Rightarrow> 's user" and live :: "'s \<Rightarrow> bool"
    and ok :: "u8 list \<Rightarrow> u8 list \<Rightarrow> bool" and fatal :: "u8 list \<Rightarrow> bool"
  assumes round: "live s \<Longrightarrow> does (step env s) (round_ok live ok fatal)"
    and dead: "\<not> live s \<Longrightarrow> step env s = State_Monad.return s"
begin

lemma runs:
  "live s \<Longrightarrow> does (serve n (step env) s) (\<lambda>s' es. if live s' then session ok (chan es) else cut_session ok fatal (chan es))"
proof (rule does_serve, goal_cases)
  case 1
  then show ?case by simp
next
  case (2 s' es)
  show ?case
  proof (cases "live s'")
    case True
    then show ?thesis
      by (rule does_mono [OF round]) (use 2(2) True in \<open>auto intro: session_append simp: round_ok_def cut_session_def split: if_splits\<close>)
  next
    case False
    then show ?thesis using 2(2) by (simp add: dead does_return)
  qed
qed

end

text \<open>\<open>speaks I n m\<close>: the result satisfies \<open>I\<close> and \<open>m\<close> sends \<open>n\<close> bounded replies and takes no
  request.\<close>

fun bounded_reply :: "traffic \<Rightarrow> bool" where
  "bounded_reply (Reply a _) \<longleftrightarrow> length a \<le> 128"
| "bounded_reply _ \<longleftrightarrow> False"

definition speaks :: "('a \<Rightarrow> bool) \<Rightarrow> nat \<Rightarrow> 'a user \<Rightarrow> bool" where
  "speaks I n m \<longleftrightarrow> does m (\<lambda>x es. I x \<and> length (chan es) = n \<and> list_all bounded_reply (chan es))"

lemma sp_return: "I x \<Longrightarrow> speaks I 0 (State_Monad.return x)"
  by (simp add: speaks_def does_return)

lemma sp_bind:
  assumes "speaks I m p" and "\<And>x. I x \<Longrightarrow> speaks J n (f x)" and "k = m + n"
  shows "speaks J k (p \<bind> f)"
  unfolding speaks_def
  by (rule does_bind [OF assms(1) [unfolded speaks_def]], elim conjE, drule assms(2))
    (auto simp: speaks_def assms(3) elim!: does_mono)

fun on_channel :: "call \<Rightarrow> bool" where
  "on_channel (CSend slot _) = (slot = 0)"
| "on_channel (CRecv slot _) = (slot = 0)"
| "on_channel _ = False"

lemma off_channel: "\<not> on_channel c \<Longrightarrow> chan_event (c, r) = None"
  by (cases c) auto

lemma sp_sys: "\<not> on_channel c \<Longrightarrow> speaks (\<lambda>r. length (r_buf r) \<le> call_room c) 0 (sys env c)"
  by (simp add: speaks_def does_sys off_channel)

lemma sp_call: "\<not> on_channel c \<Longrightarrow> speaks (\<lambda>_. True) 0 (syscall env c)"
  unfolding syscall_def by (rule sp_bind [OF sp_sys sp_return]) simp_all

lemma sp_reply: "length a \<le> 128 \<Longrightarrow> speaks (\<lambda>_. True) (Suc 0) (syscall env (CSend 0 a))"
  unfolding syscall_def speaks_def
  by (rule does_bind [OF does_sys [where Q = "\<lambda>r es. es = [(CSend 0 a, r)]"]]) (auto intro!: does_return)

lemma sp_uwrite: "speaks (\<lambda>_. True) 0 (uwrite_ptr env p)"
proof (induction env p rule: uwrite_ptr.induct)
  case (1 env p)
  show ?case
  proof (cases "p = []")
    case True
    then show ?thesis by (simp add: uwrite_ptr.simps sp_return)
  next
    case False
    have "speaks (\<lambda>_. True) 0 (if r_ret r \<le> 0 then skip else uwrite_ptr env (drop 256 p))" for r :: reply
      using "1.IH" [OF False] by (simp add: sp_return)
    then show ?thesis
      by (subst uwrite_ptr.simps, simp only: False if_False) (rule sp_bind [OF sp_sys], simp_all)
  qed
qed

lemma sp_if: "(b \<Longrightarrow> speaks I n m) \<Longrightarrow> (\<not> b \<Longrightarrow> speaks I n m') \<Longrightarrow> speaks I n (if b then m else m')"
  by simp

lemma sp_let: "(\<And>y. y = x \<Longrightarrow> speaks I n (f y)) \<Longrightarrow> speaks I n (let y = x in f y)"
  by simp

lemma sp_prod:
  "(\<And>a b. p = (a, b) \<Longrightarrow> speaks I n (f a b)) \<Longrightarrow> speaks I n (case p of (a, b) \<Rightarrow> f a b)"
  by (cases p) simp

lemma sp_weaken: "speaks I n m \<Longrightarrow> (\<And>x. I x \<Longrightarrow> J x) \<Longrightarrow> speaks J n m"
  unfolding speaks_def by (erule does_mono) auto

lemma sp_bind0: "speaks (\<lambda>_. True) 0 m \<Longrightarrow> (\<And>x. speaks J n (f x)) \<Longrightarrow> speaks J n (m \<bind> f)"
  by (rule sp_bind [where m = 0 and n = n], assumption) simp_all

lemma sp_bind1: "speaks (\<lambda>_. True) (Suc 0) m \<Longrightarrow> (\<And>x. speaks J n (f x)) \<Longrightarrow> speaks J (Suc n) (m \<bind> f)"
  by (rule sp_bind [where m = "Suc 0" and n = n], assumption) simp_all

lemma sp_bind_sys:
  "\<not> on_channel c \<Longrightarrow> (\<And>r. length (r_buf r) \<le> call_room c \<Longrightarrow> speaks J n (f r)) \<Longrightarrow> speaks J n (sys env c \<bind> f)"
  by (rule sp_bind [OF sp_sys]) simp_all

lemmas sp_rules = sp_return sp_reply sp_if sp_prod sp_bind_sys sp_bind0 [OF sp_uwrite] sp_bind1 [OF sp_reply] sp_bind0 [OF sp_call] sp_call

text \<open>\<open>tells I a m\<close>: the result satisfies \<open>I\<close> and the only traffic of \<open>m\<close> is the reply \<open>a\<close>.\<close>

definition tells :: "('a \<Rightarrow> bool) \<Rightarrow> u8 list \<Rightarrow> 'a user \<Rightarrow> bool" where
  "tells I a m \<longleftrightarrow> does m (\<lambda>x es. I x \<and> (\<exists>r. chan es = [Reply a r]))"

lemma tells_reply: "tells (\<lambda>_. True) a (syscall env (CSend 0 a))"
  unfolding syscall_def tells_def
  by (rule does_bind [OF does_sys [where Q = "\<lambda>r es. es = [(CSend 0 a, r)]"]]) (auto intro!: does_return)

lemma tells_then: "tells (\<lambda>_. True) a m \<Longrightarrow> (\<And>x. I (g x)) \<Longrightarrow> tells I a (m \<bind> (\<lambda>x. State_Monad.return (g x)))"
  unfolding tells_def by (rule does_bind, assumption) (auto intro!: does_return)

lemma tells_after: "speaks (\<lambda>_. True) 0 m \<Longrightarrow> (\<And>x. tells I a (f x)) \<Longrightarrow> tells I a (m \<bind> f)"
  unfolding tells_def speaks_def by (rule does_bind, assumption) (auto elim!: does_mono)

text \<open>How the body of a round may end after the request \<open>q\<close>: with one permitted reply and alive, or
  dead without one.\<close>

definition closes :: "('s \<Rightarrow> bool) \<Rightarrow> (u8 list \<Rightarrow> u8 list \<Rightarrow> bool) \<Rightarrow> (u8 list \<Rightarrow> bool) \<Rightarrow> u8 list \<Rightarrow> 's user \<Rightarrow> bool" where
  "closes live ok fatal q m \<longleftrightarrow>
     does m (\<lambda>s es. if live s then \<exists>a r. chan es = [Reply a r] \<and> length a \<le> 128 \<and> ok q a else chan es = [] \<and> fatal q)"

lemma closes_live:
  assumes "speaks live (Suc 0) m" and "\<And>a. ok q a"
  shows "closes live ok fatal q m"
proof -
  have "\<exists>a r. xs = [Reply a r] \<and> length a \<le> 128" if "length xs = Suc 0" "list_all bounded_reply xs" for xs
    using that by (cases "hd xs") (auto simp: length_Suc_conv)
  then show ?thesis using assms unfolding speaks_def closes_def by (auto elim!: does_mono)
qed

lemma closes_tells: "tells live a m \<Longrightarrow> ok q a \<Longrightarrow> length a \<le> 128 \<Longrightarrow> closes live ok fatal q m"
  unfolding tells_def closes_def by (erule does_mono) auto

lemma closes_dead: "speaks (\<lambda>s. \<not> live s) 0 m \<Longrightarrow> fatal q \<Longrightarrow> closes live ok fatal q m"
  unfolding speaks_def closes_def by (erule does_mono) auto

lemma closes_if:
  "(b \<Longrightarrow> closes live ok fatal q m) \<Longrightarrow> (\<not> b \<Longrightarrow> closes live ok fatal q m') \<Longrightarrow> closes live ok fatal q (if b then m else m')"
  by simp

text \<open>A server with its start sequence.\<close>

context request_server
begin

lemma started:
  assumes "speaks live 0 start"
  shows "does (start \<bind> serve n (step env)) (\<lambda>s es. if live s then session ok (chan es) else cut_session ok fatal (chan es))"
  by (rule does_bind [OF assms [unfolded speaks_def]]) (auto elim!: does_mono [OF runs] split: if_splits)

lemma started_log:
  assumes "speaks live 0 start"
  shows "case run_state (start \<bind> serve n (step env)) [] of (s, es) \<Rightarrow>
    if live s then session ok (chan es) else cut_session ok fatal (chan es)"
  using does_log [OF started [OF assms, of n env]] by (simp only: split_beta)

end

lemma round_of_body:
  assumes "\<And>r :: reply. length (r_buf r) \<le> cap \<Longrightarrow> closes live ok fatal (message r) (body r)" and "live s"
  shows "does (do { r \<leftarrow> sys env (CRecv 0 cap); if r_ret r \<le> 0 then State_Monad.return s else body r })
    (round_ok live ok fatal)"
proof (rule does_bind [OF does_sys [where Q = "\<lambda>r es. length (r_buf r) \<le> cap \<and> es = [(CRecv 0 cap, r)]"]])
  show "length (r_buf r) \<le> cap \<and> [(CRecv 0 cap, r)] = [(CRecv 0 cap, r)]"
    if "length (r_buf r) \<le> call_room (CRecv 0 cap)" for r :: reply
    using that by simp
next
  fix r :: reply and new assume r: "length (r_buf r) \<le> cap \<and> new = [(CRecv 0 cap, r)]"
  show "does (if r_ret r \<le> 0 then State_Monad.return s else body r) (\<lambda>s' more. round_ok live ok fatal s' (new @ more))"
  proof (cases "r_ret r \<le> 0")
    case True
    then show ?thesis using r assms(2) by (simp add: does_return round_ok_def)
  next
    case False
    then have c: "chan new = [Request (message r)]" using r by simp
    have "does (body r) (\<lambda>s' more. round_ok live ok fatal s' (new @ more))"
      using assms(1) [of r] r False unfolding closes_def by (auto simp: c round_ok_def elim!: does_mono split: if_splits)
    then show ?thesis by (simp only: False if_False)
  qed
qed

text \<open>A server that never dies and follows a command table.\<close>

lemma round_of_protocol:
  assumes "\<And>r :: reply. length (r_buf r) \<le> cap \<Longrightarrow> speaks (\<lambda>_. True) (Suc 0) (body r)"
    and "\<And>r :: reply. \<not> commands whole prefixed (message r) \<Longrightarrow> tells (\<lambda>_. True) (bytes err) (body r)"
    and "length err \<le> 128"
  shows "does (do { r \<leftarrow> sys env (CRecv 0 cap); if r_ret r \<le> 0 then State_Monad.return s else body r })
    (round_ok (\<lambda>_. True) (protocol whole prefixed err) fatal)"
proof (rule round_of_body)
  show "closes (\<lambda>_. True) (protocol whole prefixed err) fatal (message r) (body r)" if "length (r_buf r) \<le> cap" for r :: reply
  proof (cases "commands whole prefixed (message r)")
    case True
    then show ?thesis using assms(1) [OF that] by (auto simp: protocol_def intro: closes_live)
  next
    case False
    show ?thesis by (rule closes_tells [OF assms(2) [OF False]]) (simp_all add: protocol_def assms(3))
  qed
qed simp

section \<open>Facts about the helpers\<close>

lemma eqs_loop_eq: "length p = length q \<Longrightarrow> eqs_loop p q \<longleftrightarrow> p = q"
  by (induction p q rule: eqs_loop.induct) auto

lemma eqs_eq [simp]: "eqs p q \<longleftrightarrow> p = q"
  by (auto simp: eqs_def eqs_loop_eq)

lemma starts_with_eq [simp]: "starts_with p q \<longleftrightarrow> take (length q) p = q"
  by (auto simp: starts_with_def)

lemma has_prefix_split: "has_prefix p s \<Longrightarrow> p = bytes s @ tail_of p s"
  by (metis append_take_drop_id length_bytes starts_with_eq)

lemma bytes_inject [simp]: "bytes s = bytes t \<longleftrightarrow> s = t"
proof
  assume "bytes s = bytes t"
  moreover have "inj (\<lambda>c. of_nat (of_char c) :: u8)"
  proof (rule injI)
    fix c d :: char assume "(of_nat (of_char c) :: u8) = of_nat (of_char d)"
    then have "of_char c mod 256 = (of_char d mod 256 :: nat)" by (simp add: word_of_nat_eq_iff take_bit_eq_mod)
    then show "c = d" by (simp add: mod_less)
  qed
  ultimately show "s = t" unfolding bytes_def by (simp add: inj_map_eq_map)
qed simp

lemma take_bytes: "take n (bytes s) = bytes (take n s)"
  by (simp add: bytes_def take_map)

lemma copy_upto_eq: "copy_upto lim dst src = dst @ take (lim - length dst) src"
  by (induction lim dst src rule: copy_upto.induct) (auto simp: take_Cons' Suc_diff_Suc)

lemma copy_upto_le: "length dst \<le> m \<Longrightarrow> lim \<le> m \<Longrightarrow> length (copy_upto lim dst src) \<le> m"
  by (cases "length dst \<le> lim") (auto simp: copy_upto_eq min_def)

lemma length_message: "length (message r) \<le> length (r_buf r)"
  by (simp add: message_def)

lemma message_bound: "length (r_buf r) \<le> n \<Longrightarrow> n \<le> m \<Longrightarrow> length (message r) \<le> m"
  using length_message [of r] by linarith

end
