(* ===== verification/App_Loader.thy ===== *)
theory App_Loader
  imports User_Code
begin

text \<open>
  The application loader of \<open>os_boot.rs\<close>: the request builder and the record parser, the
  validation of an image record in its fixed order, and the service loop with its table of
  application states.
\<close>

section \<open>Helpers\<close>

definition ld_append :: "u8 list \<Rightarrow> u8 list \<Rightarrow> u8 list" where
  "ld_append dst src = copy_upto 63 dst src"

definition app_reply :: "env \<Rightarrow> u8 list \<Rightarrow> unit user" where
  "app_reply env p = syscall env (CSend 0 p)"

definition ld_fetch :: "env \<Rightarrow> u8 list \<Rightarrow> (int \<times> u8 list) user" where
  "ld_fetch env name =
     (if length name = 0 \<or> length name > 27 then State_Monad.return (- 1, [])
      else do {
        let q = ld_append [] (bytes ''CAT /bin/'');
        let q = ld_append q name;
        let q = ld_append q (bytes ''.app'');
        sent \<leftarrow> sys env (CSend 2 q);
        if r_ret sent < 0 then State_Monad.return (- 1, [])
        else do {
          rr \<leftarrow> sys env (CRecv 2 64);
          if r_ret rr \<le> 0 \<or> has_prefix (message rr) ''ERR'' then State_Monad.return (- 1, [])
          else State_Monad.return (r_ret rr, message rr)
        }
      })"

definition ld_reply_name :: "env \<Rightarrow> string \<Rightarrow> u8 list \<Rightarrow> unit user" where
  "ld_reply_name env pre name =
     (let q = ld_append [] (bytes pre);
          q = ld_append q name
      in syscall env (CSend 0 q))"

fun tok_loop :: "nat \<Rightarrow> u8 list \<Rightarrow> nat" where
  "tok_loop j [] = j"
| "tok_loop j (b # bs) = (if b = 32 then j else tok_loop (j + 1) bs)"

definition tok_end :: "u8 list \<Rightarrow> nat \<Rightarrow> nat" where
  "tok_end p i = tok_loop i (drop i p)"

definition hex_digit :: "u8 \<Rightarrow> u32 option" where
  "hex_digit b =
     (if b \<ge> 48 \<and> b \<le> 57 then Some (ucast (b - 48))
      else if b \<ge> 97 \<and> b \<le> 102 then Some (ucast (b - 97 + 10))
      else None)"

fun hex4_loop :: "u32 \<Rightarrow> u8 list \<Rightarrow> u32" where
  "hex4_loop v [] = v"
| "hex4_loop v (b # bs) =
     (case hex_digit b of None \<Rightarrow> - 1 | Some d \<Rightarrow> hex4_loop (push_bit 4 v OR d) bs)"

definition parse_hex4 :: "u8 list \<Rightarrow> nat \<Rightarrow> u32" where
  "parse_hex4 p i = hex4_loop 0 (take 4 (drop i p))"

definition ck_sum :: "u8 list \<Rightarrow> nat \<Rightarrow> u32" where
  "ck_sum p fin = foldl (\<lambda>s b. (s + ucast b) AND 0xffff) 0 (take fin p)"

definition ld_num_after :: "u8 list \<Rightarrow> nat \<Rightarrow> u64 \<times> nat" where
  "ld_num_after p j =
     (if j \<ge> length p \<or> p ! j \<noteq> 32 then (- 1, j) else parse_dec_stop p (j + 1))"

section \<open>Validation of an image record\<close>

definition ld_validate :: "u8 list \<Rightarrow> u8 list \<Rightarrow> u8" where
  "ld_validate rp name =
     (let rl = length rp; magic = bytes ''AXAPP1 '' in
      if rl < length magic + 6 then 4
      else if \<not> starts_with rp magic then 1
      else if rp ! (rl - 5) \<noteq> 32 then 4
      else let want = parse_hex4 rp (rl - 4) in
      if want = - 1 then 4
      else if ck_sum rp (rl - 5) \<noteq> want then 2
      else let i0 = length magic; i1 = tok_end rp i0 in
      if i1 \<le> i0 then 4
      else if \<not> eqs (take (i1 - i0) (drop i0 rp)) name then 1
      else let (e, j1) = ld_num_after rp i1;
               (t, j2) = ld_num_after rp j1;
               (rd, j3) = ld_num_after rp j2;
               (s, j4) = ld_num_after rp j3 in
      if e = - 1 \<or> t = - 1 \<or> rd = - 1 \<or> s = - 1 then 4
      else if j4 \<ge> rl \<or> rp ! j4 \<noteq> 32 then 4
      else let c0 = j4 + 1; c1 = tok_end rp c0 in
      if c1 \<le> c0 then 4
      else let (z, j5) = ld_num_after rp c1 in
      if z = - 1 \<or> j5 \<noteq> rl - 5 then 4
      else if t = 0 \<or> t > 65536 \<or> rd > 65536 \<or> z \<noteq> t + rd \<or> z > 131072 \<or> e \<ge> t \<or> s \<noteq> 1 then 1
      else let caps = take (c1 - c0) (drop c0 rp);
               want_console = is_cmd caps ''console'' in
      if \<not> want_console \<and> \<not> is_cmd caps ''none'' then 3
      else if is_cmd name ''hello'' \<or> is_cmd name ''counter'' then 0
      else if is_cmd name ''fault_demo'' then (if want_console then 3 else 0)
      else 5)"

section \<open>The service\<close>

definition ld_reject :: "env \<Rightarrow> u8 list \<Rightarrow> string \<Rightarrow> string \<Rightarrow> unit user" where
  "ld_reject env name word rep =
     do {
       uput env ''APP_IMAGE rejected='';
       uwrite_ptr env name;
       uput env '' reason='';
       uput env word;
       uwrite_ptr env [10];
       app_reply env (bytes rep)
     }"

definition ld_emit_reject :: "env \<Rightarrow> u8 \<Rightarrow> u8 list \<Rightarrow> unit user" where
  "ld_emit_reject env code name =
     (if code = 1 then ld_reject env name ''bad_image'' ''ERR bad_image''
      else if code = 2 then ld_reject env name ''bad_checksum'' ''ERR bad_checksum''
      else if code = 3 then ld_reject env name ''denied_capability'' ''ERR denied_capability''
      else ld_reject env name ''malformed'' ''ERR malformed'')"

definition ld_app_id :: "u8 list \<Rightarrow> u64" where
  "ld_app_id name =
     (if is_cmd name ''hello'' then 0
      else if is_cmd name ''counter'' then 1
      else if is_cmd name ''fault_demo'' then 2
      else - 1)"

definition APP_HELLO :: u64 where "APP_HELLO = 6"
definition APP_FAULT :: u64 where "APP_FAULT = 7"
definition APP_COUNTER :: u64 where "APP_COUNTER = 8"

definition ld_tbl_idx :: "u64 \<Rightarrow> u64" where
  "ld_tbl_idx i = (if i = 0 then APP_HELLO else if i = 1 then APP_COUNTER else APP_FAULT)"

text \<open>The table of application states: 0 available, 1 loaded, 2 run requested.\<close>

type_synonym app_states = "u8 list"

definition ld_load :: "env \<Rightarrow> u8 list \<Rightarrow> app_states \<Rightarrow> app_states user" where
  "ld_load env name st =
     (let i = ld_app_id name in
      if i \<noteq> - 1 \<and> st ! unat i \<noteq> 0 then do { app_reply env (bytes ''ERR already_loaded''); State_Monad.return st }
      else do {
        (rr, rp) \<leftarrow> ld_fetch env name;
        if rr < 0 then do { app_reply env (bytes ''ERR not_found''); State_Monad.return st }
        else let code = ld_validate rp name in
          if code = 5 then do { app_reply env (bytes ''ERR not_found''); State_Monad.return st }
          else if code \<noteq> 0 then do { ld_emit_reject env code name; State_Monad.return st }
          else do {
            uput env ''APP_IMAGE loaded='';
            uwrite_ptr env name;
            uput env '' source=/bin/'';
            uwrite_ptr env name;
            uput env ''.app'';
            uwrite_ptr env [10];
            let st = st[unat i := 1];
            ld_reply_name env ''OK loaded '' name;
            State_Monad.return st
          }
      })"

definition ld_run :: "env \<Rightarrow> u8 list \<Rightarrow> app_states \<Rightarrow> app_states user" where
  "ld_run env name st =
     (let i = ld_app_id name in
      if i = - 1 then do { app_reply env (bytes ''ERR not_found''); State_Monad.return st }
      else if st ! unat i = 0 then do { app_reply env (bytes ''ERR not_loaded''); State_Monad.return st }
      else do {
        r \<leftarrow> sys env (CTaskStart (ld_tbl_idx i));
        if r_ret r < 0 then do { app_reply env (bytes ''error: cannot start''); State_Monad.return st }
        else do {
          let st = st[unat i := 2];
          ld_reply_name env ''OK running '' name;
          State_Monad.return st
        }
      })"

definition ld_unload :: "env \<Rightarrow> u8 list \<Rightarrow> app_states \<Rightarrow> app_states user" where
  "ld_unload env name st =
     (let i = ld_app_id name in
      if i = - 1 then do { app_reply env (bytes ''ERR not_found''); State_Monad.return st }
      else if st ! unat i = 0 then do { app_reply env (bytes ''ERR not_loaded''); State_Monad.return st }
      else do {
        let st = st[unat i := 0];
        ld_reply_name env ''OK unloaded '' name;
        State_Monad.return st
      })"

definition ld_state :: "env \<Rightarrow> u8 list \<Rightarrow> app_states \<Rightarrow> unit user" where
  "ld_state env name st =
     (let i = ld_app_id name in
      if i = - 1 then app_reply env (bytes ''ERR not_found'')
      else let v = st ! unat i in
      if v = 0 then app_reply env (bytes ''state=available'')
      else if v = 1 then app_reply env (bytes ''state=loaded'')
      else do {
        wn \<leftarrow> sys env (CInfo 7 16 (ld_tbl_idx i + 1));
        if r_ret wn > 0 \<and> is_cmd (message wn) ''killed'' then app_reply env (bytes ''state=exited'')
        else if r_ret wn > 0 \<and> is_cmd (message wn) ''faulted'' then app_reply env (bytes ''state=faulted'')
        else app_reply env (bytes ''state=running'')
      })"

definition ld_info :: "env \<Rightarrow> u8 list \<Rightarrow> unit user" where
  "ld_info env p =
     (if is_cmd p ''hello'' then app_reply env (bytes ''hello: greeter prio=2 caps=console restart=rerun'')
      else if is_cmd p ''fault_demo'' then app_reply env (bytes ''fault_demo: containment demo prio=2 caps=none'')
      else if is_cmd p ''counter'' then app_reply env (bytes ''counter: progress demo prio=2 caps=console'')
      else app_reply env (bytes ''unknown app''))"

definition legacy_run :: "env \<Rightarrow> u8 list \<Rightarrow> unit user" where
  "legacy_run env p =
     (let idx = (if is_cmd p ''hello'' then APP_HELLO
                 else if is_cmd p ''fault_demo'' then APP_FAULT
                 else if is_cmd p ''counter'' then APP_COUNTER
                 else - 1)
      in if idx = - 1 then app_reply env (bytes ''unknown app'')
         else do {
           r \<leftarrow> sys env (CTaskStart idx);
           if r_ret r < 0 then app_reply env (bytes ''error: cannot start'')
           else app_reply env (bytes ''started'')
         })"

definition loader_step :: "env \<Rightarrow> app_states \<Rightarrow> app_states user" where
  "loader_step env st =
     do {
       r \<leftarrow> sys env (CRecv 0 64);
       if r_ret r \<le> 0 then State_Monad.return st
       else let bp = message r in
         if is_cmd bp ''apps'' then
           do { app_reply env (bytes ''apps: hello fault_demo counter''); State_Monad.return st }
         else if has_prefix bp ''app info '' then
           do { ld_info env (tail_of bp ''app info ''); State_Monad.return st }
         else if is_cmd bp ''APP_LIST'' then
           do { app_reply env (bytes ''apps: hello fault_demo counter''); State_Monad.return st }
         else if has_prefix bp ''APP_INFO '' then
           do { ld_info env (tail_of bp ''APP_INFO ''); State_Monad.return st }
         else if has_prefix bp ''APP_LOAD '' then ld_load env (tail_of bp ''APP_LOAD '') st
         else if has_prefix bp ''APP_RUN '' then ld_run env (tail_of bp ''APP_RUN '') st
         else if has_prefix bp ''APP_UNLOAD '' then ld_unload env (tail_of bp ''APP_UNLOAD '') st
         else if has_prefix bp ''APP_STATE '' then
           do { ld_state env (tail_of bp ''APP_STATE '') st; State_Monad.return st }
         else if has_prefix bp ''run '' then
           do { legacy_run env (tail_of bp ''run ''); State_Monad.return st }
         else do { app_reply env (bytes ''unknown app command''); State_Monad.return st }
     }"

definition app_loader_body :: "nat \<Rightarrow> env \<Rightarrow> app_states user" where
  "app_loader_body n env = serve n (loader_step env) (replicate 4 0)"

section \<open>One reply per request\<close>

lemma sp_app_reply: "length a \<le> 128 \<Longrightarrow> speaks (\<lambda>_. True) (Suc 0) (app_reply env a)"
  unfolding app_reply_def by (rule sp_reply)

lemma sp_ld_reply_name: "length pre \<le> 63 \<Longrightarrow> speaks (\<lambda>_. True) (Suc 0) (ld_reply_name env pre name)"
  unfolding ld_reply_name_def Let_def by (rule sp_reply) (simp add: ld_append_def copy_upto_eq)

lemma sp_ld_fetch: "speaks (\<lambda>_. True) 0 (ld_fetch env name)"
  unfolding ld_fetch_def Let_def by (intro sp_rules) simp_all

lemma sp_ld_emit_reject: "speaks (\<lambda>_. True) (Suc 0) (ld_emit_reject env code name)"
  unfolding ld_emit_reject_def ld_reject_def by (intro sp_rules sp_app_reply) simp_all

lemmas sp_ld_bind = sp_bind1 [OF sp_app_reply] sp_bind1 [OF sp_ld_reply_name] sp_bind0 [OF sp_ld_fetch]
  sp_bind1 [OF sp_ld_emit_reject]

lemma sp_loader:
  "speaks (\<lambda>_. True) (Suc 0) (ld_load env name st)" "speaks (\<lambda>_. True) (Suc 0) (ld_run env name st)"
  "speaks (\<lambda>_. True) (Suc 0) (ld_unload env name st)" "speaks (\<lambda>_. True) (Suc 0) (ld_state env name st)"
  "speaks (\<lambda>_. True) (Suc 0) (ld_info env name)" "speaks (\<lambda>_. True) (Suc 0) (legacy_run env name)"
  unfolding ld_load_def ld_run_def ld_unload_def ld_state_def ld_info_def legacy_run_def Let_def
  by (intro sp_rules sp_ld_bind sp_app_reply; simp)+

abbreviation loader_protocol :: "u8 list \<Rightarrow> u8 list \<Rightarrow> bool" where
  "loader_protocol \<equiv> protocol [''apps'', ''APP_LIST'']
     [''app info '', ''APP_INFO '', ''APP_LOAD '', ''APP_RUN '', ''APP_UNLOAD '', ''APP_STATE '', ''run ''] ''unknown app command''"

interpretation loader: request_server loader_step "\<lambda>_. True" loader_protocol "\<lambda>_. False"
proof
  show "does (loader_step env st) (round_ok (\<lambda>_. True) loader_protocol (\<lambda>_. False))" for env st
    unfolding loader_step_def Let_def
  proof (rule round_of_protocol, goal_cases)
    case (1 r)
    show ?case
      by (intro sp_rules sp_ld_bind sp_loader sp_bind1 [OF sp_loader(4)] sp_bind1 [OF sp_loader(5)] sp_bind1 [OF sp_loader(6)]) simp_all
  next
    case (2 r)
    then show ?case by (simp add: commands_def app_reply_def) (rule tells_then [OF tells_reply], simp)
  qed simp
qed simp

section \<open>What is started was validated\<close>

definition app_names :: "u8 list list" where
  "app_names = [bytes ''hello'', bytes ''counter'', bytes ''fault_demo'']"

text \<open>The log shows a validated image of the application, fetched from the file system and not unloaded
  since.\<close>

definition loaded_in :: "event list \<Rightarrow> u8 list \<Rightarrow> bool" where
  "loaded_in es name \<longleftrightarrow> (\<exists>a r b. es = a @ (CRecv 2 64, r) # b \<and> ld_validate (message r) name = 0
     \<and> (\<forall>x. (CSend 0 (bytes ''OK unloaded '' @ name), x) \<notin> set b))"

text \<open>The last thing before was a request to run the application by its name.\<close>

definition asked_to_run :: "event list \<Rightarrow> u8 list \<Rightarrow> bool" where
  "asked_to_run es name \<longleftrightarrow> es \<noteq> [] \<and> fst (last es) = CRecv 0 64 \<and> message (snd (last es)) = bytes ''run '' @ name"

definition start_ok :: "event list \<Rightarrow> u64 \<Rightarrow> bool" where
  "start_ok es idx \<longleftrightarrow> (\<exists>name. name \<in> set app_names \<and> idx = ld_tbl_idx (ld_app_id name)
     \<and> (loaded_in es name \<or> asked_to_run es name))"

definition starts_ok :: "event list \<Rightarrow> bool" where
  "starts_ok es \<longleftrightarrow> (\<forall>k idx. k < length es \<longrightarrow> fst (es ! k) = CTaskStart idx \<longrightarrow> start_ok (take k es) idx)"

text \<open>Events that neither start a task nor confirm an unload.\<close>

fun harmless :: "event \<Rightarrow> bool" where
  "harmless (CTaskStart _, _) = False"
| "harmless (CSend slot bs, _) = (take 12 bs \<noteq> bytes ''OK unloaded '')"
| "harmless _ = True"

lemma ld_app_id_names:
  "name \<in> set app_names \<longleftrightarrow> ld_app_id name \<noteq> - 1" "ld_app_id name \<noteq> - 1 \<Longrightarrow> unat (ld_app_id name) < 3"
  "ld_app_id name \<noteq> - 1 \<Longrightarrow> app_names ! unat (ld_app_id name) = name"
  by (auto simp: ld_app_id_def app_names_def)

text \<open>The table write of a successful load is in bounds: a record is accepted for a known name only.\<close>

lemma validate_known: "ld_validate rp name = 0 \<Longrightarrow> name \<in> set app_names"
  by (auto simp: ld_validate_def Let_def app_names_def split: if_splits prod.splits)

lemma loaded_in_append: "loaded_in es name \<Longrightarrow> list_all harmless new \<Longrightarrow> loaded_in (es @ new) name"
proof -
  assume "loaded_in es name" and h: "list_all harmless new"
  then obtain a r b where "es = a @ (CRecv 2 64, r) # b" "ld_validate (message r) name = 0"
      "\<forall>x. (CSend 0 (bytes ''OK unloaded '' @ name), x) \<notin> set b" by (auto simp: loaded_in_def)
  moreover have "(CSend 0 (bytes ''OK unloaded '' @ name), x) \<notin> set new" for x
    using h by (fastforce simp: list_all_iff)
  ultimately show ?thesis unfolding loaded_in_def by (intro exI [of _ a] exI [of _ r] exI [of _ "b @ new"]) auto
qed

lemma starts_ok_append:
  assumes "starts_ok es" and "\<And>k idx. k < length new \<Longrightarrow> fst (new ! k) = CTaskStart idx \<Longrightarrow> start_ok (es @ take k new) idx"
  shows "starts_ok (es @ new)"
  using assms unfolding starts_ok_def by (auto simp: nth_append)

lemma starts_ok_harmless: "starts_ok es \<Longrightarrow> list_all harmless new \<Longrightarrow> starts_ok (es @ new)"
proof (rule starts_ok_append)
  fix k idx assume "list_all harmless new" "k < length new" "fst (new ! k) = CTaskStart idx"
  then show "start_ok (es @ take k new) idx" by (cases "new ! k") (auto simp: list_all_length)
qed

lemma does_syscall: "does (syscall env c) (\<lambda>_ es. \<exists>r. es = [(c, r)])"
  unfolding syscall_def by (rule does_bind [OF does_sys [where Q = "\<lambda>r es. es = [(c, r)]"]]) (simp_all add: does_return)

lemma if_does: "(b \<Longrightarrow> does m Q) \<Longrightarrow> (\<not> b \<Longrightarrow> does m' Q) \<Longrightarrow> does (if b then m else m') Q"
  by simp

lemma harmless_reply: "take 12 s \<noteq> ''OK unloaded '' \<Longrightarrow> ensures (\<lambda>_. True) harmless (app_reply env (bytes s))"
  unfolding app_reply_def by (rule ens_syscall) (simp add: take_bytes)

lemma harmless_uwrite: "ensures (\<lambda>_. True) harmless (uwrite_ptr env p)"
  by (rule ens_uwrite) simp

lemma harmless_reject: "ensures (\<lambda>_. True) harmless (ld_emit_reject env code name)"
  unfolding ld_emit_reject_def ld_reject_def
  by (intro ens_branch ens_then [OF harmless_uwrite] harmless_reply) simp_all

lemma harmless_reply_name:
  "pre \<in> {''OK loaded '', ''OK running ''} \<Longrightarrow> ensures (\<lambda>_. True) harmless (ld_reply_name env pre name)"
  unfolding ld_reply_name_def Let_def ld_append_def copy_upto_eq
  by (rule ens_syscall) (auto simp: bytes_def)

lemmas harmless_then = ens_then [OF harmless_reply] ens_then [OF harmless_uwrite] ens_then [OF harmless_reject]
  ens_then [OF harmless_reply_name] ens_branch ens_return

lemma ld_state_harmless: "ensures (\<lambda>_. True) harmless (ld_state env name st)" "ensures (\<lambda>_. True) harmless (ld_info env name)"
  unfolding ld_state_def ld_info_def Let_def by (intro ens_branch ens_bind_sys harmless_reply; simp)+

text \<open>A load changes the table only after a validated record.\<close>

lemma ld_fetch_does:
  "does (ld_fetch env name) (\<lambda>x es. list_all harmless es
     \<and> (fst x < 0 \<or> (\<exists>a r. es = a @ [(CRecv 2 64, r)] \<and> snd x = message r)))"
proof -
  have h: "harmless (CSend 2 (ld_append (ld_append (ld_append [] (bytes ''CAT /bin/'')) name) (bytes ''.app'')), r)" for r
    by (simp add: ld_append_def copy_upto_eq bytes_def)
  have recv: "does (do { rr \<leftarrow> sys env (CRecv 2 64); if r_ret rr \<le> 0 \<or> has_prefix (message rr) ''ERR''
        then State_Monad.return (- 1, []) else State_Monad.return (r_ret rr, message rr) })
      (\<lambda>x es. list_all harmless (e # es) \<and> (fst x < 0 \<or> (\<exists>a r. e # es = a @ [(CRecv 2 64, r)] \<and> snd x = message r)))"
    if "harmless e" for e
    by (rule does_bind [OF does_sys [where Q = "\<lambda>r es. es = [(CRecv 2 64, r)]"]])
      (use that in \<open>auto intro!: does_return\<close>)
  show ?thesis
  proof (cases "length name = 0 \<or> length name > 27")
    case True
    then show ?thesis by (simp add: ld_fetch_def does_return)
  next
    case False
    show ?thesis unfolding ld_fetch_def Let_def if_not_P [OF False]
      by (rule does_bind [OF does_sys [where Q = "\<lambda>r es. \<exists>e. es = [e] \<and> harmless e"]])
        (use h recv in \<open>auto intro!: does_return\<close>)
  qed
qed

lemma ld_load_does:
  "does (ld_load env name st) (\<lambda>st' new. list_all harmless new
     \<and> (st' = st \<or> (st' = st[unat (ld_app_id name) := 1] \<and> loaded_in new name)))"
proof -
  let ?G = "\<lambda>es st' new. list_all harmless (es @ new)
      \<and> (st' = st \<or> (st' = st[unat (ld_app_id name) := 1] \<and> loaded_in (es @ new) name))"
  have keep: "does m (?G es)" if "ensures (\<lambda>s. s = st) harmless m" "list_all harmless es" for m es
    using that(1) unfolding ensures_def by (rule does_mono) (use that(2) in simp)
  have store: "does m (?G es)"
    if "ensures (\<lambda>s. s = st[unat (ld_app_id name) := 1]) harmless m" "list_all harmless es" "loaded_in es name" for m es
    using that(1) unfolding ensures_def by (rule does_mono) (use that(2,3) in \<open>simp add: loaded_in_append\<close>)
  have fetched: "loaded_in (a @ [(CRecv 2 64, r)]) name" if "ld_validate (message r) name = 0" for a r
    using that unfolding loaded_in_def by (intro exI [of _ a] exI [of _ r] exI [of _ "[]"]) simp
  have "does (ld_load env name st) (?G [])"
    unfolding ld_load_def Let_def
  proof (rule if_does, goal_cases)
    case 1
    show ?case by (rule keep, intro harmless_then) simp_all
  next
    case 2
    show ?case
    proof (rule does_bind [OF ld_fetch_does], unfold split_beta append_Nil, goal_cases)
      case (1 x es)
      show ?case
        by (intro if_does keep store harmless_then; use 1 fetched in auto)
    qed
  qed
  then show ?thesis by simp
qed

text \<open>A task start through the loader's protocol needs a loaded entry.\<close>

definition start_event :: "u8 list \<Rightarrow> event list \<Rightarrow> bool" where
  "start_event name new \<longleftrightarrow> (\<exists>a more. new = (CTaskStart (ld_tbl_idx (ld_app_id name)), a) # more \<and> list_all harmless more)"

lemma start_then:
  assumes "\<And>r. ensures (\<lambda>s. s = f r) harmless (m r)" and "\<And>r. I (f r)"
  shows "does (do { r \<leftarrow> sys env (CTaskStart (ld_tbl_idx (ld_app_id name))); m r }) (\<lambda>s new. I s \<and> start_event name new)"
proof (rule does_bind [OF does_sys [where Q = "\<lambda>r es. es = [(CTaskStart (ld_tbl_idx (ld_app_id name)), r)]"]], simp)
  fix r :: reply and new assume new: "new = [(CTaskStart (ld_tbl_idx (ld_app_id name)), r)]"
  show "does (m r) (\<lambda>s more. I s \<and> start_event name (new @ more))"
    using assms(1) [of r] unfolding ensures_def
    by (rule does_mono) (use assms(2) new in \<open>auto simp: start_event_def\<close>)
qed

lemma ld_run_does:
  "does (ld_run env name st) (\<lambda>st' new. (st' = st \<and> list_all harmless new)
     \<or> (ld_app_id name \<noteq> - 1 \<and> st ! unat (ld_app_id name) \<noteq> 0 \<and> st' \<in> {st, st[unat (ld_app_id name) := 2]} \<and> start_event name new))"
proof -
  have keep: "does m (\<lambda>st' new. (st' = st \<and> list_all harmless new) \<or> X st' new)" if "ensures (\<lambda>s. s = st) harmless m" for m X
    using that unfolding ensures_def by (rule does_mono) simp
  show ?thesis unfolding ld_run_def Let_def
  proof (rule if_does [OF keep], goal_cases)
    case 2
    show ?case
    proof (rule if_does [OF keep], goal_cases)
      case 2
      have "does (do { r \<leftarrow> sys env (CTaskStart (ld_tbl_idx (ld_app_id name)));
          if r_ret r < 0 then do { app_reply env (bytes ''error: cannot start''); State_Monad.return st }
          else do { ld_reply_name env ''OK running '' name; State_Monad.return (st[unat (ld_app_id name) := 2]) } })
        (\<lambda>s new. s \<in> {st, st[unat (ld_app_id name) := 2]} \<and> start_event name new)"
        by (rule start_then [where f = "\<lambda>r. if r_ret r < 0 then st else st[unat (ld_app_id name) := 2]"])
          (auto intro!: harmless_then)
      then show ?case by (rule does_mono) (use 2 \<open>ld_app_id name \<noteq> - 1\<close> in auto)
    qed (intro harmless_then; simp)
  qed (intro harmless_then; simp)
qed

lemma ld_unload_does:
  "does (ld_unload env name st) (\<lambda>st' new. (st' = st \<and> list_all harmless new)
     \<or> (ld_app_id name \<noteq> - 1 \<and> st' = st[unat (ld_app_id name) := 0] \<and> (\<exists>r. new = [(CSend 0 (bytes ''OK unloaded '' @ name), r)])))"
proof -
  have keep: "does m (\<lambda>st' new. (st' = st \<and> list_all harmless new) \<or> X st' new)" if "ensures (\<lambda>s. s = st) harmless m" for m X
    using that unfolding ensures_def by (rule does_mono) simp
  have len: "ld_append (ld_append [] (bytes ''OK unloaded '')) name = bytes ''OK unloaded '' @ name" if "ld_app_id name \<noteq> - 1"
    using that by (auto simp: ld_append_def copy_upto_eq ld_app_id_def split: if_splits)
  show ?thesis unfolding ld_unload_def Let_def
  proof (rule if_does [OF keep], goal_cases)
    case 2
    show ?case
    proof (rule if_does [OF keep], goal_cases)
      case 2
      show ?case unfolding ld_reply_name_def Let_def len [OF \<open>ld_app_id name \<noteq> - 1\<close>]
        by (rule does_bind [OF does_syscall]) (use \<open>ld_app_id name \<noteq> - 1\<close> in \<open>auto intro!: does_return\<close>)
    qed (intro harmless_then; simp)
  qed (intro harmless_then; simp)
qed

lemma legacy_run_does:
  "does (legacy_run env name) (\<lambda>_ new. list_all harmless new \<or> (ld_app_id name \<noteq> - 1 \<and> start_event name new))"
proof (cases "ld_app_id name = - 1")
  case True
  then have "legacy_run env name = app_reply env (bytes ''unknown app'')"
    by (auto simp: legacy_run_def ld_app_id_def split: if_splits)
  moreover have "ensures (\<lambda>_. True) harmless (app_reply env (bytes ''unknown app''))" by (rule harmless_reply) simp
  ultimately show ?thesis by (auto simp: ensures_def elim: does_mono)
next
  case False
  have "legacy_run env name = do { r \<leftarrow> sys env (CTaskStart (ld_tbl_idx (ld_app_id name)));
      if r_ret r < 0 then app_reply env (bytes ''error: cannot start'') else app_reply env (bytes ''started'') }"
    using False by (auto simp: legacy_run_def ld_app_id_def ld_tbl_idx_def APP_HELLO_def APP_FAULT_def APP_COUNTER_def split: if_splits)
  moreover have "does (do { r \<leftarrow> sys env (CTaskStart (ld_tbl_idx (ld_app_id name)));
      if r_ret r < 0 then app_reply env (bytes ''error: cannot start'') else app_reply env (bytes ''started'') })
      (\<lambda>s new. True \<and> start_event name new)"
    by (rule start_then [where f = "\<lambda>_. ()"]) (auto intro!: harmless_reply)
  ultimately show ?thesis using False by (auto elim: does_mono)
qed

text \<open>The invariant of the loader: a table entry in use has a validated image behind it.\<close>

definition loader_inv :: "app_states \<Rightarrow> event list \<Rightarrow> bool" where
  "loader_inv st es \<longleftrightarrow> length st = 4 \<and> (\<forall>i<3. st ! i \<noteq> 0 \<longrightarrow> loaded_in es (app_names ! i)) \<and> starts_ok es"

lemma inv_harmless: "loader_inv st es \<Longrightarrow> list_all harmless new \<Longrightarrow> loader_inv st (es @ new)"
  by (auto simp: loader_inv_def intro: loaded_in_append starts_ok_harmless)

lemma inv_ensures: "loader_inv st es \<Longrightarrow> ensures (\<lambda>s. s = st) harmless m \<Longrightarrow> does m (\<lambda>st' new. loader_inv st' (es @ new))"
  unfolding ensures_def by (erule does_mono) (auto intro: inv_harmless)

lemma inv_set:
  assumes "loader_inv st es" and "i < 3" and "v \<noteq> 0 \<Longrightarrow> loaded_in es (app_names ! i)"
  shows "loader_inv (st[i := v]) es"
  using assms by (auto simp: loader_inv_def nth_list_update)

lemma loaded_in_snoc:
  assumes "loaded_in es n" and "fst e \<noteq> CSend 0 (bytes ''OK unloaded '' @ n)"
  shows "loaded_in (es @ [e]) n"
proof -
  obtain x r y where "es = x @ (CRecv 2 64, r) # y" "ld_validate (message r) n = 0"
      "\<forall>z. (CSend 0 (bytes ''OK unloaded '' @ n), z) \<notin> set y" using assms(1) by (auto simp: loaded_in_def)
  then show ?thesis using assms(2) unfolding loaded_in_def by (intro exI [of _ x] exI [of _ r] exI [of _ "y @ [e]"]) auto
qed

lemma inv_start:
  assumes "loader_inv st es" and "ld_app_id name \<noteq> - 1" and "loaded_in es name \<or> asked_to_run es name" and "start_event name new"
  shows "loader_inv st (es @ new)"
proof -
  obtain a more where new: "new = (CTaskStart (ld_tbl_idx (ld_app_id name)), a) # more" and h: "list_all harmless more"
    using assms(4) by (auto simp: start_event_def)
  let ?e = "(CTaskStart (ld_tbl_idx (ld_app_id name)), a)"
  have s: "start_ok es (ld_tbl_idx (ld_app_id name))"
    using assms(2,3) ld_app_id_names(1) unfolding start_ok_def by blast
  have "starts_ok (es @ [?e])" using assms(1) s by (intro starts_ok_append) (auto simp: loader_inv_def)
  moreover have "loaded_in (es @ [?e]) n" if "loaded_in es n" for n
    using that by (rule loaded_in_snoc) simp
  ultimately have "loader_inv st (es @ [?e])" using assms(1) by (auto simp: loader_inv_def)
  from inv_harmless [OF this h] show ?thesis unfolding new by simp
qed

lemma inv_unload:
  assumes "loader_inv st es" and "ld_app_id name \<noteq> - 1"
  shows "loader_inv (st[unat (ld_app_id name) := 0]) (es @ [(CSend 0 (bytes ''OK unloaded '' @ name), r)])"
proof -
  let ?i = "unat (ld_app_id name)" and ?e = "(CSend 0 (bytes ''OK unloaded '' @ name), r)"
  note id = ld_app_id_names(2,3) [OF assms(2)]
  have "loaded_in (es @ [?e]) (app_names ! j)" if "j < 3" "j \<noteq> ?i" "loaded_in es (app_names ! j)" for j
  proof -
    have "app_names ! j \<noteq> name" using that(1,2) id
      by (auto simp: app_names_def less_Suc_eq numeral_eq_Suc nth_Cons split: nat.splits)
    then show ?thesis using that(3) by (intro loaded_in_snoc) auto
  qed
  moreover have "starts_ok (es @ [?e])" using assms(1) by (intro starts_ok_append) (auto simp: loader_inv_def)
  ultimately show ?thesis using assms(1) id(1) by (auto simp: loader_inv_def nth_list_update split: if_splits)
qed

lemma loader_ops_inv:
  assumes "loader_inv st es"
  shows "does (ld_load env name st) (\<lambda>st' new. loader_inv st' (es @ new))" (is ?load)
    and "does (ld_run env name st) (\<lambda>st' new. loader_inv st' (es @ new))" (is ?run)
    and "does (ld_unload env name st) (\<lambda>st' new. loader_inv st' (es @ new))" (is ?unload)
proof -
  have suffix: "loaded_in (es @ new) n" if "loaded_in new n" for new n
    using that unfolding loaded_in_def by (metis append.assoc)
  show ?load
  proof (rule does_mono [OF ld_load_does], elim conjE disjE)
    fix st' new assume h: "list_all harmless new" and "st' = st[unat (ld_app_id name) := 1]" and l: "loaded_in new name"
    moreover have "ld_app_id name \<noteq> - 1" using l validate_known ld_app_id_names(1) by (auto simp: loaded_in_def)
    ultimately show "loader_inv st' (es @ new)"
      using inv_set [OF inv_harmless [OF assms h] ld_app_id_names(2)] suffix [OF l] ld_app_id_names(3) by metis
  qed (use assms inv_harmless in auto)
  show ?run
  proof (rule does_mono [OF ld_run_does], elim conjE disjE)
    fix st' new assume i: "ld_app_id name \<noteq> - 1" "st ! unat (ld_app_id name) \<noteq> 0"
      and st': "st' \<in> {st, st[unat (ld_app_id name) := 2]}" and s: "start_event name new"
    have l: "loaded_in es name" using assms i ld_app_id_names(2,3) [OF i(1)] by (auto simp: loader_inv_def)
    have "loader_inv st' es" using st' assms inv_set [OF assms ld_app_id_names(2) [OF i(1)]] l ld_app_id_names(3) [OF i(1)] by auto
    then show "loader_inv st' (es @ new)" using inv_start i(1) l s by blast
  qed (use assms inv_harmless in auto)
  show ?unload
    by (rule does_mono [OF ld_unload_does]) (use assms inv_harmless inv_unload in auto)
qed

lemma loader_step_inv:
  assumes "loader_inv st es"
  shows "does (loader_step env st) (\<lambda>st' new. loader_inv st' (es @ new))"
  unfolding loader_step_def Let_def
proof (rule does_bind [OF does_sys [where Q = "\<lambda>r new. new = [(CRecv 0 64, r)]"]], simp)
  fix r :: reply and new assume new: "new = [(CRecv 0 64, r)]"
  have inv: "loader_inv st (es @ new)" using inv_harmless [OF assms] new by simp
  note ops = loader_ops_inv [OF inv, simplified] inv_ensures [OF inv, simplified]
  have run: "does (do { legacy_run env name; State_Monad.return st }) (\<lambda>st' more. loader_inv st' (es @ new @ more))"
    if "message r = bytes ''run '' @ name" for name
  proof (rule does_bind [OF legacy_run_does], rule does_return, elim disjE conjE)
    fix more assume "ld_app_id name \<noteq> - 1" "start_event name more"
    moreover have "asked_to_run (es @ new) name" using that new by (simp add: asked_to_run_def)
    ultimately show "loader_inv st (es @ new @ more @ [])" using inv_start [OF inv] by simp
  qed (use inv_harmless [OF inv] in simp)
  show "does (if r_ret r \<le> 0 then State_Monad.return st else
      if is_cmd (message r) ''apps'' then do { app_reply env (bytes ''apps: hello fault_demo counter''); State_Monad.return st }
      else if has_prefix (message r) ''app info '' then do { ld_info env (tail_of (message r) ''app info ''); State_Monad.return st }
      else if is_cmd (message r) ''APP_LIST'' then do { app_reply env (bytes ''apps: hello fault_demo counter''); State_Monad.return st }
      else if has_prefix (message r) ''APP_INFO '' then do { ld_info env (tail_of (message r) ''APP_INFO ''); State_Monad.return st }
      else if has_prefix (message r) ''APP_LOAD '' then ld_load env (tail_of (message r) ''APP_LOAD '') st
      else if has_prefix (message r) ''APP_RUN '' then ld_run env (tail_of (message r) ''APP_RUN '') st
      else if has_prefix (message r) ''APP_UNLOAD '' then ld_unload env (tail_of (message r) ''APP_UNLOAD '') st
      else if has_prefix (message r) ''APP_STATE '' then do { ld_state env (tail_of (message r) ''APP_STATE '') st; State_Monad.return st }
      else if has_prefix (message r) ''run '' then do { legacy_run env (tail_of (message r) ''run ''); State_Monad.return st }
      else do { app_reply env (bytes ''unknown app command''); State_Monad.return st })
    (\<lambda>st' more. loader_inv st' (es @ new @ more))"
    by (intro if_does; (rule ops(1-3) | rule run, erule has_prefix_split
        | rule ops(4), intro harmless_then ens_then [OF ld_state_harmless(1)] ens_then [OF ld_state_harmless(2)]; simp))
qed

text \<open>C9. Only validated images run: in every run of the application loader, whatever is requested
  and whatever the file system answers, each task start is for one of the three applications, and before
  it the log holds a fetched record of that application that passed validation and was not unloaded since,
  or the request was the direct \<open>run\<close> command by name, which takes no image.\<close>

theorem loader_starts_validated:
  assumes "es = snd (run_state (app_loader_body n env) [])" and "k < length es" and "fst (es ! k) = CTaskStart idx"
  shows "\<exists>name \<in> set app_names. idx = ld_tbl_idx (ld_app_id name) \<and> (loaded_in (take k es) name \<or> asked_to_run (take k es) name)"
proof -
  have "loader_inv (replicate 4 0) []" by (simp add: loader_inv_def starts_ok_def)
  then have "does (app_loader_body n env) loader_inv"
    unfolding app_loader_body_def by (rule does_serve) (rule loader_step_inv)
  from does_log [OF this] have "starts_ok es" unfolding assms(1) by (simp add: loader_inv_def)
  then show ?thesis using assms(2,3) unfolding starts_ok_def start_ok_def by blast
qed

definition sample_loader_env :: env where
  "sample_loader_env es c =
     (case c of
        CRecv slot _ \<Rightarrow>
          let m = (if slot = 2 then bytes ''AXAPP1 hello 0 4096 4096 1 console 8192 0a6d''
                   else if es = [] then bytes ''APP_LOAD hello'' else bytes ''APP_RUN hello'')
          in \<lparr>r_ret = int (length m), r_buf = m\<rparr>
      | _ \<Rightarrow> \<lparr>r_ret = 1, r_buf = []\<rparr>)"

theorem loader_starts_validated_witness:
  "let es = snd (run_state (app_loader_body 2 sample_loader_env) []) in
     \<exists>name \<in> set app_names. APP_HELLO = ld_tbl_idx (ld_app_id name) \<and> (loaded_in (take 11 es) name \<or> asked_to_run (take 11 es) name)"
proof -
  have "11 < length (snd (run_state (app_loader_body 2 sample_loader_env) []))"
    "fst (snd (run_state (app_loader_body 2 sample_loader_env) []) ! 11) = CTaskStart APP_HELLO"
    by code_simp+
  from loader_starts_validated [OF refl this] show ?thesis by (simp only: Let_def)
qed

end
