(* ===== verification/File_Services.thy ===== *)
theory File_Services
  imports User_Code
begin

text \<open>
  The file system and storage services of \<open>os_boot.rs\<close>: one bounded request in, one bounded reply
  out; the files under \<open>/bin\<close> and \<open>/storage/version\<close> are read from the block image of the storage
  service over a nested exchange.
\<close>

section \<open>Storage service\<close>

definition storage_send_block :: "env \<Rightarrow> string \<Rightarrow> unit user" where
  "storage_send_block env bp = syscall env (CSend 0 (copy_upto 64 (bytes ''OK data='') (bytes bp)))"

definition block_reply_hi :: "env \<Rightarrow> u64 \<Rightarrow> unit user" where
  "block_reply_hi env n =
     (if n = 4 then storage_send_block env ''AXAPP1 hello 0 4096 4096 1 console 8192 0a6d''
      else if n = 5 then storage_send_block env ''AXAPP1 counter 0 4096 4096 1 console 8192 0b59''
      else if n = 6 then storage_send_block env ''AXAPP1 fault_demo 0 4096 4096 1 none 8192 0b36''
      else storage_send_block env ''reserved'')"

definition block_reply :: "env \<Rightarrow> u64 \<Rightarrow> unit user" where
  "block_reply env n =
     (if n = 0 then storage_send_block env ''AXSTOR v1 blocks=8 bs=48 ro=1''
      else if n = 1 then storage_send_block env ''AxiomRT v1.6-storage-backed-loader eval stage''
      else if n = 2 then storage_send_block env ''AxiomRT microkernel safety runtime''
      else if n = 3 then storage_send_block env ''apps: hello counter fault_demo prio=2''
      else if n \<le> 7 then block_reply_hi env n
      else syscall env (CSend 0 (bytes ''ERR bad_block'')))"

definition storage_serve :: "env \<Rightarrow> u8 list \<Rightarrow> unit user" where
  "storage_serve env bp =
     (let malformed = syscall env (CSend 0 (bytes ''ERR malformed'')); n = length bp in
      if is_cmd bp ''INFO'' then syscall env (CSend 0 (bytes ''OK block_size=48 blocks=8 readonly=true''))
      else if has_prefix bp ''READ block='' then
        let (blk, fin) = parse_dec_stop bp (length ''READ block='')
        in if blk = - 1 \<or> fin \<noteq> n then malformed else block_reply env blk
      else if has_prefix bp ''READ_RANGE start='' then
        let (start, i) = parse_dec_stop bp (length ''READ_RANGE start='');
            after = i + length '' count=''
        in if start = - 1 \<or> after > n \<or> \<not> eqs (take (length '' count='') (drop i bp)) (bytes '' count='')
           then malformed
           else let (count, fin) = parse_dec_stop bp after
             in if count = - 1 \<or> fin \<noteq> n then malformed
                else if count \<noteq> 1 then syscall env (CSend 0 (bytes ''ERR too_many_blocks''))
                else block_reply env start
      else malformed)"

definition storage_step :: "env \<Rightarrow> unit \<Rightarrow> unit user" where
  "storage_step env _ =
     do {
       r \<leftarrow> sys env (CRecv 0 64);
       if r_ret r \<le> 0 then skip else storage_serve env (message r)
     }"

definition storage_body :: "nat \<Rightarrow> env \<Rightarrow> unit user" where
  "storage_body n env = serve n (storage_step env) ()"

section \<open>File system service\<close>

definition fs_reply :: "env \<Rightarrow> u8 list \<Rightarrow> unit user" where
  "fs_reply env p = syscall env (CSend 0 p)"

definition fs_stor_record :: "env \<Rightarrow> string \<Rightarrow> unit user" where
  "fs_stor_record env q =
     do {
       s \<leftarrow> sys env (CSend 1 (bytes q));
       if r_ret s < 0 then fs_reply env (bytes ''ERR not_found'')
       else do {
         sr \<leftarrow> sys env (CRecv 1 64);
         if r_ret sr > int (length ''OK data='') \<and> has_prefix (message sr) ''OK data=''
         then fs_reply env (tail_of (message sr) ''OK data='')
         else fs_reply env (bytes ''ERR not_found'')
       }
     }"

definition fs_stor_version :: "env \<Rightarrow> unit user" where
  "fs_stor_version env =
     do {
       s \<leftarrow> sys env (CSend 1 (bytes ''READ block=1''));
       if r_ret s < 0 then fs_reply env (bytes ''ERR not_found'')
       else do {
         sr \<leftarrow> sys env (CRecv 1 64);
         if r_ret sr > 0 then fs_reply env (message sr) else fs_reply env (bytes ''ERR not_found'')
       }
     }"

definition fs_ls :: "env \<Rightarrow> u8 list \<Rightarrow> unit user" where
  "fs_ls env p =
     (if is_cmd p ''/'' then fs_reply env (bytes ''OK etc apps docs bin'')
      else if is_cmd p ''/etc'' then fs_reply env (bytes ''OK version limitations'')
      else if is_cmd p ''/apps'' then fs_reply env (bytes ''OK hello.manifest counter.manifest fault_demo.manifest'')
      else if is_cmd p ''/docs'' then fs_reply env (bytes ''OK about'')
      else if is_cmd p ''/bin'' then
        fs_reply env (bytes ''OK hello.app counter.app fault_demo.app invalid_bad_magic.app invalid_bad_cap.app invalid_bad_checksum.app'')
      else fs_reply env (bytes ''ERR not_found''))"

definition fs_cat :: "env \<Rightarrow> u8 list \<Rightarrow> unit user" where
  "fs_cat env p =
     (if is_cmd p ''/etc/version'' then
        fs_reply env (bytes ''OK AxiomRT v1.6-storage-backed-loader RISC-V 64 eval stage'')
      else if is_cmd p ''/etc/limitations'' then
        fs_reply env (bytes ''OK emulator-only read-only evaluation build no cert claim'')
      else if is_cmd p ''/apps/hello.manifest'' then
        fs_reply env (bytes ''OK hello: prio=2 caps=console restart=rerun'')
      else if is_cmd p ''/apps/counter.manifest'' then
        fs_reply env (bytes ''OK counter: prio=2 caps=console restart=rerun'')
      else if is_cmd p ''/apps/fault_demo.manifest'' then
        fs_reply env (bytes ''OK fault_demo: prio=2 caps=none restart=rerun'')
      else if is_cmd p ''/docs/about'' then
        fs_reply env (bytes ''OK AxiomRT v1.6-storage-backed-loader see docs/INDEX.md'')
      else if is_cmd p ''/bin/hello.app'' then fs_stor_record env ''READ block=4''
      else if is_cmd p ''/bin/counter.app'' then fs_stor_record env ''READ block=5''
      else if is_cmd p ''/bin/fault_demo.app'' then fs_stor_record env ''READ block=6''
      else if is_cmd p ''/bin/invalid_bad_magic.app'' then
        fs_reply env (bytes ''BXAPP1 invalid_bad_magic 0 4096 4096 1 none 8192 0000'')
      else if is_cmd p ''/bin/invalid_bad_cap.app'' then
        fs_reply env (bytes ''AXAPP1 invalid_bad_cap 0 4096 4096 1 mmio 8192 0d18'')
      else if is_cmd p ''/bin/invalid_bad_checksum.app'' then
        fs_reply env (bytes ''AXAPP1 invalid_bad_checksum 0 4096 4096 1 none 8192 0000'')
      else if is_cmd p ''/storage/version'' then fs_stor_version env
      else fs_reply env (bytes ''ERR not_found''))"

definition fs_serve :: "env \<Rightarrow> u8 list \<Rightarrow> unit user" where
  "fs_serve env bp =
     (if has_prefix bp ''LS '' then fs_ls env (tail_of bp ''LS '')
      else if has_prefix bp ''CAT '' then fs_cat env (tail_of bp ''CAT '')
      else fs_reply env (bytes ''ERR bad_path''))"

definition fs_step :: "env \<Rightarrow> unit \<Rightarrow> unit user" where
  "fs_step env _ =
     do {
       r \<leftarrow> sys env (CRecv 0 64);
       if r_ret r \<le> 0 then skip else fs_serve env (message r)
     }"

definition fs_body :: "nat \<Rightarrow> env \<Rightarrow> unit user" where
  "fs_body n env = serve n (fs_step env) ()"

section \<open>One reply per request\<close>

lemma sp_storage_send_block: "speaks (\<lambda>_. True) (Suc 0) (storage_send_block env b)"
  unfolding storage_send_block_def by (rule sp_reply) (simp add: copy_upto_eq)

lemma sp_block_reply: "speaks (\<lambda>_. True) (Suc 0) (block_reply env n)"
  unfolding block_reply_def block_reply_hi_def by (intro sp_if sp_storage_send_block sp_reply) simp

lemma sp_storage_serve: "speaks (\<lambda>_. True) (Suc 0) (storage_serve env bp)"
  unfolding storage_serve_def Let_def by (intro sp_if sp_prod sp_reply sp_block_reply) simp_all

lemma sp_fs_reply: "length a \<le> 128 \<Longrightarrow> speaks (\<lambda>_. True) (Suc 0) (fs_reply env a)"
  unfolding fs_reply_def by (rule sp_reply)

lemma sp_fs_exchange:
  assumes "\<And>r. length (r_buf r) \<le> 64 \<Longrightarrow> speaks (\<lambda>_. True) (Suc 0) (f r)"
  shows "speaks (\<lambda>_. True) (Suc 0)
    (do { s \<leftarrow> sys env (CSend 1 q); if r_ret s < 0 then fs_reply env (bytes ''ERR not_found'')
          else do { sr \<leftarrow> sys env (CRecv 1 64); f sr } })"
  by (rule sp_bind [OF sp_sys], simp, rule sp_if, rule sp_fs_reply, simp, rule sp_bind [OF sp_sys]) (simp_all add: assms)

lemma sp_fs_stor: "speaks (\<lambda>_. True) (Suc 0) (fs_stor_record env q)" "speaks (\<lambda>_. True) (Suc 0) (fs_stor_version env)"
  unfolding fs_stor_record_def fs_stor_version_def
  by (intro sp_fs_exchange sp_if sp_fs_reply; use message_bound in \<open>fastforce simp: le_diff_conv\<close>)+

lemma sp_fs_serve: "speaks (\<lambda>_. True) (Suc 0) (fs_serve env bp)"
  unfolding fs_serve_def fs_ls_def fs_cat_def by (intro sp_if sp_fs_reply sp_fs_stor) simp_all

abbreviation storage_protocol :: "u8 list \<Rightarrow> u8 list \<Rightarrow> bool" where
  "storage_protocol \<equiv> protocol [''INFO''] [''READ block='', ''READ_RANGE start=''] ''ERR malformed''"

abbreviation fs_protocol :: "u8 list \<Rightarrow> u8 list \<Rightarrow> bool" where
  "fs_protocol \<equiv> protocol [] [''LS '', ''CAT ''] ''ERR bad_path''"

interpretation storage: request_server storage_step "\<lambda>_. True" storage_protocol "\<lambda>_. False"
proof
  show "does (storage_step env s) (round_ok (\<lambda>_. True) storage_protocol (\<lambda>_. False))" for env s
    unfolding storage_step_def
  proof (rule round_of_protocol)
    fix r :: reply assume "\<not> commands [''INFO''] [''READ block='', ''READ_RANGE start=''] (message r)"
    then have "storage_serve env (message r) = syscall env (CSend 0 (bytes ''ERR malformed''))"
      by (simp add: storage_serve_def commands_def Let_def)
    then show "tells (\<lambda>_. True) (bytes ''ERR malformed'') (storage_serve env (message r))" by (simp add: tells_reply)
  qed (simp_all add: sp_storage_serve)
qed simp

interpretation fs: request_server fs_step "\<lambda>_. True" fs_protocol "\<lambda>_. False"
proof
  show "does (fs_step env s) (round_ok (\<lambda>_. True) fs_protocol (\<lambda>_. False))" for env s
    unfolding fs_step_def
  proof (rule round_of_protocol)
    fix r :: reply assume "\<not> commands [] [''LS '', ''CAT ''] (message r)"
    then have "fs_serve env (message r) = fs_reply env (bytes ''ERR bad_path'')"
      by (simp add: fs_serve_def commands_def)
    then show "tells (\<lambda>_. True) (bytes ''ERR bad_path'') (fs_serve env (message r))" by (simp add: fs_reply_def tells_reply)
  qed (simp_all add: sp_fs_serve)
qed simp

end
