(* ===== verification/Driver_Services.thy ===== *)
theory Driver_Services
  imports User_Code
begin

text \<open>
  The driver side of \<open>os_boot.rs\<close>: the block driver skeleton, the synthetic network driver, the
  network service and the driver manager that starts, observes and restarts the drivers.
\<close>

section \<open>Reply buffers\<close>

text \<open>The 64-byte buffers of \<open>nd_copy\<close> and \<open>nd_dec\<close>, as the bytes written so far.\<close>

definition nd_copy :: "u8 list \<Rightarrow> u8 list \<Rightarrow> u8 list" where
  "nd_copy dst src = copy_upto 64 dst src"

text \<open>The digits are produced least significant first into a 20-byte scratch buffer and copied
  out backwards.\<close>

fun nd_digits :: "nat \<Rightarrow> u64 \<Rightarrow> u8 list \<Rightarrow> u8 list" where
  "nd_digits 0 v tmp = tmp"
| "nd_digits (Suc room) v tmp =
     (if v > 0 then nd_digits room (v div 10) (tmp @ [48 + ucast (v mod 10)]) else tmp)"

definition nd_dec :: "u8 list \<Rightarrow> u64 \<Rightarrow> u8 list" where
  "nd_dec dst v =
     (if v = 0 then (if length dst < 64 then dst @ [48] else dst)
      else nd_copy dst (rev (nd_digits 20 v [])))"

definition ns_event :: "env \<Rightarrow> u8 list \<Rightarrow> unit user" where
  "ns_event env dst = uwrite_ptr env (if length dst < 64 then dst @ [10] else dst)"

section \<open>Block driver\<close>

text \<open>A driver that hit its test mode is gone: its state is \<open>None\<close>.\<close>

definition block_driver_start :: "env \<Rightarrow> unit user" where
  "block_driver_start env =
     do {
       syscall env (CDeviceInfo 1 192);
       syscall env (CMmioRead 1 0 4);
       syscall env (CMmioWrite 1 0 4 0);
       syscall env (CDmaWrite 1 0 1 0x41);
       syscall env (CDmaRead 1 0 1);
       syscall env (CRecv 2 1)
     }"

definition block_driver_step :: "env \<Rightarrow> unit option \<Rightarrow> unit option user" where
  "block_driver_step env st =
     (case st of None \<Rightarrow> State_Monad.return None
      | Some _ \<Rightarrow>
        do {
          r \<leftarrow> sys env (CRecv 0 64);
          if r_ret r \<le> 0 then State_Monad.return st
          else let cp = message r in
            if is_cmd cp ''STATUS'' then
              do { syscall env (CSend 0 (bytes ''kind=block_skeleton state=running mmio=granted irq=registered''));
                   State_Monad.return st }
            else if is_cmd cp ''FAULT'' then do { syscall env (Store 0x40000000 1); State_Monad.return None }
            else do { syscall env (CSend 0 (bytes ''ERR unknown_driver_command'')); State_Monad.return st }
        })"

definition block_driver_body :: "nat \<Rightarrow> env \<Rightarrow> unit option user" where
  "block_driver_body n env = do { block_driver_start env; serve n (block_driver_step env) (Some ()) }"

section \<open>Network driver\<close>

definition nd_status :: "env \<Rightarrow> u64 \<Rightarrow> u64 \<Rightarrow> unit user" where
  "nd_status env tx rx =
     (let n = nd_copy [] (bytes ''OK driver=running tx='');
          n = nd_dec n tx;
          n = nd_copy n (bytes '' rx='');
          n = nd_dec n rx;
          n = nd_copy n (bytes '' mode=synthetic'')
      in syscall env (CSend 0 n))"

definition nd_rx_count :: "env \<Rightarrow> u64 \<Rightarrow> unit user" where
  "nd_rx_count env rx =
     do {
       let n = nd_copy [] (bytes ''NET_DRIVER rx_count='');
       let n = nd_dec n rx;
       let n = (if length n < 64 then n @ [10] else n);
       uwrite_ptr env n;
       let n = nd_copy [] (bytes ''OK rx_count='');
       let n = nd_dec n rx;
       syscall env (CSend 0 n)
     }"

definition net_driver_start :: "env \<Rightarrow> unit user" where
  "net_driver_start env =
     do {
       syscall env (CDeviceInfo 1 128);
       uwrite_ptr env (bytes ''NET_DRIVER started=net_driver_service'' @ [10]);
       syscall env (CRecv 2 1)
     }"

definition net_driver_step :: "env \<Rightarrow> (u64 \<times> u64) option \<Rightarrow> (u64 \<times> u64) option user" where
  "net_driver_step env st =
     (case st of None \<Rightarrow> State_Monad.return None
      | Some (tx, rx) \<Rightarrow>
        do {
          r \<leftarrow> sys env (CRecv 0 64);
          if r_ret r \<le> 0 then State_Monad.return st
          else let cp = message r in
            if is_cmd cp ''DRV_STATUS'' then do { nd_status env tx rx; State_Monad.return st }
            else if is_cmd cp ''DRV_TX_TEST'' then
              if tx = - 1 \<or> rx = - 1 then do { syscall env (CSend 0 (bytes ''ERR too_large'')); State_Monad.return st }
              else do {
                uwrite_ptr env (bytes ''NET_DRIVER tx_test bytes=64'' @ [10]);
                syscall env (CSend 0 (bytes ''OK sent test_packet bytes=64''));
                State_Monad.return (Some (tx + 1, rx + 1))
              }
            else if is_cmd cp ''DRV_RX_COUNT'' then do { nd_rx_count env rx; State_Monad.return st }
            else if is_cmd cp ''DRV_FAULT'' then do { syscall env (Store 0x40000000 1); State_Monad.return None }
            else if is_cmd cp ''DRV_RESTART'' then
              do { syscall env (CSend 0 (bytes ''ERR unsupported'')); State_Monad.return st }
            else do { syscall env (CSend 0 (bytes ''ERR malformed'')); State_Monad.return st }
        })"

definition net_driver_body :: "nat \<Rightarrow> env \<Rightarrow> (u64 \<times> u64) option user" where
  "net_driver_body n env = do { net_driver_start env; serve n (net_driver_step env) (Some (0, 0)) }"

section \<open>Network service\<close>

definition ns_driver :: "env \<Rightarrow> string \<Rightarrow> reply user" where
  "ns_driver env cmd =
     do {
       s \<leftarrow> sys env (CSend 1 (bytes cmd));
       if r_ret s < 0 then State_Monad.return \<lparr>r_ret = - 1, r_buf = []\<rparr> else sys env (CRecv 1 64)
     }"

definition ns_manager :: "env \<Rightarrow> string \<Rightarrow> reply user" where
  "ns_manager env cmd =
     do {
       s \<leftarrow> sys env (CSend 2 (bytes cmd));
       if r_ret s < 0 then State_Monad.return \<lparr>r_ret = - 1, r_buf = []\<rparr> else sys env (CRecv 2 64)
     }"

definition ns_reply :: "env \<Rightarrow> u8 list \<Rightarrow> unit user" where
  "ns_reply env p = syscall env (CSend 0 p)"

definition ns_status :: "env \<Rightarrow> u64 \<Rightarrow> u64 \<Rightarrow> unit user" where
  "ns_status env tx rx =
     (let n = nd_copy [] (bytes ''OK net state=up driver=running tx='');
          n = nd_dec n tx;
          n = nd_copy n (bytes '' rx='');
          n = nd_dec n rx;
          n = nd_copy n (bytes '' mode=synthetic'')
      in ns_reply env n)"

definition ns_stats :: "env \<Rightarrow> u64 \<Rightarrow> u64 \<Rightarrow> unit user" where
  "ns_stats env tx rx =
     (let n = nd_copy [] (bytes ''OK tx='');
          n = nd_dec n tx;
          n = nd_copy n (bytes '' rx='');
          n = nd_dec n rx
      in ns_reply env n)"

definition ns_packet_events :: "env \<Rightarrow> u64 \<Rightarrow> u64 \<Rightarrow> unit user" where
  "ns_packet_events env tx rx =
     do {
       let n = nd_copy [] (bytes ''NET_TX bytes=64 tx='');
       let n = nd_dec n tx;
       ns_event env n;
       let n = nd_copy [] (bytes ''NET_RX rx='');
       let n = nd_dec n rx;
       ns_event env n
     }"

record net_state =
  ns_tx :: u64
  ns_rx :: u64
  ns_up :: bool

definition ns_probe :: "env \<Rightarrow> net_state \<Rightarrow> unit user \<Rightarrow> net_state user" where
  "ns_probe env st answer =
     do {
       (if \<not> ns_up st then ns_reply env (bytes ''ERR driver_down'')
       else do {
         dr \<leftarrow> ns_driver env ''DRV_STATUS'';
         if r_ret dr > 0 then answer else ns_reply env (bytes ''ERR driver_down'')
       });
       State_Monad.return st
     }"

definition ns_send_test :: "env \<Rightarrow> net_state \<Rightarrow> net_state user" where
  "ns_send_test env st =
     (let tx = ns_tx st; rx = ns_rx st in
      if \<not> ns_up st then do { ns_reply env (bytes ''ERR driver_down''); State_Monad.return st }
      else do {
        dr \<leftarrow> ns_driver env ''DRV_TX_TEST'';
        if r_ret dr > 0 then
          if tx = - 1 \<or> rx = - 1 then do { ns_reply env (bytes ''ERR too_large''); State_Monad.return st }
          else do {
            let tx = tx + 1;
            let rx = rx + 1;
            ns_packet_events env tx rx;
            ns_reply env (message dr);
            State_Monad.return (st\<lparr>ns_tx := tx, ns_rx := rx\<rparr>)
          }
        else do { ns_reply env (bytes ''ERR driver_down''); State_Monad.return st }
      })"

definition ns_rx_count :: "env \<Rightarrow> net_state \<Rightarrow> net_state user" where
  "ns_rx_count env st =
     do {
       (if \<not> ns_up st then ns_reply env (bytes ''ERR driver_down'')
       else do {
         dr \<leftarrow> ns_driver env ''DRV_RX_COUNT'';
         if r_ret dr > 0 then ns_reply env (message dr) else ns_reply env (bytes ''ERR driver_down'')
       });
       State_Monad.return st
     }"

definition ns_fault :: "env \<Rightarrow> net_state \<Rightarrow> net_state user" where
  "ns_fault env st =
     (if \<not> ns_up st then do { ns_reply env (bytes ''ERR driver_down''); State_Monad.return st }
      else do {
        mr \<leftarrow> ns_manager env ''NET_MGR_FAULT'';
        if r_ret mr > 0 then
          do {
            let st = (if has_prefix (message mr) ''OK'' then st\<lparr>ns_up := False\<rparr> else st);
            ns_reply env (message mr);
            State_Monad.return st
          }
        else do { ns_reply env (bytes ''ERR driver_down''); State_Monad.return st }
      })"

definition ns_restart :: "env \<Rightarrow> net_state \<Rightarrow> net_state user" where
  "ns_restart env st =
     do {
       mr \<leftarrow> ns_manager env ''NET_MGR_RESTART'';
       if r_ret mr > 0 then
         do {
           let st = (if has_prefix (message mr) ''OK'' then \<lparr>ns_tx = 0, ns_rx = 0, ns_up = True\<rparr> else st);
           ns_reply env (message mr);
           State_Monad.return st
         }
       else do { ns_reply env (bytes ''ERR driver_down''); State_Monad.return st }
     }"

definition net_service_step :: "env \<Rightarrow> net_state \<Rightarrow> net_state user" where
  "net_service_step env st =
     do {
       r \<leftarrow> sys env (CRecv 0 128);
       if r_ret r \<le> 0 then State_Monad.return st
       else let cp = message r in
         if is_cmd cp ''NET_STATUS'' then ns_probe env st (ns_status env (ns_tx st) (ns_rx st))
         else if is_cmd cp ''NET_STATS'' then ns_probe env st (ns_stats env (ns_tx st) (ns_rx st))
         else if is_cmd cp ''NET_SEND_TEST'' then ns_send_test env st
         else if is_cmd cp ''NET_RX_COUNT'' then ns_rx_count env st
         else if is_cmd cp ''NET_FAULT'' then ns_fault env st
         else if is_cmd cp ''NET_RESTART'' then ns_restart env st
         else do {
           uwrite_ptr env (bytes ''NET_DENIED reason=malformed'' @ [10]);
           ns_reply env (bytes ''ERR malformed'');
           State_Monad.return st
         }
     }"

definition net_service_body :: "nat \<Rightarrow> env \<Rightarrow> net_state user" where
  "net_service_body n env =
     do {
       uwrite_ptr env (bytes ''NET_SERVICE state=up mode=synthetic'' @ [10]);
       serve n (net_service_step env) \<lparr>ns_tx = 0, ns_rx = 0, ns_up = True\<rparr>
     }"

section \<open>One reply per request\<close>

lemma nd_bounds:
  "length dst \<le> 64 \<Longrightarrow> length (nd_copy dst src) \<le> 64" "length dst \<le> 64 \<Longrightarrow> length (nd_copy dst src) \<le> 128"
  "length dst \<le> 64 \<Longrightarrow> length (nd_dec dst v) \<le> 64" "length dst \<le> 64 \<Longrightarrow> length (nd_dec dst v) \<le> 128"
  by (auto simp: nd_dec_def nd_copy_def copy_upto_eq min_def)

lemma sp_ns_reply: "length a \<le> 128 \<Longrightarrow> speaks (\<lambda>_. True) (Suc 0) (ns_reply env a)"
  unfolding ns_reply_def by (rule sp_reply)

lemma sp_nd_replies:
  "speaks (\<lambda>_. True) (Suc 0) (nd_status env tx rx)" "speaks (\<lambda>_. True) (Suc 0) (nd_rx_count env rx)"
  "speaks (\<lambda>_. True) (Suc 0) (ns_status env tx rx)" "speaks (\<lambda>_. True) (Suc 0) (ns_stats env tx rx)"
  unfolding nd_status_def nd_rx_count_def ns_status_def ns_stats_def Let_def
  by (intro sp_rules sp_ns_reply nd_bounds; simp)+

lemma sp_ns_packet_events: "speaks (\<lambda>_. True) 0 (ns_packet_events env tx rx)"
  unfolding ns_packet_events_def Let_def ns_event_def by (intro sp_rules sp_uwrite)

text \<open>An exchange with a peer hands back a message of 64 bytes at most.\<close>

lemma sp_bind_peer:
  assumes "\<And>r. length (r_buf r) \<le> 64 \<Longrightarrow> speaks J n (f r)"
  shows "speaks J n (ns_driver env cmd \<bind> f)" "speaks J n (ns_manager env cmd \<bind> f)"
proof -
  have "speaks (\<lambda>r. length (r_buf r) \<le> 64) 0 (ns_driver env cmd)" "speaks (\<lambda>r. length (r_buf r) \<le> 64) 0 (ns_manager env cmd)"
    unfolding ns_driver_def ns_manager_def
    by (intro sp_rules sp_weaken [OF sp_sys]; simp)+
  from sp_bind [OF this(1), of J n f] sp_bind [OF this(2), of J n f] assms
  show "speaks J n (ns_driver env cmd \<bind> f)" "speaks J n (ns_manager env cmd \<bind> f)" by simp_all
qed

lemma sp_ns_message: "length (r_buf r) \<le> 64 \<Longrightarrow> speaks (\<lambda>_. True) (Suc 0) (ns_reply env (message r))"
  using message_bound [of r 64 128] by (simp add: sp_ns_reply)

lemmas sp_ns_bind = sp_bind_peer sp_ns_message sp_bind1 [OF sp_ns_message] sp_ns_reply sp_bind1 [OF sp_ns_reply]
  sp_bind0 [OF sp_ns_packet_events]

lemma sp_ns_probe:
  assumes "speaks (\<lambda>_. True) (Suc 0) answer"
  shows "speaks (\<lambda>_. True) (Suc 0) (ns_probe env st answer)"
  unfolding ns_probe_def by (rule sp_bind1) (intro sp_rules sp_ns_bind assms; simp)+

lemma sp_net:
  "speaks (\<lambda>_. True) (Suc 0) (ns_rx_count env st)" "speaks (\<lambda>_. True) (Suc 0) (ns_send_test env st)"
  "speaks (\<lambda>_. True) (Suc 0) (ns_fault env st)" "speaks (\<lambda>_. True) (Suc 0) (ns_restart env st)"
  unfolding ns_send_test_def ns_rx_count_def ns_fault_def ns_restart_def Let_def
  by (rule sp_bind1; intro sp_rules sp_ns_bind; simp) (intro sp_rules sp_ns_bind; simp)+

abbreviation net_protocol :: "u8 list \<Rightarrow> u8 list \<Rightarrow> bool" where
  "net_protocol \<equiv> protocol [''NET_STATUS'', ''NET_STATS'', ''NET_SEND_TEST'', ''NET_RX_COUNT'', ''NET_FAULT'', ''NET_RESTART''] []
     ''ERR malformed''"

interpretation net: request_server net_service_step "\<lambda>_. True" net_protocol "\<lambda>_. False"
proof
  show "does (net_service_step env st) (round_ok (\<lambda>_. True) net_protocol (\<lambda>_. False))" for env st
    unfolding net_service_step_def Let_def
  proof (rule round_of_protocol, goal_cases)
    case (1 r)
    show ?case by (intro sp_rules sp_ns_probe sp_net sp_nd_replies sp_bind1 [OF sp_ns_reply]) simp_all
  next
    case (2 r)
    then show ?case
      by (simp add: commands_def ns_reply_def) (intro tells_after [OF sp_uwrite] tells_then [OF tells_reply]; simp)
  qed simp
qed simp

text \<open>A driver lives while its state is there.\<close>

abbreviation running :: "'a option \<Rightarrow> bool" where
  "running st \<equiv> st \<noteq> None"

lemma dies: "fatal q \<Longrightarrow> closes running ok fatal q (do { syscall env (Store a b); State_Monad.return None })"
  by (intro closes_dead sp_rules) simp_all

lemma replies_live:
  "ok q a \<Longrightarrow> length a \<le> 128 \<Longrightarrow> closes running ok fatal q (do { syscall env (CSend 0 a); State_Monad.return (Some x) })"
  by (rule closes_tells [OF tells_then [OF tells_reply]]) simp_all

text \<open>The test mode command of each driver is the one request it does not survive; every other
  request gets the reply of its command, or the refusal.\<close>

abbreviation block_driver_protocol :: "u8 list \<Rightarrow> u8 list \<Rightarrow> bool" where
  "block_driver_protocol q a \<equiv> q \<noteq> bytes ''FAULT'' \<and> protocol [''STATUS''] [] ''ERR unknown_driver_command'' q a"

abbreviation net_driver_protocol :: "u8 list \<Rightarrow> u8 list \<Rightarrow> bool" where
  "net_driver_protocol q a \<equiv> q \<noteq> bytes ''DRV_FAULT'' \<and>
     (if q = bytes ''DRV_RESTART'' then a = bytes ''ERR unsupported''
      else protocol [''DRV_STATUS'', ''DRV_TX_TEST'', ''DRV_RX_COUNT''] [] ''ERR malformed'' q a)"

interpretation block_driver: request_server block_driver_step running block_driver_protocol "\<lambda>q. q = bytes ''FAULT''"
proof
  show "does (block_driver_step env st) (round_ok running block_driver_protocol (\<lambda>q. q = bytes ''FAULT''))"
    if live: "running st" for env st
  proof -
    obtain u where st: "st = Some u" using live by blast
    show ?thesis unfolding st block_driver_step_def Let_def option.case
      by (intro round_of_body closes_if dies replies_live) (simp_all add: protocol_def commands_def)
  qed
qed (auto simp: block_driver_step_def split: option.split)

interpretation net_driver: request_server net_driver_step running net_driver_protocol "\<lambda>q. q = bytes ''DRV_FAULT''"
proof
  show "does (net_driver_step env st) (round_ok running net_driver_protocol (\<lambda>q. q = bytes ''DRV_FAULT''))"
    if live: "running st" for env st
  proof -
    obtain tx rx where st: "st = Some (tx, rx)" using live by auto
    show ?thesis unfolding st net_driver_step_def Let_def option.case prod.case
      by (intro round_of_body closes_if dies replies_live closes_live [OF sp_bind1 [OF sp_nd_replies(1)]]
        closes_live [OF sp_bind1 [OF sp_nd_replies(2)]] closes_live [OF sp_bind0 [OF sp_uwrite]] sp_bind1 [OF sp_reply] sp_return)
        (simp_all add: protocol_def commands_def)
  qed
qed (auto simp: net_driver_step_def split: option.split)

end
