(* ===== verification/Driver_Manager.thy ===== *)
theory Driver_Manager
  imports User_Code
begin

text \<open>
  The driver manager of \<open>os_boot.rs\<close>: it starts the block driver, tracks the state of both drivers
  (0 stopped, 1 running, 2 faulted), observes the death of a driver through the bounded liveness
  probe on its interrupt route, and asks the kernel for restarts.
\<close>

record manager_state =
  dm_st :: u8
  dm_net :: u8

definition dm_reply :: "env \<Rightarrow> u8 list \<Rightarrow> unit user" where
  "dm_reply env p = syscall env (CSend 0 p)"

abbreviation dm_line :: "env \<Rightarrow> string \<Rightarrow> unit user" where
  "dm_line env s \<equiv> uwrite_ptr env (bytes s @ [10])"

definition dm_list :: "env \<Rightarrow> u8 \<Rightarrow> u8 \<Rightarrow> unit user" where
  "dm_list env st net_st =
     do {
       (if st = 1 then dm_line env ''driver name=block_driver_service state=running kind=block_skeleton''
        else if st = 2 then dm_line env ''driver name=block_driver_service state=faulted kind=block_skeleton''
        else dm_line env ''driver name=block_driver_service state=stopped kind=block_skeleton'');
       (if net_st = 1 then dm_line env ''driver name=net_driver_service state=running kind=network_synthetic''
        else if net_st = 2 then dm_line env ''driver name=net_driver_service state=faulted kind=network_synthetic''
        else dm_line env ''driver name=net_driver_service state=stopped kind=network_synthetic'');
       (if st = 1 then dm_reply env (bytes ''block_driver_service running'')
        else if st = 2 then dm_reply env (bytes ''block_driver_service faulted'')
        else dm_reply env (bytes ''block_driver_service stopped''))
     }"

definition dm_info :: "env \<Rightarrow> u8 \<Rightarrow> unit user" where
  "dm_info env st =
     (if st = 1 then
        do {
          s \<leftarrow> sys env (CSend 1 (bytes ''STATUS''));
          if r_ret s < 0 then dm_reply env (bytes ''kind=block_skeleton state=stopped'')
          else do {
            sr \<leftarrow> sys env (CRecv 1 64);
            if r_ret sr > 0 then dm_reply env (message sr)
            else dm_reply env (bytes ''kind=block_skeleton state=stopped'')
          }
        }
      else if st = 2 then dm_reply env (bytes ''kind=block_skeleton state=faulted'')
      else dm_reply env (bytes ''kind=block_skeleton state=stopped''))"

text \<open>The liveness probe: up to \<open>room\<close> times yield and raise the synthetic interrupt; a refused
  raise means that the driver is dead.\<close>

primrec dm_probe :: "nat \<Rightarrow> env \<Rightarrow> nat \<Rightarrow> bool user" where
  "dm_probe 0 env slot = State_Monad.return False"
| "dm_probe (Suc room) env slot =
     do {
       syscall env CYield;
       r \<leftarrow> sys env (CIrqRaise slot);
       if r_ret r < 0 then State_Monad.return True else dm_probe room env slot
     }"

definition dm_net_fault :: "env \<Rightarrow> manager_state \<Rightarrow> manager_state user" where
  "dm_net_fault env m =
     (let not_running = do { dm_reply env (bytes ''ERR driver_down''); State_Monad.return m } in
      if dm_net m \<noteq> 1 then not_running
      else do {
        s \<leftarrow> sys env (CSend 5 (bytes ''DRV_FAULT''));
        if r_ret s < 0 then not_running
        else do {
          dead \<leftarrow> dm_probe 16 env 6;
          if dead then
            do {
              dm_line env ''DRIVER_MANAGER observed=fault driver=net_driver_service'';
              dm_line env ''NET_DRIVER state=faulted'';
              dm_reply env (bytes ''OK network fault contained'');
              State_Monad.return (m\<lparr>dm_net := 2\<rparr>)
            }
          else do { dm_reply env (bytes ''ERR unsupported''); State_Monad.return m }
        }
      })"

definition dm_net_restart :: "env \<Rightarrow> manager_state \<Rightarrow> manager_state user" where
  "dm_net_restart env m =
     do {
       r \<leftarrow> sys env (CTaskRestart 14);
       if r_ret r < 0 then do { dm_reply env (bytes ''ERR unsupported''); State_Monad.return m }
       else do {
         dm_line env ''NET_DRIVER restarted=net_driver_service'';
         syscall env (CIrqRaise 6);
         dm_reply env (bytes ''OK restarted'');
         State_Monad.return (m\<lparr>dm_net := 1\<rparr>)
       }
     }"

definition dm_restart :: "env \<Rightarrow> manager_state \<Rightarrow> manager_state user" where
  "dm_restart env m =
     do {
       r \<leftarrow> sys env (CTaskRestart 13);
       if r_ret r < 0 then do { dm_reply env (bytes ''error: cannot restart''); State_Monad.return m }
       else do {
         dm_line env ''DRIVER restarted=block_driver_service'';
         syscall env (CIrqRaise 4);
         dm_reply env (bytes ''restarted'');
         State_Monad.return (m\<lparr>dm_st := 1\<rparr>)
       }
     }"

definition dm_fault :: "env \<Rightarrow> manager_state \<Rightarrow> manager_state user" where
  "dm_fault env m =
     (let not_running = do { dm_reply env (bytes ''driver not running''); State_Monad.return m } in
      if dm_st m \<noteq> 1 then not_running
      else do {
        s \<leftarrow> sys env (CSend 1 (bytes ''FAULT''));
        if r_ret s < 0 then not_running
        else do {
          dead \<leftarrow> dm_probe 16 env 4;
          if dead then
            do {
              dm_line env ''DRIVER_MANAGER observed=fault driver=block_driver_service'';
              dm_reply env (bytes ''faulted (contained)'');
              State_Monad.return (m\<lparr>dm_st := 2\<rparr>)
            }
          else do { dm_reply env (bytes ''fault requested''); State_Monad.return m }
        }
      })"

definition manager_start :: "env \<Rightarrow> manager_state user" where
  "manager_start env =
     do {
       r \<leftarrow> sys env (CTaskStart 12);
       st \<leftarrow> (if r_ret r \<ge> 0 then
                do {
                  dm_line env ''DRIVER started=block_driver_service'';
                  syscall env (CIrqRaise 4);
                  State_Monad.return 1
                }
              else do { dm_line env ''DRIVER start_failed=block_driver_service''; State_Monad.return 0 });
       r \<leftarrow> sys env (CIrqRaise 6);
       net_st \<leftarrow> (if r_ret r \<ge> 0 then
                    do { dm_line env ''DRIVER started=net_driver_service''; State_Monad.return 1 }
                  else State_Monad.return 0);
       State_Monad.return \<lparr>dm_st = st, dm_net = net_st\<rparr>
     }"

definition manager_step :: "env \<Rightarrow> manager_state \<Rightarrow> manager_state user" where
  "manager_step env m =
     do {
       r \<leftarrow> sys env (CRecv 0 64);
       if r_ret r \<le> 0 then State_Monad.return m
       else let bp = message r in
         if is_cmd bp ''NET_MGR_FAULT'' then dm_net_fault env m
         else if is_cmd bp ''NET_MGR_RESTART'' then dm_net_restart env m
         else if is_cmd bp ''drivers'' then do { dm_list env (dm_st m) (dm_net m); State_Monad.return m }
         else if is_cmd bp ''driver info block'' then do { dm_info env (dm_st m); State_Monad.return m }
         else if is_cmd bp ''driver restart block'' then dm_restart env m
         else if is_cmd bp ''driver fault block'' then dm_fault env m
         else do { dm_reply env (bytes ''unknown driver command''); State_Monad.return m }
     }"

definition driver_manager_body :: "nat \<Rightarrow> env \<Rightarrow> manager_state user" where
  "driver_manager_body n env = do { m \<leftarrow> manager_start env; serve n (manager_step env) m }"

section \<open>One reply per request\<close>

lemma sp_dm_reply: "length a \<le> 128 \<Longrightarrow> speaks (\<lambda>_. True) (Suc 0) (dm_reply env a)"
  unfolding dm_reply_def by (rule sp_reply)

lemma sp_dm_list: "speaks (\<lambda>_. True) (Suc 0) (dm_list env st net_st)"
proof -
  have line: "speaks (\<lambda>_. True) 0 (if a then dm_line env s else if b then dm_line env t else dm_line env u)" for a b s t u
    by (intro sp_if sp_uwrite)
  show ?thesis unfolding dm_list_def by (intro sp_bind0 [OF line] sp_if sp_dm_reply) simp_all
qed

lemma sp_dm_info: "speaks (\<lambda>_. True) (Suc 0) (dm_info env st)"
  unfolding dm_info_def by (intro sp_rules sp_dm_reply; use message_bound in fastforce)

lemma sp_dm_probe: "speaks (\<lambda>_. True) 0 (dm_probe room env slot)"
proof (induction room)
  case 0
  then show ?case by (simp add: sp_return)
next
  case (Suc room)
  show ?case unfolding dm_probe.simps by (intro sp_rules Suc.IH) simp_all
qed

lemma sp_manager:
  "speaks (\<lambda>_. True) (Suc 0) (dm_net_fault env m)" "speaks (\<lambda>_. True) (Suc 0) (dm_net_restart env m)"
  "speaks (\<lambda>_. True) (Suc 0) (dm_restart env m)" "speaks (\<lambda>_. True) (Suc 0) (dm_fault env m)"
  unfolding dm_net_fault_def dm_net_restart_def dm_restart_def dm_fault_def Let_def
  by (intro sp_rules sp_bind1 [OF sp_dm_reply] sp_bind0 [OF sp_dm_probe]; simp)+

abbreviation manager_protocol :: "u8 list \<Rightarrow> u8 list \<Rightarrow> bool" where
  "manager_protocol \<equiv> protocol [''NET_MGR_FAULT'', ''NET_MGR_RESTART'', ''drivers'', ''driver info block'', ''driver restart block'',
     ''driver fault block''] [] ''unknown driver command''"

interpretation manager: request_server manager_step "\<lambda>_. True" manager_protocol "\<lambda>_. False"
proof
  show "does (manager_step env m) (round_ok (\<lambda>_. True) manager_protocol (\<lambda>_. False))" for env m
    unfolding manager_step_def Let_def
  proof (rule round_of_protocol, goal_cases)
    case (1 r)
    show ?case
      by (intro sp_rules sp_manager sp_bind1 [OF sp_dm_reply] sp_bind1 [OF sp_dm_list] sp_bind1 [OF sp_dm_info]) simp_all
  next
    case (2 r)
    then show ?case by (simp add: commands_def dm_reply_def) (rule tells_then [OF tells_reply], simp)
  qed simp
qed simp

end
