(* ===== verification/Shell_Services.thy ===== *)
theory Shell_Services
  imports User_Code
begin

text \<open>
  The remaining user tasks of \<open>os_boot.rs\<close>: init, supervisor, logger, the console with its line
  editor, the shell, and the built-in applications.
\<close>

section \<open>Init, supervisor, logger and the applications\<close>

text \<open>A task that has ended keeps yielding: \<open>n\<close> rounds of the final loop.\<close>

definition yield_loop :: "nat \<Rightarrow> env \<Rightarrow> unit user" where
  "yield_loop n env = serve n (\<lambda>_. syscall env CYield) ()"

definition task_starts :: "env \<Rightarrow> u64 list \<Rightarrow> unit user" where
  "task_starts env is = foldr (\<lambda>i m. do { syscall env (CTaskStart i); m }) is skip"

definition init_body :: "nat \<Rightarrow> env \<Rightarrow> unit user" where
  "init_body n env =
     do {
       task_starts env [0, 1, 2, 3];
       syscall env (CTaskStart 5);
       syscall env (CTaskStart 9);
       syscall env (CTaskStart 10);
       syscall env (CTaskStart 11);
       syscall env (CTaskStart 13);
       syscall env (CTaskStart 14);
       syscall env CExit;
       yield_loop n env
     }"

text \<open>The register a0 of the acknowledgement is what the receive left there.\<close>

definition supervisor_body :: "nat \<Rightarrow> env \<Rightarrow> unit user" where
  "supervisor_body n env =
     serve n (\<lambda>_. do { r \<leftarrow> sys env (CRecv 0 64); syscall env (CFaultAck (r_ret r) 2) }) ()"

definition logger_body :: "nat \<Rightarrow> env \<Rightarrow> unit user" where
  "logger_body n env = serve n (\<lambda>_. syscall env (CRecv 0 64)) ()"

text \<open>The two demonstration tasks end in a loop without calls.\<close>

definition faulty_body :: "env \<Rightarrow> u8 list \<Rightarrow> unit user" where
  "faulty_body env junk = syscall env (CSend 0 (take 4 junk))"

definition fault_demo_body :: "env \<Rightarrow> unit user" where
  "fault_demo_body env =
     do {
       syscall env (CMmioRead 0 0 4);
       syscall env (CDmaRead 0 0 1);
       syscall env (CConWrite (bytes ''hello from app: hello'' @ [10]))
     }"

definition hello_body :: "nat \<Rightarrow> env \<Rightarrow> unit user" where
  "hello_body n env =
     do {
       uwrite_ptr env (bytes ''hello from app: hello'' @ [10]);
       syscall env CExit;
       yield_loop n env
     }"

definition counter_round :: "env \<Rightarrow> u8 \<Rightarrow> unit user" where
  "counter_round env i =
     do {
       uput env ''APP counter progress='';
       uwrite_ptr env [48 + i, 10];
       syscall env CYield
     }"

definition counter_body :: "nat \<Rightarrow> env \<Rightarrow> unit user" where
  "counter_body n env =
     do {
       counter_round env 1;
       counter_round env 2;
       counter_round env 3;
       uwrite_ptr env (bytes ''APP counter done'' @ [10]);
       syscall env CExit;
       yield_loop n env
     }"

section \<open>Console\<close>

text \<open>The line being edited is the list of the bytes in use of the 64-byte buffer.\<close>

definition console_step :: "env \<Rightarrow> u8 list \<Rightarrow> u8 list user" where
  "console_step env line =
     do {
       n \<leftarrow> sys env (CConRead 1);
       if r_ret n \<le> 0 then do { syscall env CYield; State_Monad.return line }
       else let b = hd (r_buf n) in
         if b = 13 \<or> b = 10 then
           do {
             uwrite_ptr env [10];
             syscall env (CSend 0 line);
             State_Monad.return []
           }
         else if b = 0x7f \<or> b = 0x08 then
           if length line > 0 then do { uwrite_ptr env [8, 32, 8]; State_Monad.return (butlast line) }
           else State_Monad.return line
         else if length line < 63 \<and> b \<ge> 0x20 \<and> b < 0x7f then
           do { uwrite_ptr env [b]; State_Monad.return (line @ [b]) }
         else State_Monad.return line
     }"

definition console_body :: "nat \<Rightarrow> env \<Rightarrow> u8 list user" where
  "console_body n env = serve n (console_step env) []"

section \<open>Shell\<close>

text \<open>Print a bounded reply and a newline, or the error text.\<close>

definition shell_show :: "env \<Rightarrow> reply \<Rightarrow> unit user" where
  "shell_show env r =
     (if r_ret r > 0 then do { uwrite_ptr env (message r); uwrite_ptr env [10] }
      else uwrite_ptr env (bytes ''error'' @ [10]))"

text \<open>Send one request on a capability slot and show the reply: the common tail of the shell's
  forwarding functions.\<close>

definition shell_exchange :: "env \<Rightarrow> nat \<Rightarrow> u8 list \<Rightarrow> nat \<Rightarrow> unit user" where
  "shell_exchange env slot q cap =
     do {
       s \<leftarrow> sys env (CSend slot q);
       if r_ret s < 0 then uwrite_ptr env (bytes ''error'' @ [10])
       else do { r \<leftarrow> sys env (CRecv slot cap); shell_show env r }
     }"

definition shell_app_forward :: "env \<Rightarrow> u8 list \<Rightarrow> unit user" where
  "shell_app_forward env bp = shell_exchange env 4 bp 64"

definition shell_app_proto :: "env \<Rightarrow> u8 list \<Rightarrow> nat \<Rightarrow> string \<Rightarrow> unit user" where
  "shell_app_proto env bp tail_at proto = shell_exchange env 4 (copy_upto 63 (bytes proto) (drop tail_at bp)) 64"

definition shell_drv_forward :: "env \<Rightarrow> u8 list \<Rightarrow> unit user" where
  "shell_drv_forward env bp = shell_exchange env 7 bp 64"

definition shell_net_forward :: "env \<Rightarrow> u8 list \<Rightarrow> unit user" where
  "shell_net_forward env p = shell_exchange env 8 p 64"

definition shell_fs_cmd :: "env \<Rightarrow> u8 list \<Rightarrow> nat \<Rightarrow> bool \<Rightarrow> unit user" where
  "shell_fs_cmd env bp tail_at cat =
     (let q = (if cat then bytes ''CAT '' else bytes ''LS '');
          q = (if tail_at \<ge> length bp then q @ bytes ''/'' else copy_upto 63 q (drop tail_at bp))
      in shell_exchange env 5 q 128)"

definition shell_stor_cmd :: "env \<Rightarrow> u8 list \<Rightarrow> nat \<Rightarrow> unit user" where
  "shell_stor_cmd env bp tail_at =
     (let q = (if tail_at \<ge> length bp then bytes ''INFO''
               else copy_upto 63 (bytes ''READ block='') (drop tail_at bp))
      in shell_exchange env 6 q 64)"

definition shell_info :: "env \<Rightarrow> u64 \<Rightarrow> unit user" where
  "shell_info env kind =
     do {
       n \<leftarrow> sys env (CInfo kind 640 0);
       if r_ret n > 0 then uwrite_ptr env (message n) else uwrite_ptr env (bytes ''error'' @ [10])
     }"

abbreviation shell_err :: "env \<Rightarrow> unit user" where
  "shell_err env \<equiv> uwrite_ptr env (bytes ''error'' @ [10])"

definition shell_task :: "env \<Rightarrow> (u64 \<Rightarrow> call) \<Rightarrow> u64 \<Rightarrow> unit user" where
  "shell_task env c idx =
     (if idx = - 1 then shell_err env
      else do {
        r \<leftarrow> sys env (c idx);
        if r_ret r < 0 then shell_err env else uwrite_ptr env (bytes ''ok'' @ [10])
      })"

definition help_text :: "u8 list" where
  "help_text =
     bytes ''commands: help version tasks faults ipc caps memory uptime events'' @ [10]
     @ bytes ''          run demo | kill <idx> | restart <idx> | clear | shutdown'' @ [10]
     @ bytes ''          drivers | driver <info|restart|fault> block'' @ [10]
     @ bytes ''          bin | app <load|unload|state> <name> | run loaded <name>'' @ [10]
     @ bytes ''          net <status|stats|send-test|rx-count|fault|restart>'' @ [10]"

definition shell_exec :: "env \<Rightarrow> u8 list \<Rightarrow> unit user" where
  "shell_exec env bp =
     (if is_cmd bp ''help'' then uwrite_ptr env help_text
      else if is_cmd bp ''version'' then
        uwrite_ptr env (bytes ''AxiomRT v1.7-minimal-network-service RISC-V 64 (QEMU eval)'' @ [10])
      else if is_cmd bp ''tasks'' then shell_info env 0
      else if is_cmd bp ''faults'' then shell_info env 1
      else if is_cmd bp ''ipc'' then shell_info env 2
      else if is_cmd bp ''caps'' then shell_info env 3
      else if is_cmd bp ''memory'' then shell_info env 4
      else if is_cmd bp ''uptime'' then shell_info env 5
      else if is_cmd bp ''events'' then shell_info env 6
      else if is_cmd bp ''run demo'' then
        do {
          uwrite_ptr env (bytes ''demo: starting faulty_task (watch containment + recovery)'' @ [10]);
          r \<leftarrow> sys env (CTaskStart 4);
          if r_ret r < 0 then shell_err env else skip
        }
      else if is_cmd bp ''bin'' then shell_fs_cmd env (bytes ''/bin'') 0 False
      else if has_prefix bp ''app load '' then shell_app_proto env bp (length ''app load '') ''APP_LOAD ''
      else if has_prefix bp ''app unload '' then shell_app_proto env bp (length ''app unload '') ''APP_UNLOAD ''
      else if has_prefix bp ''app state '' then shell_app_proto env bp (length ''app state '') ''APP_STATE ''
      else if has_prefix bp ''run loaded '' then shell_app_proto env bp (length ''run loaded '') ''APP_RUN ''
      else if is_cmd bp ''net status'' then shell_net_forward env (bytes ''NET_STATUS'')
      else if is_cmd bp ''net stats'' then shell_net_forward env (bytes ''NET_STATS'')
      else if is_cmd bp ''net send-test'' then shell_net_forward env (bytes ''NET_SEND_TEST'')
      else if is_cmd bp ''net rx-count'' then shell_net_forward env (bytes ''NET_RX_COUNT'')
      else if is_cmd bp ''net fault'' then shell_net_forward env (bytes ''NET_FAULT'')
      else if is_cmd bp ''net restart'' then shell_net_forward env (bytes ''NET_RESTART'')
      else if has_prefix bp ''net '' then shell_net_forward env bp
      else if is_cmd bp ''drivers'' \<or> has_prefix bp ''driver '' then shell_drv_forward env bp
      else if is_cmd bp ''storage info'' then shell_stor_cmd env bp (length bp)
      else if has_prefix bp ''storage read '' then shell_stor_cmd env bp (length ''storage read '')
      else if is_cmd bp ''ls'' then shell_fs_cmd env bp (length bp) False
      else if has_prefix bp ''ls '' then shell_fs_cmd env bp (length ''ls '') False
      else if has_prefix bp ''cat '' then shell_fs_cmd env bp (length ''cat '') True
      else if is_cmd bp ''apps'' \<or> has_prefix bp ''app info '' \<or> has_prefix bp ''run '' then shell_app_forward env bp
      else if has_prefix bp ''kill '' then shell_task env CTaskKill (parse_dec bp (length ''kill ''))
      else if has_prefix bp ''restart '' then shell_task env CTaskRestart (parse_dec bp (length ''restart ''))
      else if is_cmd bp ''clear'' then uwrite_ptr env (27 # bytes ''[2J'' @ 27 # bytes ''[H'')
      else if is_cmd bp ''shutdown'' then
        do { uwrite_ptr env (bytes ''shutting down'' @ [10]); syscall env CShutdown }
      else uwrite_ptr env (bytes ''unknown command (try: help)'' @ [10]))"

definition shell_step :: "env \<Rightarrow> unit \<Rightarrow> unit user" where
  "shell_step env _ =
     do {
       uput env ''axiom> '';
       r \<leftarrow> sys env (CRecv 0 64);
       if r_ret r \<le> 0 then skip else shell_exec env (message r)
     }"

definition shell_body :: "nat \<Rightarrow> env \<Rightarrow> unit user" where
  "shell_body n env =
     do {
       uwrite_ptr env (bytes ''AxiomRT shell ready (evaluation stage, no certification claim)'' @ [10]);
       serve n (shell_step env) ()
     }"

end
