(* ===== verification/Service_System.thy ===== *)
theory Service_System
  imports Os_Boot App_Loader File_Services Driver_Services Driver_Manager Shell_Services
begin

text \<open>
  The user tasks as a system: which program runs in which task slot, and what their calls need
  against the capabilities of the boot table.
\<close>

section \<open>Calls and the kernel's checks\<close>

text \<open>The number in register a7 and, for the calls that name a capability slot, register a0. The store
  of the drivers' test mode is no call; no call has the number 0.\<close>

fun call_num :: "call \<Rightarrow> u64" where
  "call_num CYield = SYS_YIELD"
| "call_num CExit = SYS_EXIT"
| "call_num (CSend _ _) = SYS_SEND"
| "call_num (CRecv _ _) = SYS_RECV"
| "call_num (CFaultAck _ _) = SYS_FAULT_ACK"
| "call_num (CTaskStart _) = SYS_TASK_START"
| "call_num (CTaskKill _) = SYS_TASK_KILL"
| "call_num (CTaskRestart _) = SYS_TASK_RESTART"
| "call_num CShutdown = SYS_SHUTDOWN"
| "call_num (CConWrite _) = SYS_CON_WRITE"
| "call_num (CConRead _) = SYS_CON_READ"
| "call_num (CInfo _ _ _) = SYS_INFO"
| "call_num (CDeviceInfo _ _) = SYS_DEVICE_INFO"
| "call_num (CMmioRead _ _ _) = SYS_MMIO_READ"
| "call_num (CMmioWrite _ _ _ _) = SYS_MMIO_WRITE"
| "call_num (CDmaRead _ _ _) = SYS_DMA_READ"
| "call_num (CDmaWrite _ _ _ _) = SYS_DMA_WRITE"
| "call_num (CIrqRaise _) = SYS_IRQ_RAISE"
| "call_num (Store _ _) = 0"

fun call_slot :: "call \<Rightarrow> nat" where
  "call_slot (CSend slot _) = slot"
| "call_slot (CRecv slot _) = slot"
| "call_slot (CDeviceInfo slot _) = slot"
| "call_slot (CMmioRead slot _ _) = slot"
| "call_slot (CMmioWrite slot _ _ _) = slot"
| "call_slot (CDmaRead slot _ _) = slot"
| "call_slot (CDmaWrite slot _ _ _) = slot"
| "call_slot (CIrqRaise slot) = slot"
| "call_slot _ = 0"

text \<open>The size limits of the handlers.\<close>

fun call_fits :: "call \<Rightarrow> bool" where
  "call_fits (CSend _ bs) \<longleftrightarrow> length bs \<le> IPC_MSG_MAX"
| "call_fits (CRecv _ cap) \<longleftrightarrow> cap \<le> IPC_MSG_MAX"
| "call_fits (CConWrite bs) \<longleftrightarrow> length bs \<le> CON_WRITE_MAX"
| "call_fits (CConRead cap) \<longleftrightarrow> cap \<le> IPC_MSG_MAX"
| "call_fits (CInfo _ cap _) \<longleftrightarrow> cap \<le> INFO_MAX"
| "call_fits (CDeviceInfo _ cap) \<longleftrightarrow> cap \<le> INFO_MAX"
| "call_fits _ \<longleftrightarrow> True"

definition granted :: "nat \<Rightarrow> call \<Rightarrow> bool" where
  "granted i c \<longleftrightarrow> need_met (needed (call_num c)) (padded (slot_grant i)) (call_slot c)"

section \<open>Programs\<close>

definition task_program :: "nat \<Rightarrow> nat \<Rightarrow> env \<Rightarrow> u8 list \<Rightarrow> unit user" where
  "task_program i n env junk =
     (if i = 0 then init_body n env
      else if i = 1 then supervisor_body n env
      else if i = 2 then logger_body n env
      else if i = 3 then do { _ \<leftarrow> console_body n env; skip }
      else if i = 4 then shell_body n env
      else if i = 5 then faulty_body env junk
      else if i = 6 then do { _ \<leftarrow> app_loader_body n env; skip }
      else if i = 7 then hello_body n env
      else if i = 8 then fault_demo_body env
      else if i = 9 then counter_body n env
      else if i = 10 then fs_body n env
      else if i = 11 then storage_body n env
      else if i = 12 then do { _ \<leftarrow> driver_manager_body n env; skip }
      else if i = 13 then do { _ \<leftarrow> block_driver_body n env; skip }
      else if i = 14 then do { _ \<leftarrow> net_driver_body n env; skip }
      else if i = 15 then do { _ \<leftarrow> net_service_body n env; skip }
      else skip)"

text \<open>The calls that are made in order to be refused: the send of the faulty task, the probes of
  \<open>fault_demo\<close> and the register write of the block driver.\<close>

definition probes :: "nat \<Rightarrow> u64 list" where
  "probes i = (if i = 5 then [SYS_SEND]
               else if i = 8 then [SYS_MMIO_READ, SYS_DMA_READ, SYS_CON_WRITE]
               else if i = 13 then [SYS_MMIO_WRITE] else [])"

text \<open>What each task calls: the number and the capability slot.\<close>

definition keys :: "nat \<Rightarrow> (u64 \<times> nat) list" where
  "keys i =
     (let con = (SYS_CON_WRITE, 0); chan = (\<lambda>s. [(SYS_SEND, s), (SYS_RECV, s)]) in
      if i = 0 then [(SYS_TASK_START, 0), (SYS_EXIT, 0), (SYS_YIELD, 0)]
      else if i = 1 then [(SYS_RECV, 0), (SYS_FAULT_ACK, 0)]
      else if i = 2 then [(SYS_RECV, 0)]
      else if i = 3 then [(SYS_SEND, 0), (SYS_CON_READ, 0), con, (SYS_YIELD, 0)]
      else if i = 4 then [(SYS_RECV, 0), con, (SYS_INFO, 0), (SYS_TASK_START, 0), (SYS_TASK_KILL, 0), (SYS_TASK_RESTART, 0),
        (SYS_SHUTDOWN, 0)] @ chan 4 @ chan 5 @ chan 6 @ chan 7 @ chan 8
      else if i = 5 then [(SYS_SEND, 0)]
      else if i = 6 then chan 0 @ chan 2 @ [(SYS_TASK_START, 0), con, (SYS_INFO, 0)]
      else if i = 7 \<or> i = 9 then [con, (SYS_EXIT, 0), (SYS_YIELD, 0)]
      else if i = 8 then [(SYS_MMIO_READ, 0), (SYS_DMA_READ, 0), con]
      else if i = 10 then chan 0 @ chan 1
      else if i = 11 then chan 0
      else if i = 12 then chan 0 @ chan 1 @ [(SYS_SEND, 5), (SYS_TASK_START, 0), (SYS_TASK_RESTART, 0), con, (SYS_YIELD, 0),
        (SYS_IRQ_RAISE, 4), (SYS_IRQ_RAISE, 6)]
      else if i = 13 then chan 0 @ [(SYS_RECV, 2), (SYS_DEVICE_INFO, 1), (SYS_MMIO_READ, 1), (SYS_MMIO_WRITE, 1),
        (SYS_DMA_WRITE, 1), (SYS_DMA_READ, 1), (0, 0)]
      else if i = 14 then chan 0 @ [(SYS_RECV, 2), (SYS_DEVICE_INFO, 1), con, (0, 0)]
      else if i = 15 then chan 0 @ chan 1 @ chan 2 @ [con]
      else [])"

definition within_keys :: "nat \<Rightarrow> event \<Rightarrow> bool" where
  "within_keys i e \<longleftrightarrow> (call_num (fst e), call_slot (fst e)) \<in> set (keys i) \<and> call_fits (fst e)"

text \<open>The capabilities of the boot table against these calls.\<close>

definition keys_exact :: "nat \<Rightarrow> bool" where
  "keys_exact i \<longleftrightarrow> list_all (\<lambda>(num, slot). need_met (needed num) (padded (slot_grant i)) slot = (num \<notin> set (probes i))) (keys i)"

lemma keys_exact: "list_all keys_exact [0..<16]"
  by code_simp

section \<open>Every call is in the table\<close>

lemmas key_simps = within_keys_def keys_def IPC_MSG_MAX_def CON_WRITE_MAX_def INFO_MAX_def Let_def

lemma ens_yield_loop: "within_keys i (CYield, undefined) \<Longrightarrow> ensures (\<lambda>_. True) (within_keys i) (yield_loop n env)"
  unfolding yield_loop_def by (rule ens_serve, simp, rule ens_syscall) (simp add: within_keys_def)

lemma ens_init: "ensures (\<lambda>_. True) (within_keys 0) (init_body n env)"
  unfolding init_body_def task_starts_def foldr.simps comp_apply id_apply
  by (intro ens_then ens_branch ens_rules ens_yield_loop) (simp_all add: key_simps)

lemma ens_supervisor: "ensures (\<lambda>_. True) (within_keys (Suc 0)) (supervisor_body n env)"
  unfolding supervisor_body_def by (rule ens_serve, simp, intro ens_branch ens_rules) (simp_all add: key_simps)

lemma ens_logger: "ensures (\<lambda>_. True) (within_keys 2) (logger_body n env)"
  unfolding logger_body_def by (rule ens_serve, simp, intro ens_branch ens_rules) (simp_all add: key_simps)

lemma ens_console: "ensures (\<lambda>line. length line \<le> 63) (within_keys 3) (console_body n env)"
  unfolding console_body_def
proof (rule ens_serve)
  show "ensures (\<lambda>line. length line \<le> 63) (within_keys 3) (console_step env line)" if "length line \<le> 63" for line
    unfolding console_step_def Let_def by (intro ens_if ens_rules) (use that in \<open>simp_all add: key_simps\<close>)
qed simp

lemma ens_apps:
  "ensures (\<lambda>_. True) (within_keys 7) (hello_body n env)" "ensures (\<lambda>_. True) (within_keys 9) (counter_body n env)"
  "ensures (\<lambda>_. True) (within_keys 8) (fault_demo_body env)" "ensures (\<lambda>_. True) (within_keys 5) (faulty_body env junk)"
  unfolding hello_body_def counter_body_def counter_round_def fault_demo_body_def faulty_body_def
  by (intro ens_then [OF ens_then] ens_branch ens_rules ens_yield_loop; simp add: key_simps)+

lemma message_le: "length (r_buf r) \<le> m \<Longrightarrow> length (message r) \<le> m"
  by (rule message_bound) simp_all

lemma ens_shell_exchange:
  "slot \<in> {4, 5, 6, 7, 8} \<Longrightarrow> length q \<le> 128 \<Longrightarrow> cap \<le> 128 \<Longrightarrow> ensures (\<lambda>_. True) (within_keys 4) (shell_exchange env slot q cap)"
  unfolding shell_exchange_def shell_show_def by (intro ens_branch ens_rules) (auto simp: key_simps)

lemma ens_shell_exec: "length bp \<le> 64 \<Longrightarrow> ensures (\<lambda>_. True) (within_keys 4) (shell_exec env bp)"
  unfolding shell_exec_def shell_info_def shell_fs_cmd_def shell_app_proto_def shell_app_forward_def shell_drv_forward_def
    shell_net_forward_def shell_stor_cmd_def shell_task_def Let_def
  by (intro ens_branch ens_rules ens_shell_exchange) (simp_all add: key_simps copy_upto_le)

lemma ens_shell: "ensures (\<lambda>_. True) (within_keys 4) (shell_body n env)"
proof -
  have "ensures (\<lambda>_. True) (within_keys 4) (shell_step env s)" for s
    unfolding shell_step_def by (intro ens_branch ens_rules ens_shell_exec) (simp_all add: key_simps message_le)
  then show ?thesis unfolding shell_body_def by (intro ens_branch ens_rules ens_serve) (simp_all add: key_simps)
qed

lemma ens_app_reply: "length a \<le> 128 \<Longrightarrow> ensures (\<lambda>_. True) (within_keys 6) (app_reply env a)"
  unfolding app_reply_def by (rule ens_syscall) (simp add: key_simps)

lemma ens_ld_fetch: "ensures (\<lambda>_. True) (within_keys 6) (ld_fetch env name)"
  unfolding ld_fetch_def Let_def by (intro ens_branch ens_rules) (simp_all add: key_simps ld_append_def copy_upto_le)

lemma ens_ld_reply_name: "length pre \<le> 63 \<Longrightarrow> ensures (\<lambda>_. True) (within_keys 6) (ld_reply_name env pre name)"
  unfolding ld_reply_name_def Let_def by (intro ens_branch ens_rules) (simp_all add: key_simps ld_append_def copy_upto_le)

lemma ens_ld_emit_reject: "ensures (\<lambda>_. True) (within_keys 6) (ld_emit_reject env code name)"
  unfolding ld_emit_reject_def ld_reject_def by (intro ens_branch ens_rules ens_app_reply) (simp_all add: key_simps)

lemmas ens_ld = ens_app_reply ens_then [OF ens_app_reply] ens_then [OF ens_ld_fetch] ens_then [OF ens_ld_reply_name]
  ens_then [OF ens_ld_emit_reject]

lemma ens_loader_ops:
  "ensures (\<lambda>_. True) (within_keys 6) (ld_load env name st)" "ensures (\<lambda>_. True) (within_keys 6) (ld_run env name st)"
  "ensures (\<lambda>_. True) (within_keys 6) (ld_unload env name st)" "ensures (\<lambda>_. True) (within_keys 6) (ld_state env name st)"
  "ensures (\<lambda>_. True) (within_keys 6) (ld_info env name)" "ensures (\<lambda>_. True) (within_keys 6) (legacy_run env name)"
  unfolding ld_load_def ld_run_def ld_unload_def ld_state_def ld_info_def legacy_run_def Let_def
  by (intro ens_branch ens_rules ens_ld; simp add: key_simps)+

lemma ens_app_loader: "ensures (\<lambda>_. True) (within_keys 6) (app_loader_body n env)"
proof -
  have "ensures (\<lambda>_. True) (within_keys 6) (loader_step env st)" for st
    unfolding loader_step_def Let_def
    by (intro ens_branch ens_rules ens_ld ens_loader_ops ens_then [OF ens_loader_ops(4)] ens_then [OF ens_loader_ops(5)]
        ens_then [OF ens_loader_ops(6)]) (simp_all add: key_simps)
  then show ?thesis unfolding app_loader_body_def by (intro ens_serve) simp_all
qed

lemma ens_storage: "ensures (\<lambda>_. True) (within_keys 11) (storage_body n env)"
proof -
  have "ensures (\<lambda>_. True) (within_keys 11) (storage_step env s)" for s
    unfolding storage_step_def storage_serve_def block_reply_def block_reply_hi_def storage_send_block_def Let_def
    by (intro ens_branch ens_rules) (simp_all add: key_simps copy_upto_le)
  then show ?thesis unfolding storage_body_def by (intro ens_serve) simp_all
qed

lemma ens_fs_reply: "length a \<le> 128 \<Longrightarrow> ensures (\<lambda>_. True) (within_keys 10) (fs_reply env a)"
  unfolding fs_reply_def by (rule ens_syscall) (simp add: key_simps)

lemma ens_fs: "ensures (\<lambda>_. True) (within_keys 10) (fs_body n env)"
proof -
  have "ensures (\<lambda>_. True) (within_keys 10) (fs_step env s)" for s
    unfolding fs_step_def fs_serve_def fs_ls_def fs_cat_def fs_stor_record_def fs_stor_version_def
    by (intro ens_branch ens_rules ens_fs_reply) (auto simp: key_simps message_le le_diff_conv intro!: le_trans [OF length_message])
  then show ?thesis unfolding fs_body_def by (intro ens_serve) simp_all
qed

lemma ens_dm_reply: "length a \<le> 128 \<Longrightarrow> ensures (\<lambda>_. True) (within_keys 12) (dm_reply env a)"
  unfolding dm_reply_def by (rule ens_syscall) (simp add: key_simps)

lemma ens_dm_probe: "slot \<in> {4, 6} \<Longrightarrow> ensures (\<lambda>_. True) (within_keys 12) (dm_probe room env slot)"
proof (induction room)
  case (Suc room)
  then show ?case unfolding dm_probe.simps by (intro ens_branch ens_rules Suc.IH) (auto simp: key_simps)
qed (simp add: ens_return)

lemma ens_manager: "ensures (\<lambda>_. True) (within_keys 12) (driver_manager_body n env)"
proof -
  note rules = ens_branch ens_rules ens_dm_reply ens_then [OF ens_dm_reply] ens_then [OF ens_dm_probe]
  have start: "ensures (\<lambda>_. True) (within_keys 12) (manager_start env)"
    unfolding manager_start_def
    by (rule ens_bind_sys, simp add: key_simps, rule ens_then, intro rules, simp_all add: key_simps,
        rule ens_bind_sys, simp add: key_simps, rule ens_then, intro rules) (simp_all add: key_simps ens_return)
  have info: "ensures (\<lambda>_. True) (within_keys 12) (dm_info env st)" for st
    unfolding dm_info_def by (intro rules) (simp_all add: key_simps message_le)
  have list: "ensures (\<lambda>_. True) (within_keys 12) (dm_list env st net_st)" for st net_st
    unfolding dm_list_def by (intro ens_then ens_branch ens_uwrite ens_dm_reply) (simp_all add: key_simps)
  have "ensures (\<lambda>_. True) (within_keys 12) (manager_step env m)" for m
    unfolding manager_step_def dm_net_fault_def dm_net_restart_def dm_restart_def dm_fault_def Let_def
    by (intro rules ens_then [OF info] ens_then [OF list]) (simp_all add: key_simps)
  then show ?thesis unfolding driver_manager_body_def by (intro ens_then [OF start] ens_serve) simp_all
qed

lemma ens_block_driver: "ensures (\<lambda>_. True) (within_keys 13) (block_driver_body n env)"
proof -
  have start: "ensures (\<lambda>_. True) (within_keys 13) (block_driver_start env)"
    unfolding block_driver_start_def by (intro ens_rules) (simp_all add: key_simps)
  have "ensures (\<lambda>_. True) (within_keys 13) (block_driver_step env st)" for st
    by (cases st; simp only: block_driver_step_def option.case Let_def; intro ens_branch ens_rules) (simp_all add: key_simps)
  then show ?thesis unfolding block_driver_body_def by (intro ens_then [OF start] ens_serve) simp_all
qed

lemma ens_net_driver: "ensures (\<lambda>_. True) (within_keys 14) (net_driver_body n env)"
proof -
  have start: "ensures (\<lambda>_. True) (within_keys 14) (net_driver_start env)"
    unfolding net_driver_start_def by (intro ens_rules) (simp_all add: key_simps)
  have rep: "ensures (\<lambda>_. True) (within_keys 14) (nd_status env tx rx)" "ensures (\<lambda>_. True) (within_keys 14) (nd_rx_count env rx)" for tx rx
    unfolding nd_status_def nd_rx_count_def Let_def by (intro ens_rules; simp add: key_simps nd_bounds)+
  have "ensures (\<lambda>_. True) (within_keys 14) (net_driver_step env st)" for st
  proof (cases st)
    case (Some c)
    obtain tx rx where c: "c = (tx, rx)" by (cases c)
    show ?thesis
      unfolding Some c net_driver_step_def option.case prod.case Let_def
      by (intro ens_branch ens_rules ens_then [OF rep(1)] ens_then [OF rep(2)]) (simp_all add: key_simps)
  qed (simp add: net_driver_step_def ens_return)
  then show ?thesis unfolding net_driver_body_def by (intro ens_then [OF start] ens_serve) simp_all
qed

lemma ens_ns_reply: "length a \<le> 128 \<Longrightarrow> ensures (\<lambda>_. True) (within_keys 15) (ns_reply env a)"
  unfolding ns_reply_def by (rule ens_syscall) (simp add: key_simps)

lemma ens_bind_peer:
  assumes "\<And>r. length (r_buf r) \<le> 64 \<Longrightarrow> ensures J (within_keys 15) (f r)" and "length cmd \<le> 128"
  shows "ensures J (within_keys 15) (ns_driver env cmd \<bind> f)" "ensures J (within_keys 15) (ns_manager env cmd \<bind> f)"
proof -
  have "ensures (\<lambda>r. length (r_buf r) \<le> 64) (within_keys 15) (ns_driver env cmd)"
    "ensures (\<lambda>r. length (r_buf r) \<le> 64) (within_keys 15) (ns_manager env cmd)"
    unfolding ns_driver_def ns_manager_def using assms(2)
    by (intro ens_branch ens_rules ens_weaken [OF ens_sys]; simp add: key_simps)+
  from this [THEN ens_bind, of J f] assms(1)
  show "ensures J (within_keys 15) (ns_driver env cmd \<bind> f)" "ensures J (within_keys 15) (ns_manager env cmd \<bind> f)"
    by blast+
qed

lemma ens_net_service: "ensures (\<lambda>_. True) (within_keys 15) (net_service_body n env)"
proof -
  note rules = ens_branch ens_rules ens_bind_peer ens_ns_reply ens_then [OF ens_ns_reply]
  have status: "ensures (\<lambda>_. True) (within_keys 15) (ns_status env tx rx)" "ensures (\<lambda>_. True) (within_keys 15) (ns_stats env tx rx)" for tx rx
    unfolding ns_status_def ns_stats_def Let_def by (rule ens_ns_reply, simp add: nd_bounds)+
  have probe: "ensures (\<lambda>_. True) (within_keys 15) (ns_probe env st a)" if "ensures (\<lambda>_. True) (within_keys 15) a" for st a
    unfolding ns_probe_def by (rule ens_then; intro rules that) simp_all
  have events: "ensures (\<lambda>_. True) (within_keys 15) (ns_packet_events env tx rx)" for tx rx
    unfolding ns_packet_events_def ns_event_def Let_def by (intro rules) (simp_all add: key_simps)
  have count: "ensures (\<lambda>_. True) (within_keys 15) (ns_rx_count env st)" for st
    unfolding ns_rx_count_def by (rule ens_then; intro rules) (simp_all add: message_le)
  have "ensures (\<lambda>_. True) (within_keys 15) (net_service_step env st)" for st
    unfolding net_service_step_def ns_send_test_def ns_fault_def ns_restart_def Let_def
    by (intro rules probe status count ens_then [OF events]) (simp_all add: key_simps message_le)
  then show ?thesis unfolding net_service_body_def by (intro ens_rules ens_serve) (simp_all add: key_simps)
qed

lemma task_within_keys: "ensures (\<lambda>_. True) (within_keys i) (task_program i n env junk)"
proof -
  note drop = ens_then [OF ens_weaken [OF ens_console]] ens_then [OF ens_app_loader] ens_then [OF ens_manager]
    ens_then [OF ens_block_driver] ens_then [OF ens_net_driver] ens_then [OF ens_net_service]
  show ?thesis unfolding task_program_def
    by (simp add: ens_init ens_supervisor ens_logger ens_shell ens_apps ens_fs ens_storage drop ens_return)
qed

section \<open>Properties\<close>

text \<open>C4. Least privilege fits the programs: whatever the kernel and the peers answer, every call
  a user task of the boot image makes is within the size limits of its handler, and the capabilities of
  its row of the boot table authorise it exactly when it is not one of the deliberate probes (the send of
  the faulty task, the device and console probes of \<open>fault_demo\<close>, the register write of the
  block driver). So no service is ever refused for want of a capability, and every probe is
  refused.\<close>

theorem service_calls_authorised:
  assumes "i < MAX_TASKS" and "(c, r) \<in> set (snd (run_state (task_program i n env junk) []))"
  shows "call_fits c \<and> (granted i c \<longleftrightarrow> call_num c \<notin> set (probes i))"
proof -
  have k: "within_keys i (c, r)" using ensures_run [OF task_within_keys assms(2)] .
  have "keys_exact i" using keys_exact assms(1) by (auto simp: list_all_iff MAX_TASKS_def)
  then show ?thesis using k by (auto simp: keys_exact_def list_all_iff granted_def within_keys_def)
qed

theorem service_calls_authorised_witness:
  "call_fits (CMmioWrite 1 0 4 0) \<and> \<not> granted 13 (CMmioWrite 1 0 4 0)"
proof -
  have "(CMmioWrite 1 0 4 0, \<lparr>r_ret = 0, r_buf = []\<rparr>)
      \<in> set (snd (run_state (task_program 13 0 (\<lambda>_ _. \<lparr>r_ret = 0, r_buf = []\<rparr>) []) []))"
    by code_simp
  from service_calls_authorised [OF _ this] show ?thesis by (simp add: MAX_TASKS_def probes_def)
qed

lemma manager_start_quiet: "speaks (\<lambda>_. True) 0 (manager_start env)"
proof -
  have a: "speaks (\<lambda>_. True) 0 (if b then do { dm_line env s; syscall env (CIrqRaise 4); State_Monad.return 1 }
      else do { dm_line env t; State_Monad.return (0 :: u8) })" for b s t
    by (intro sp_rules) simp_all
  have b: "speaks (\<lambda>_. True) 0 (if b then do { dm_line env s; State_Monad.return 1 } else State_Monad.return (0 :: u8))" for b s
    by (intro sp_rules) simp_all
  show ?thesis unfolding manager_start_def by (intro sp_rules sp_bind0 [OF a] sp_bind0 [OF b]) simp_all
qed

lemma drivers_start_quiet: "speaks (\<lambda>_. True) 0 (block_driver_start env)" "speaks (\<lambda>_. True) 0 (net_driver_start env)"
  unfolding block_driver_start_def net_driver_start_def by (intro sp_rules; simp)+

text \<open>C7. The dialogue of the servers: whatever the clients send, the kernel returns and the peers
  answer, everything the application loader, the file system, the storage service, the network service and
  the driver manager do on their request channel is a sequence of two kinds of exchange. A receive that
  hands over data is followed by exactly one reply of at most 128 bytes before the next receive, and a
  request outside the command table of the service gets its error reply. A receive that hands over
  nothing, an empty message or an error of the kernel such as a message that does not fit, gets no reply
  at all, unlike what the documentation promises for malformed input. One reply means one send: its result
  is not examined, and a refused send is not repeated. The two drivers do the same until they get their
  test mode command, which is the only request that stays open and after which they are silent.\<close>

theorem servers_keep_dialogue:
  "session loader_protocol (chan (snd (run_state (app_loader_body n env) [])))
   \<and> session fs_protocol (chan (snd (run_state (fs_body n env) [])))
   \<and> session storage_protocol (chan (snd (run_state (storage_body n env) [])))
   \<and> session net_protocol (chan (snd (run_state (net_service_body n env) [])))
   \<and> session manager_protocol (chan (snd (run_state (driver_manager_body n env) [])))
   \<and> (case run_state (block_driver_body n env) [] of (st, es) \<Rightarrow>
        if st \<noteq> None then session block_driver_protocol (chan es)
        else cut_session block_driver_protocol (\<lambda>q. q = bytes ''FAULT'') (chan es))
   \<and> (case run_state (net_driver_body n env) [] of (st, es) \<Rightarrow>
        if st \<noteq> None then session net_driver_protocol (chan es)
        else cut_session net_driver_protocol (\<lambda>q. q = bytes ''DRV_FAULT'') (chan es))"
proof -
  have start: "State_Monad.return s \<bind> f = f s" for s :: 'a and f :: "'a \<Rightarrow> 'b user"
    by (simp add: State_Monad.return_def State_Monad.bind_def)
  have "speaks running 0 (block_driver_start env \<bind> (\<lambda>_. State_Monad.return (Some ())))"
    "speaks running 0 (net_driver_start env \<bind> (\<lambda>_. State_Monad.return (Some (0, 0))))"
    using drivers_start_quiet by (auto intro!: sp_bind0 sp_return)
  note drivers = block_driver.started_log [OF this(1), of n env] net_driver.started_log [OF this(2), of n env]
  have net: "speaks (\<lambda>_. True) 0 (do { uwrite_ptr env p; State_Monad.return s })" for p and s :: net_state
    by (intro sp_rules) simp
  show ?thesis
    using loader.started_log [where n = n and env = env, OF sp_return [where x = "replicate 4 0"]]
      fs.started_log [where n = n and env = env, OF sp_return [where x = "()"]]
      storage.started_log [where n = n and env = env, OF sp_return [where x = "()"]]
      manager.started_log [where n = n and env = env, OF manager_start_quiet [of env]]
      net.started_log [where n = n and env = env, OF net [of "bytes ''NET_SERVICE state=up mode=synthetic'' @ [10]" "\<lparr>ns_tx = 0, ns_rx = 0, ns_up = True\<rparr>"]]
      drivers
    unfolding app_loader_body_def fs_body_def storage_body_def net_service_body_def driver_manager_body_def
      block_driver_body_def net_driver_body_def
    by (simp add: split_beta start State_Monad.bind_def State_Monad.return_def)
qed

end
