(* ===== verification/Image_Record.thy ===== *)
theory Image_Record
  imports App_Loader File_Services
begin

text \<open>
  The format of an application image record as a grammar, and that the index arithmetic of
  \<open>ld_validate\<close> accepts exactly the records of the grammar.
\<close>

section \<open>Numbers, tokens and checksums\<close>

definition digits :: "u8 list \<Rightarrow> bool" where
  "digits ds \<longleftrightarrow> ds \<noteq> [] \<and> list_all is_digit ds"

definition dec_value :: "u8 list \<Rightarrow> nat" where
  "dec_value ds = foldl (\<lambda>v b. v * 10 + unat (b - 48)) 0 ds"

definition hex_value :: "u8 list \<Rightarrow> nat" where
  "hex_value h = foldl (\<lambda>v b. v * 16 + (case hex_digit b of None \<Rightarrow> 0 | Some d \<Rightarrow> unat d)) 0 h"

lemma push_digits: "foldl push_digit (of_nat v) ds = of_nat (foldl (\<lambda>v b. v * 10 + unat (b - 48)) v ds)"
proof (induction ds arbitrary: v)
  case (Cons b ds)
  have "push_digit (of_nat v) b = of_nat (v * 10 + unat (b - 48))"
    by (simp add: push_digit_def)
  then show ?case by (simp only: foldl_Cons Cons.IH)
qed simp

lemma push_digits_value: "foldl push_digit 0 ds = of_nat (dec_value ds)"
  using push_digits [of 0 ds] by (simp add: dec_value_def)

lemma dec_stop_loop_eq:
  "dec_stop_loop v i any bs =
     (foldl push_digit v (takeWhile is_digit bs), i + length (takeWhile is_digit bs), any \<or> takeWhile is_digit bs \<noteq> [])"
proof (induction bs arbitrary: v i any)
  case (Cons b bs)
  have "(b < 48 \<or> b > 57) \<longleftrightarrow> \<not> is_digit b" by (auto simp: is_digit_def not_le)
  then show ?case by (simp add: Cons.IH)
qed simp

lemma parse_dec_stop_eq:
  "parse_dec_stop p j = (let ds = takeWhile is_digit (drop j p)
     in (if ds = [] then - 1 else of_nat (dec_value ds), j + length ds))"
  by (simp add: parse_dec_stop_def dec_stop_loop_eq push_digits_value Let_def)

text \<open>The decimal parser of the shell, on any digit string: the value modulo \<open>2 ^ 64\<close>.\<close>

lemma parse_dec_loop_digits: "list_all is_digit ds \<Longrightarrow> parse_dec_loop v ds = foldl push_digit v ds"
  by (induction v ds rule: parse_dec_loop.induct) auto

lemma parse_dec_value: "digits ds \<Longrightarrow> parse_dec (pre @ ds) (length pre) = of_nat (dec_value ds)"
  by (auto simp: parse_dec_def digits_def parse_dec_loop_digits push_digits_value)

lemma tok_loop_eq: "tok_loop j bs = j + length (takeWhile (\<lambda>b. b \<noteq> 32) bs)"
  by (induction j bs rule: tok_loop.induct) auto

lemma tok_end_eq: "tok_end p i = i + length (takeWhile (\<lambda>b. b \<noteq> 32) (drop i p))"
  by (simp add: tok_end_def tok_loop_eq)

lemma ck_sum_eq: "ck_sum p n = of_nat (sum_list (map unat (take n p)) mod 65536)"
proof -
  have "foldl (\<lambda>s b. (s + ucast b) AND 0xffff) (of_nat (m mod 65536)) bs = (of_nat ((m + sum_list (map unat bs)) mod 65536) :: u32)"
    for m and bs :: "u8 list"
  proof (induction bs arbitrary: m)
    case (Cons b bs)
    have "(of_nat (m mod 65536) + ucast b :: u32) AND 0xffff = take_bit 16 (of_nat (m mod 65536) + of_nat (unat b))"
      by (simp add: take_bit_eq_mask mask_eq_exp_minus_1)
    also have "\<dots> = of_nat ((m mod 65536 + unat b) mod 65536)"
      unfolding of_nat_add [symmetric] by (simp only: take_bit_of_nat) (simp add: take_bit_eq_mod)
    also have "\<dots> = of_nat ((m + unat b) mod 65536)" by (simp add: mod_add_left_eq)
    finally show ?case using Cons.IH [of "m + unat b"] by (simp add: add.assoc)
  qed simp
  from this [of 0] show ?thesis by (simp add: ck_sum_def)
qed

lemma shift_or_digit:
  fixes v d :: u32
  assumes "unat d < 16"
  shows "push_bit 4 v OR d = v * 16 + d"
proof -
  have high: "\<not> bit d n" if "4 \<le> n" for n
  proof -
    have "unat d div 2 ^ n = 0" using assms power_increasing [OF that, of "2 :: nat"] by simp
    then have "\<not> bit (unat d) n" by (simp add: bit_iff_odd)
    then show ?thesis by (simp add: bit_unsigned_iff)
  qed
  have "push_bit 4 v AND d = 0"
    by (rule bit_eqI) (use high in \<open>auto simp: bit_simps\<close>)
  then have "push_bit 4 v + d = push_bit 4 v OR d" by (rule disjunctive_add_eq_or)
  then show ?thesis by (simp add: push_bit_eq_mult)
qed

lemma hex_digit_bound: "hex_digit b = Some d \<Longrightarrow> unat d < 16"
  by (auto simp: hex_digit_def unsigned_ucast_eq word_le_nat_alt unat_sub_if' unat_word_ariths take_bit_nat_def split: if_splits)

lemma hex4_loop_value:
  "list_all (\<lambda>b. hex_digit b \<noteq> None) h \<Longrightarrow> hex4_loop (of_nat v) h
     = of_nat (foldl (\<lambda>v b. v * 16 + (case hex_digit b of None \<Rightarrow> 0 | Some d \<Rightarrow> unat d)) v h)"
proof (induction h arbitrary: v)
  case (Cons b h)
  then obtain d where d: "hex_digit b = Some d" by auto
  have "push_bit 4 (of_nat v) OR d = of_nat (v * 16 + unat d)"
    using shift_or_digit [OF hex_digit_bound [OF d]] by simp
  then show ?case using Cons.IH Cons.prems by (simp only: hex4_loop.simps d option.case foldl_Cons list.pred_inject)
qed simp

lemma hex4_loop_bad: "\<not> list_all (\<lambda>b. hex_digit b \<noteq> None) h \<Longrightarrow> hex4_loop v h = - 1"
  by (induction v h rule: hex4_loop.induct) (auto split: option.splits)

lemma hex_value_bound: "length h = 4 \<Longrightarrow> hex_value h < 65536"
proof -
  have step: "(case hex_digit b of None \<Rightarrow> 0 | Some d \<Rightarrow> unat d) < 16" for b
    using hex_digit_bound by (simp split: option.split)
  assume "length h = 4"
  then obtain a b c d where h: "h = [a, b, c, d]" by (auto simp: numeral_eq_Suc length_Suc_conv)
  show ?thesis using step [of a] step [of b] step [of c] step [of d] unfolding h hex_value_def by simp
qed

lemma small_not_minus_one: "n < 65536 \<Longrightarrow> (of_nat n :: u32) \<noteq> - 1"
proof
  assume n: "n < 65536" and "(of_nat n :: u32) = - 1"
  then have "unat (of_nat n :: u32) = unat (- 1 :: u32)" by simp
  then show False using n by (simp add: unat_of_nat unsigned_minus_1_eq_mask mask_eq_exp_minus_1)
qed

lemma hex4_loop_eq:
  assumes "length h = 4" and "n < 65536"
  shows "hex4_loop 0 h = of_nat n \<longleftrightarrow> list_all (\<lambda>b. hex_digit b \<noteq> None) h \<and> hex_value h = n"
proof (cases "list_all (\<lambda>b. hex_digit b \<noteq> None) h")
  case True
  have "hex4_loop 0 h = of_nat (hex_value h)" using hex4_loop_value [OF True, of 0] by (simp add: hex_value_def)
  then show ?thesis using True hex_value_bound [OF assms(1)] assms(2)
    by (simp add: word_of_nat_eq_iff take_bit_nat_eq_self)
next
  case False
  have "(of_nat n :: u32) \<noteq> - 1" using assms(2) by (rule small_not_minus_one)
  then show ?thesis using False hex4_loop_bad [OF False, of 0] by metis
qed

section \<open>Fields\<close>

lemma num_after_value:
  assumes "ld_num_after p j = (v, j')" and "v \<noteq> - 1"
  obtains ds where "drop j p = 32 # ds @ drop j' p" and "digits ds" and "v = of_nat (dec_value ds)"
proof -
  define ds where "ds = takeWhile is_digit (drop (j + 1) p)"
  have j: "j < length p" "p ! j = 32" and v: "v = of_nat (dec_value ds)" "ds \<noteq> []" and j': "j' = j + 1 + length ds"
    using assms unfolding ld_num_after_def parse_dec_stop_eq Let_def ds_def by (auto split: if_splits)
  have "drop (j + 1) p = ds @ dropWhile is_digit (drop (j + 1) p)" by (simp add: ds_def)
  then have "drop j' p = dropWhile is_digit (drop (j + 1) p)"
    unfolding j' by (metis append_eq_conv_conj drop_drop add.commute)
  then have "drop j p = 32 # ds @ drop j' p" using j by (simp add: Cons_nth_drop_Suc [symmetric] ds_def)
  moreover have "digits ds" using v(2) by (auto simp: digits_def ds_def list_all_iff dest: set_takeWhileD)
  ultimately show ?thesis using v(1) that by blast
qed

lemma takeWhile_token:
  "list_all P ds \<Longrightarrow> rest = [] \<or> \<not> P (hd rest) \<Longrightarrow> takeWhile P (ds @ rest) = ds"
  by (induction ds) (auto simp: takeWhile_eq_Nil_iff)

lemma num_after_field:
  assumes "drop j p = 32 # ds @ rest" and "digits ds" and "rest = [] \<or> \<not> is_digit (hd rest)"
  shows "ld_num_after p j = (of_nat (dec_value ds), j + 1 + length ds)" and "drop (j + 1 + length ds) p = rest"
proof -
  have j: "j < length p" using assms(1) by (metis drop_eq_Nil list.distinct(1) not_le)
  then have "p ! j = 32" using assms(1) by (metis Cons_nth_drop_Suc list.inject)
  have d: "drop (Suc j) p = ds @ rest" using assms(1) j by (metis Cons_nth_drop_Suc list.inject)
  then have "takeWhile is_digit (drop (Suc j) p) = ds" using assms(2,3) by (simp add: takeWhile_token digits_def)
  then show "ld_num_after p j = (of_nat (dec_value ds), j + 1 + length ds)"
    using j \<open>p ! j = 32\<close> assms(2) by (simp add: ld_num_after_def parse_dec_stop_eq digits_def)
  show "drop (j + 1 + length ds) p = rest"
    using d by (metis Suc_eq_plus1 add.commute append_eq_conv_conj drop_drop)
qed

lemma tok_end_field:
  assumes "drop i p = t @ rest" and "32 \<notin> set t" and "rest = [] \<or> hd rest = 32"
  shows "tok_end p i = i + length t" and "take (length t) (drop i p) = t" and "drop (i + length t) p = rest"
proof -
  have "takeWhile (\<lambda>b. b \<noteq> 32) (t @ rest) = t" using assms(2,3) by (intro takeWhile_token) (auto simp: list_all_iff)
  then show "tok_end p i = i + length t" by (simp add: tok_end_eq assms(1))
  show "take (length t) (drop i p) = t" by (simp add: assms(1))
  show "drop (i + length t) p = rest" using assms(1) by (metis add.commute append_eq_conv_conj drop_drop)
qed

section \<open>The grammar\<close>

record image_fields =
  im_entry :: "u8 list"
  im_text :: "u8 list"
  im_rodata :: "u8 list"
  im_stack :: "u8 list"
  im_caps :: "u8 list"
  im_size :: "u8 list"

text \<open>The record up to the checksum, with its fields as the bytes they are written with.\<close>

definition record_body :: "u8 list \<Rightarrow> image_fields \<Rightarrow> u8 list" where
  "record_body name f = bytes ''AXAPP1 '' @ name @ 32 # im_entry f @ 32 # im_text f @ 32 # im_rodata f @ 32 # im_stack f
     @ 32 # im_caps f @ 32 # im_size f"

text \<open>The numbers count modulo \<open>2 ^ 64\<close>, as the parser computes them.\<close>

definition field_nat :: "u8 list \<Rightarrow> nat" where
  "field_nat ds = dec_value ds mod 2 ^ 64"

definition fields_ok :: "u8 list \<Rightarrow> image_fields \<Rightarrow> bool" where
  "fields_ok name f \<longleftrightarrow>
     digits (im_entry f) \<and> digits (im_text f) \<and> digits (im_rodata f) \<and> digits (im_stack f) \<and> digits (im_size f)
     \<and> field_nat (im_text f) \<in> {1..65536} \<and> field_nat (im_rodata f) \<le> 65536
     \<and> field_nat (im_size f) = field_nat (im_text f) + field_nat (im_rodata f)
     \<and> field_nat (im_entry f) < field_nat (im_text f) \<and> field_nat (im_stack f) = 1
     \<and> (im_caps f = bytes ''none'' \<and> name \<in> set app_names
        \<or> im_caps f = bytes ''console'' \<and> name \<in> {bytes ''hello'', bytes ''counter''})"

definition checksum_ok :: "u8 list \<Rightarrow> u8 list \<Rightarrow> bool" where
  "checksum_ok body h \<longleftrightarrow> length h = 4 \<and> list_all (\<lambda>b. hex_digit b \<noteq> None) h
     \<and> hex_value h = sum_list (map unat body) mod 65536"

definition valid_record :: "u8 list \<Rightarrow> u8 list \<Rightarrow> bool" where
  "valid_record rp name \<longleftrightarrow> (\<exists>f h. rp = record_body name f @ 32 # h \<and> fields_ok name f \<and> checksum_ok (record_body name f) h)"

section \<open>Validation is membership\<close>

definition image_layout_ok :: "u64 \<Rightarrow> u64 \<Rightarrow> u64 \<Rightarrow> u64 \<Rightarrow> u64 \<Rightarrow> bool" where
  "image_layout_ok e t rd s z \<longleftrightarrow> \<not> (t = 0 \<or> t > 65536 \<or> rd > 65536 \<or> z \<noteq> t + rd \<or> z > 131072 \<or> e \<ge> t \<or> s \<noteq> 1)"

definition caps_ok_for :: "u8 list \<Rightarrow> u8 list \<Rightarrow> bool" where
  "caps_ok_for name caps \<longleftrightarrow> caps = bytes ''none'' \<and> name \<in> set app_names
     \<or> caps = bytes ''console'' \<and> name \<in> {bytes ''hello'', bytes ''counter''}"

lemma word_neq_codes: "(4 :: u8) \<noteq> 0" "(1 :: u8) \<noteq> 0" "(2 :: u8) \<noteq> 0"
  by simp_all

lemma validate_zero:
  "ld_validate rp name = 0 \<longleftrightarrow>
     (let rl = length rp; i1 = tok_end rp 7;
          (e, j1) = ld_num_after rp i1; (t, j2) = ld_num_after rp j1; (rd, j3) = ld_num_after rp j2; (s, j4) = ld_num_after rp j3;
          c1 = tok_end rp (j4 + 1); (z, j5) = ld_num_after rp c1
      in 13 \<le> rl \<and> take 7 rp = bytes ''AXAPP1 '' \<and> rp ! (rl - 5) = 32 \<and> parse_hex4 rp (rl - 4) \<noteq> - 1
         \<and> ck_sum rp (rl - 5) = parse_hex4 rp (rl - 4) \<and> 7 < i1 \<and> take (i1 - 7) (drop 7 rp) = name
         \<and> e \<noteq> - 1 \<and> t \<noteq> - 1 \<and> rd \<noteq> - 1 \<and> s \<noteq> - 1 \<and> j4 < rl \<and> rp ! j4 = 32 \<and> j4 + 1 < c1
         \<and> z \<noteq> - 1 \<and> j5 = rl - 5 \<and> image_layout_ok e t rd s z \<and> caps_ok_for name (take (c1 - (j4 + 1)) (drop (j4 + 1) rp)))"
proof -
  have code: "((if a then k else X) = 0) \<longleftrightarrow> \<not> a \<and> X = 0" if "k \<noteq> 0" for a and k X :: u8
    using that by simp
  have len13: "7 + 6 = (13 :: nat)" by simp
  have L: "length (bytes ''AXAPP1 '') = 7" by simp
  obtain e j1 where 1: "ld_num_after rp (tok_end rp 7) = (e, j1)" by force
  obtain t j2 where 2: "ld_num_after rp j1 = (t, j2)" by force
  obtain rd j3 where 3: "ld_num_after rp j2 = (rd, j3)" by force
  obtain s j4 where 4: "ld_num_after rp j3 = (s, j4)" by force
  obtain z j5 where 5: "ld_num_after rp (tok_end rp (j4 + 1)) = (z, j5)" by force
  have policy: "(if c \<noteq> bytes ''console'' \<and> c \<noteq> bytes ''none'' then 3
      else if name = bytes ''hello'' \<or> name = bytes ''counter'' then 0
      else if name = bytes ''fault_demo'' then if c = bytes ''console'' then 3 else 0 else 5) = (0 :: u8) \<longleftrightarrow> caps_ok_for name c" for c
    by (auto simp: caps_ok_for_def app_names_def)
  have magic: "starts_with rp (bytes ''AXAPP1 '') \<longleftrightarrow> take 7 rp = bytes ''AXAPP1 ''" by (simp add: numeral_eq_Suc)
  show ?thesis
    unfolding ld_validate_def Let_def L 1 2 3 4 5 prod.case magic eqs_eq image_layout_ok_def
    by (simp only: word_neq_codes [THEN code] policy) (auto simp only: not_less not_le len13)
qed

lemma layout_iff:
  "image_layout_ok (of_nat (dec_value e)) (of_nat (dec_value t)) (of_nat (dec_value rd)) (of_nat (dec_value s)) (of_nat (dec_value z)) \<longleftrightarrow>
     field_nat t \<in> {1..65536} \<and> field_nat rd \<le> 65536 \<and> field_nat z = field_nat t + field_nat rd
     \<and> field_nat e < field_nat t \<and> field_nat s = 1"
proof -
  have u: "unat (of_nat (dec_value x) :: u64) = field_nat x" for x
    by (simp add: unat_of_nat field_nat_def)
  have sum: "unat (of_nat (dec_value t) + of_nat (dec_value rd) :: u64) = field_nat t + field_nat rd"
    if "field_nat t \<le> 65536" "field_nat rd \<le> 65536"
    using that by (simp add: unat_word_ariths u)
  have eq: "(x :: u64) = y \<longleftrightarrow> unat x = unat y" for x y by (simp add: word_unat_eq_iff)
  show ?thesis unfolding image_layout_ok_def eq word_less_nat_alt word_le_nat_alt u
    using sum by (auto simp: not_less not_le)
qed

lemma fields_ok_iff:
  "fields_ok name f \<longleftrightarrow> digits (im_entry f) \<and> digits (im_text f) \<and> digits (im_rodata f) \<and> digits (im_stack f) \<and> digits (im_size f)
     \<and> image_layout_ok (of_nat (dec_value (im_entry f))) (of_nat (dec_value (im_text f))) (of_nat (dec_value (im_rodata f)))
         (of_nat (dec_value (im_stack f))) (of_nat (dec_value (im_size f))) \<and> caps_ok_for name (im_caps f)"
  unfolding fields_ok_def layout_iff caps_ok_for_def by blast

lemma layout_not_minus_one:
  "image_layout_ok e t rd s z \<Longrightarrow> e \<noteq> - 1 \<and> t \<noteq> - 1 \<and> rd \<noteq> - 1 \<and> s \<noteq> - 1 \<and> z \<noteq> - 1"
  by (auto simp: image_layout_ok_def)

text \<open>The checksum field: the last five bytes are a space and the sum of what comes before.\<close>

lemma checksum_iff:
  assumes "rp = body @ 32 # h" and "length h = 4"
  shows "parse_hex4 rp (length rp - 4) \<noteq> - 1 \<and> ck_sum rp (length rp - 5) = parse_hex4 rp (length rp - 4) \<longleftrightarrow> checksum_ok body h"
proof -
  have p: "parse_hex4 rp (length rp - 4) = hex4_loop 0 h" using assms by (simp add: parse_hex4_def)
  have c: "ck_sum rp (length rp - 5) = of_nat (sum_list (map unat body) mod 65536)" using assms by (simp add: ck_sum_eq)
  let ?n = "sum_list (map unat body) mod 65536"
  have n: "?n < 65536" by simp
  have "(of_nat ?n :: u32) \<noteq> - 1" using n by (rule small_not_minus_one)
  then show ?thesis unfolding p c checksum_ok_def using hex4_loop_eq [OF assms(2) n] assms(2) by metis
qed

text \<open>Reading the fields off an accepted record.\<close>

lemma valid_of_validate:
  assumes "ld_validate rp name = 0"
  shows "valid_record rp name"
proof -
  define i1 where "i1 = tok_end rp 7"
  obtain e j1 where 1: "ld_num_after rp i1 = (e, j1)" by force
  obtain t j2 where 2: "ld_num_after rp j1 = (t, j2)" by force
  obtain rd j3 where 3: "ld_num_after rp j2 = (rd, j3)" by force
  obtain s j4 where 4: "ld_num_after rp j3 = (s, j4)" by force
  define c1 where "c1 = tok_end rp (j4 + 1)"
  obtain z j5 where 5: "ld_num_after rp c1 = (z, j5)" by force
  have V: "13 \<le> length rp" "take 7 rp = bytes ''AXAPP1 ''" "rp ! (length rp - 5) = 32"
    "parse_hex4 rp (length rp - 4) \<noteq> - 1" "ck_sum rp (length rp - 5) = parse_hex4 rp (length rp - 4)"
    "7 < i1" "take (i1 - 7) (drop 7 rp) = name" "e \<noteq> - 1" "t \<noteq> - 1" "rd \<noteq> - 1" "s \<noteq> - 1" "j4 < length rp" "rp ! j4 = 32"
    "j4 + 1 < c1" "z \<noteq> - 1" "j5 = length rp - 5" "image_layout_ok e t rd s z"
    "caps_ok_for name (take (c1 - (j4 + 1)) (drop (j4 + 1) rp))"
    using assms 1 2 3 4 5 unfolding validate_zero Let_def i1_def c1_def by auto
  obtain eb where E: "drop i1 rp = 32 # eb @ drop j1 rp" "digits eb" "e = of_nat (dec_value eb)" by (rule num_after_value [OF 1 V(8)])
  obtain tb where T: "drop j1 rp = 32 # tb @ drop j2 rp" "digits tb" "t = of_nat (dec_value tb)" by (rule num_after_value [OF 2 V(9)])
  obtain rb where R: "drop j2 rp = 32 # rb @ drop j3 rp" "digits rb" "rd = of_nat (dec_value rb)" by (rule num_after_value [OF 3 V(10)])
  obtain sb where S: "drop j3 rp = 32 # sb @ drop j4 rp" "digits sb" "s = of_nat (dec_value sb)" by (rule num_after_value [OF 4 V(11)])
  obtain zb where Z: "drop c1 rp = 32 # zb @ drop j5 rp" "digits zb" "z = of_nat (dec_value zb)" by (rule num_after_value [OF 5 V(15)])
  define caps where "caps = take (c1 - (j4 + 1)) (drop (j4 + 1) rp)"
  have C: "drop j4 rp = 32 # caps @ drop c1 rp"
  proof -
    have "drop (c1 - (j4 + 1)) (drop (j4 + 1) rp) = drop c1 rp" using V(14) by simp
    then have "drop (j4 + 1) rp = caps @ drop c1 rp" unfolding caps_def by (metis append_take_drop_id)
    then show ?thesis using Cons_nth_drop_Suc [OF V(12)] V(13) by simp
  qed
  define h where "h = drop (length rp - 4) rp"
  have "Suc (length rp - 5) = length rp - 4" using V(1) by simp
  then have H: "drop j5 rp = 32 # h" "length h = 4"
    using V(1,3,16) Cons_nth_drop_Suc [of j5 rp] by (simp_all add: h_def)
  define f where "f = \<lparr>im_entry = eb, im_text = tb, im_rodata = rb, im_stack = sb, im_caps = caps, im_size = zb\<rparr>"
  have "rp = bytes ''AXAPP1 '' @ name @ drop i1 rp"
    using V(2,6,7) by (metis append_take_drop_id drop_drop le_add_diff_inverse2 less_imp_le)
  then have rp: "rp = record_body name f @ 32 # h"
    unfolding record_body_def f_def E(1) T(1) R(1) S(1) C Z(1) H(1) by simp
  moreover have "fields_ok name f" using E T R S Z V(17,18) unfolding fields_ok_iff f_def caps_def by simp
  moreover have "checksum_ok (record_body name f) h" using checksum_iff [OF rp H(2)] V(4,5) by blast
  ultimately show ?thesis unfolding valid_record_def by blast
qed

text \<open>Every record of the grammar is accepted.\<close>

lemma digit_not_space: "digits ds \<Longrightarrow> 32 \<notin> set ds"
  by (auto simp: digits_def list_all_iff is_digit_def)

lemma names_no_space:
  "caps_ok_for name caps \<Longrightarrow> 32 \<notin> set name \<and> name \<noteq> [] \<and> 32 \<notin> set caps \<and> caps \<noteq> []"
  by (auto simp: caps_ok_for_def app_names_def bytes_def)

lemma validate_of_valid:
  assumes "valid_record rp name"
  shows "ld_validate rp name = 0"
proof -
  obtain f h where rp: "rp = record_body name f @ 32 # h" and ok: "fields_ok name f" and ck: "checksum_ok (record_body name f) h"
    using assms by (auto simp: valid_record_def)
  note F = ok [unfolded fields_ok_iff]
  have h4: "length h = 4" using ck by (simp add: checksum_ok_def)
  have sp: "\<not> is_digit (32 :: u8)" by (simp add: is_digit_def)
  note names = names_no_space [of name "im_caps f"]
  let ?rest = "32 # im_entry f @ 32 # im_text f @ 32 # im_rodata f @ 32 # im_stack f @ 32 # im_caps f @ 32 # im_size f @ 32 # h"
  have d7: "drop 7 rp = name @ ?rest" "take 7 rp = bytes ''AXAPP1 ''" by (simp_all add: rp record_body_def numeral_eq_Suc)
  define i1 where "i1 = 7 + length name"
  have i1: "tok_end rp 7 = i1" "take (i1 - 7) (drop 7 rp) = name" "drop i1 rp = ?rest"
    using tok_end_field [OF d7(1)] names F by (simp_all add: i1_def)
  define j1 where "j1 = i1 + 1 + length (im_entry f)"
  have n1: "ld_num_after rp i1 = (of_nat (dec_value (im_entry f)), j1)"
      "drop j1 rp = 32 # im_text f @ 32 # im_rodata f @ 32 # im_stack f @ 32 # im_caps f @ 32 # im_size f @ 32 # h"
    using num_after_field [OF i1(3)] F sp by (simp_all add: j1_def)
  define j2 where "j2 = j1 + 1 + length (im_text f)"
  have n2: "ld_num_after rp j1 = (of_nat (dec_value (im_text f)), j2)"
      "drop j2 rp = 32 # im_rodata f @ 32 # im_stack f @ 32 # im_caps f @ 32 # im_size f @ 32 # h"
    using num_after_field [OF n1(2)] F sp by (simp_all add: j2_def)
  define j3 where "j3 = j2 + 1 + length (im_rodata f)"
  have n3: "ld_num_after rp j2 = (of_nat (dec_value (im_rodata f)), j3)"
      "drop j3 rp = 32 # im_stack f @ 32 # im_caps f @ 32 # im_size f @ 32 # h"
    using num_after_field [OF n2(2)] F sp by (simp_all add: j3_def)
  define j4 where "j4 = j3 + 1 + length (im_stack f)"
  have n4: "ld_num_after rp j3 = (of_nat (dec_value (im_stack f)), j4)" "drop j4 rp = 32 # im_caps f @ 32 # im_size f @ 32 # h"
    using num_after_field [OF n3(2)] F sp by (simp_all add: j4_def)
  have j4: "j4 < length rp" "rp ! j4 = 32" "drop (j4 + 1) rp = im_caps f @ 32 # im_size f @ 32 # h"
  proof -
    show l: "j4 < length rp" using n4(2) by (metis drop_eq_Nil list.distinct(1) not_le)
    show "rp ! j4 = 32" "drop (j4 + 1) rp = im_caps f @ 32 # im_size f @ 32 # h"
      using Cons_nth_drop_Suc [OF l] n4(2) by simp_all
  qed
  define c1 where "c1 = j4 + 1 + length (im_caps f)"
  have c1: "tok_end rp (j4 + 1) = c1" "take (c1 - (j4 + 1)) (drop (j4 + 1) rp) = im_caps f" "drop c1 rp = 32 # im_size f @ 32 # h"
    using tok_end_field [OF j4(3)] names F by (simp_all add: c1_def)
  define j5 where "j5 = c1 + 1 + length (im_size f)"
  have n5: "ld_num_after rp c1 = (of_nat (dec_value (im_size f)), j5)" "drop j5 rp = 32 # h"
    using num_after_field [OF c1(3)] F sp by (simp_all add: j5_def)
  have "length (drop j5 rp) = 5" using n5(2) h4 by simp
  then have j5: "j5 = length rp - 5" "j5 < length rp" by simp_all
  have "rp ! j5 = 32" using n5(2) Cons_nth_drop_Suc [OF j5(2)] by simp
  moreover have "13 \<le> length rp" using h4 names F by (cases name) (simp_all add: rp record_body_def)
  moreover have "7 < i1" "j4 + 1 < c1" using names F by (simp_all add: i1_def c1_def)
  moreover note layout_not_minus_one [OF F [THEN conjunct2, THEN conjunct2, THEN conjunct2, THEN conjunct2, THEN conjunct2, THEN conjunct1]]
  ultimately show ?thesis
    using checksum_iff [OF rp h4] ck F d7(2) j5(1)
    unfolding validate_zero Let_def i1 n1(1) n2(1) n3(1) n4(1) prod.case c1 n5(1) using j4 by auto
qed

text \<open>C10. The record parser is exact: \<open>ld_validate\<close> accepts a record for a name if
  and only if the record is \<open>AXAPP1\<close>, the name, entry, text size, read-only size, stack
  pages, capability word and total size, separated by single spaces, and a four-digit lower-case checksum
  of everything before it; the sizes fit the layout policy, the entry lies in the text, and the capability
  word is within the policy of the application. Numbers count modulo \<open>2 ^ 64\<close>.\<close>

theorem image_validation_exact: "ld_validate rp name = 0 \<longleftrightarrow> valid_record rp name"
  using valid_of_validate validate_of_valid by blast

text \<open>A number that does not fit 64 bits is not refused: it is taken modulo \<open>2 ^ 64\<close>.\<close>

lemma parse_dec_wraps: "parse_dec (bytes ''18446744073709551617'') 0 = 1"
  by code_simp

end
