(* ===== verification/Service_Chain.thy ===== *)
theory Service_Chain
  imports Image_Record
begin

text \<open>
  The composition loader - file system - storage of \<open>os_boot.rs\<close>: the answers of one service are
  computed by running the service it asks, so that a request to the loader is followed through all
  three. What a request to load an application does is then a function of its name and of the table of the loader.
\<close>

section \<open>Services asking services\<close>

text \<open>A message for a receiver that waits with a buffer of \<open>cap\<close> bytes: one that does not fit is
  dropped by the kernel, and the receiver gets \<open>ERR_MSG_TOO_LARGE\<close>.\<close>

definition answer :: "nat \<Rightarrow> u8 list \<Rightarrow> reply" where
  "answer cap m = (if length m \<le> cap then \<lparr>r_ret = int (length m), r_buf = m\<rparr> else \<lparr>r_ret = - 6, r_buf = []\<rparr>)"

primrec last_sent :: "nat \<Rightarrow> u8 list \<Rightarrow> event list \<Rightarrow> u8 list" where
  "last_sent slot m [] = m"
| "last_sent slot m (e # es) =
     last_sent slot (case fst e of CSend s bs \<Rightarrow> if s = slot then bs else m | _ \<Rightarrow> m) es"

text \<open>The environment of a server that has got the request \<open>req\<close> on its own channel and whose
  peers answer each message with \<open>peer slot\<close>.\<close>

definition server_env :: "(nat \<Rightarrow> u8 list \<Rightarrow> u8 list) \<Rightarrow> u8 list \<Rightarrow> env" where
  "server_env peer req es c =
     (case c of
        CRecv slot cap \<Rightarrow> answer cap (if slot = 0 then req else peer slot (last_sent slot [] es))
      | CSend _ bs \<Rightarrow> \<lparr>r_ret = int (length bs), r_buf = []\<rparr>
      | CConWrite bs \<Rightarrow> \<lparr>r_ret = int (length bs), r_buf = []\<rparr>
      | _ \<Rightarrow> \<lparr>r_ret = 0, r_buf = []\<rparr>)"

definition replies :: "event list \<Rightarrow> u8 list" where
  "replies es = last_sent 0 [] es"

definition storage_answer :: "u8 list \<Rightarrow> u8 list" where
  "storage_answer req = replies (snd (run_state (storage_step (server_env (\<lambda>_ _. []) req) ()) []))"

definition fs_answer :: "u8 list \<Rightarrow> u8 list" where
  "fs_answer req = replies (snd (run_state (fs_step (server_env (\<lambda>_. storage_answer) req) ()) []))"

definition loader_answer :: "app_states \<Rightarrow> u8 list \<Rightarrow> u8 list \<times> app_states" where
  "loader_answer st req =
     (let (st', es) = run_state (loader_step (server_env (\<lambda>_. fs_answer) req) st) [] in (replies es, st'))"

section \<open>Running the services\<close>

named_theorems run_simps \<open>evaluation of user code\<close>

lemma run_bind [run_simps]:
  "run_state (m \<bind> f) es = run_state (f (fst (run_state m es))) (snd (run_state m es))"
  by (simp add: State_Monad.bind_def split_beta)

lemma run_return [run_simps]: "run_state (State_Monad.return x) es = (x, es)"
  by (simp add: State_Monad.return_def)

lemma run_sys [run_simps]:
  "run_state (sys env c) es = (let r = (env es c)\<lparr>r_buf := take (call_room c) (r_buf (env es c))\<rparr> in (r, es @ [(c, r)]))"
  by (simp add: sys_def Let_def)

lemma run_syscall [run_simps]:
  "run_state (syscall env c) es = ((), es @ [(c, (env es c)\<lparr>r_buf := take (call_room c) (r_buf (env es c))\<rparr>)])"
  by (simp add: syscall_def run_simps Let_def)

lemma answer_fits: "length m \<le> cap \<Longrightarrow> answer cap m = \<lparr>r_ret = int (length m), r_buf = m\<rparr>"
  by (simp add: answer_def)

lemma bytes_prefix: "bytes s @ x = bytes t \<longleftrightarrow> take (length s) t = s \<and> x = drop (length s) (bytes t)"
  unfolding append_eq_conv_conj length_bytes take_bytes bytes_inject by auto

lemma last_sent_append [simp]: "last_sent slot m (es @ es') = last_sent slot (last_sent slot m es) es'"
  by (induction es arbitrary: m) simp_all

lemma last_sent_writes: "list_all (\<lambda>e. \<exists>p. fst e = CConWrite p) es \<Longrightarrow> last_sent slot m es = m"
  by (induction es) auto

lemma replies_uwrite [simp]: "replies (snd (run_state (uwrite_ptr env p) es)) = replies es"
proof -
  have "does (uwrite_ptr env p) (\<lambda>_ new. list_all (\<lambda>e. \<exists>p. fst e = CConWrite p) new)"
    using ens_uwrite [of "\<lambda>e. \<exists>p. fst e = CConWrite p" env p] unfolding ensures_def by (auto elim!: does_mono)
  then obtain new where "snd (run_state (uwrite_ptr env p) es) = es @ new" "list_all (\<lambda>e. \<exists>p. fst e = CConWrite p) new"
    unfolding does_def by blast
  then show ?thesis by (simp add: replies_def last_sent_writes)
qed

lemma replies_send [simp]: "replies (es @ [(CSend 0 m, r)]) = m"
  by (simp add: replies_def)

section \<open>Files\<close>

abbreviation bin_path :: "u8 list \<Rightarrow> u8 list" where
  "bin_path name \<equiv> bytes ''/bin/'' @ name @ bytes ''.app''"

definition image_names :: "u8 list list" where
  "image_names = map bytes [''hello'', ''counter'', ''fault_demo'', ''invalid_bad_magic'', ''invalid_bad_cap'', ''invalid_bad_checksum'']"

lemma bytes_append: "bytes (s @ t) = bytes s @ bytes t"
  by (simp add: bytes_def)

lemma bytes_empty [simp]: "bytes s = [] \<longleftrightarrow> s = []" "[] = bytes s \<longleftrightarrow> s = []"
  by (auto simp: bytes_def)

lemma bin_path_eq: "bin_path name = bytes (''/bin/'' @ s @ ''.app'') \<longleftrightarrow> name = bytes s"
  by (simp only: bytes_append append_same_eq same_append_eq)

lemma bin_path_cases:
  assumes "name \<notin> set image_names"
  shows "fs_cat env (bin_path name) = fs_reply env (bytes ''ERR not_found'')"
proof -
  have "bin_path name \<noteq> bytes ''/bin/hello.app''" "bin_path name \<noteq> bytes ''/bin/counter.app''"
    "bin_path name \<noteq> bytes ''/bin/fault_demo.app''" "bin_path name \<noteq> bytes ''/bin/invalid_bad_magic.app''"
    "bin_path name \<noteq> bytes ''/bin/invalid_bad_cap.app''" "bin_path name \<noteq> bytes ''/bin/invalid_bad_checksum.app''"
    using assms bin_path_eq [of name "''hello''"] bin_path_eq [of name "''counter''"] bin_path_eq [of name "''fault_demo''"]
      bin_path_eq [of name "''invalid_bad_magic''"] bin_path_eq [of name "''invalid_bad_cap''"]
      bin_path_eq [of name "''invalid_bad_checksum''"]
    by (simp_all add: image_names_def)
  moreover have "bin_path name \<noteq> bytes (CHR ''/'' # c # s)" if "c \<noteq> CHR ''b''" for c s
  proof
    assume "bin_path name = bytes (CHR ''/'' # c # s)"
    then have "take 2 (bin_path name) = bytes [CHR ''/'', c]" by (simp add: take_bytes)
    moreover have "take 2 (bin_path name) = bytes ''/b''" by (simp add: take_bytes numeral_eq_Suc)
    ultimately show False using that by simp
  qed
  ultimately show ?thesis by (simp add: fs_cat_def eqs_eq)
qed

lemma fs_answer_other:
  assumes "name \<notin> set image_names" and "length name \<le> 27"
  shows "fs_answer (bytes ''CAT /bin/'' @ name @ bytes ''.app'') = bytes ''ERR not_found''"
proof -
  let ?req = "bytes ''CAT /bin/'' @ name @ bytes ''.app''"
  have req: "?req = bytes ''CAT '' @ bin_path name" by (simp add: bytes_def)
  have "fs_serve env ?req = fs_reply env (bytes ''ERR not_found'')" for env
    unfolding fs_serve_def using bin_path_cases [OF assms(1)] by (simp add: req take_bytes)
  then show ?thesis using assms(2)
    by (simp add: fs_answer_def fs_step_def run_simps server_env_def answer_def message_def fs_reply_def replies_def Let_def)
qed

section \<open>Loading\<close>

lemma fetch_result:
  assumes "name \<noteq> []" and "length name \<le> 27" and "fs_answer (bytes ''CAT /bin/'' @ name @ bytes ''.app'') = m" and "length m \<le> 64"
  shows "fst (run_state (ld_fetch (server_env (\<lambda>_. fs_answer) req) name) es) =
    (if m = [] \<or> has_prefix m ''ERR'' then (- 1, []) else (int (length m), m))"
    and "replies (snd (run_state (ld_fetch (server_env (\<lambda>_. fs_answer) req) name) es)) = replies es"
  using assms
  by (simp_all add: ld_fetch_def ld_append_def copy_upto_eq run_simps Let_def server_env_def answer_def message_def replies_def min_def)

lemma fs_images:
  "fs_answer (bytes ''CAT /bin/'' @ bytes ''hello'' @ bytes ''.app'') = bytes ''AXAPP1 hello 0 4096 4096 1 console 8192 0a6d''"
  "fs_answer (bytes ''CAT /bin/'' @ bytes ''counter'' @ bytes ''.app'') = bytes ''AXAPP1 counter 0 4096 4096 1 console 8192 0b59''"
  "fs_answer (bytes ''CAT /bin/'' @ bytes ''fault_demo'' @ bytes ''.app'') = bytes ''AXAPP1 fault_demo 0 4096 4096 1 none 8192 0b36''"
  "fs_answer (bytes ''CAT /bin/'' @ bytes ''invalid_bad_magic'' @ bytes ''.app'')
     = bytes ''BXAPP1 invalid_bad_magic 0 4096 4096 1 none 8192 0000''"
  "fs_answer (bytes ''CAT /bin/'' @ bytes ''invalid_bad_cap'' @ bytes ''.app'')
     = bytes ''AXAPP1 invalid_bad_cap 0 4096 4096 1 mmio 8192 0d18''"
  "fs_answer (bytes ''CAT /bin/'' @ bytes ''invalid_bad_checksum'' @ bytes ''.app'')
     = bytes ''AXAPP1 invalid_bad_checksum 0 4096 4096 1 none 8192 0000''"
  by code_simp+

lemma image_codes:
  "ld_validate (bytes ''AXAPP1 hello 0 4096 4096 1 console 8192 0a6d'') (bytes ''hello'') = 0"
  "ld_validate (bytes ''AXAPP1 counter 0 4096 4096 1 console 8192 0b59'') (bytes ''counter'') = 0"
  "ld_validate (bytes ''AXAPP1 fault_demo 0 4096 4096 1 none 8192 0b36'') (bytes ''fault_demo'') = 0"
  "ld_validate (bytes ''BXAPP1 invalid_bad_magic 0 4096 4096 1 none 8192 0000'') (bytes ''invalid_bad_magic'') = 1"
  "ld_validate (bytes ''AXAPP1 invalid_bad_cap 0 4096 4096 1 mmio 8192 0d18'') (bytes ''invalid_bad_cap'') = 3"
  "ld_validate (bytes ''AXAPP1 invalid_bad_checksum 0 4096 4096 1 none 8192 0000'') (bytes ''invalid_bad_checksum'') = 2"
  by code_simp+

text \<open>What a request to load an application is specified to do.\<close>

definition load_outcome :: "app_states \<Rightarrow> u8 list \<Rightarrow> u8 list \<times> app_states" where
  "load_outcome st name =
     (let i = unat (ld_app_id name) in
      if name \<in> set app_names then
        if st ! i = 0 then (bytes ''OK loaded '' @ name, st[i := 1]) else (bytes ''ERR already_loaded'', st)
      else if name = bytes ''invalid_bad_magic'' then (bytes ''ERR bad_image'', st)
      else if name = bytes ''invalid_bad_cap'' then (bytes ''ERR denied_capability'', st)
      else if name = bytes ''invalid_bad_checksum'' then (bytes ''ERR bad_checksum'', st)
      else (bytes ''ERR not_found'', st))"

definition load_answer :: "u8 list \<Rightarrow> app_states \<Rightarrow> u8 list \<Rightarrow> u8 list \<times> app_states" where
  "load_answer req st name =
     (let (st', es) = run_state (ld_load (server_env (\<lambda>_. fs_answer) req) name st)
        [(CRecv 0 64, answer 64 req)] in (replies es, st'))"

lemma load_answer_eq:
  assumes "name \<noteq> []" and "length name \<le> 27" and "fs_answer (bytes ''CAT /bin/'' @ name @ bytes ''.app'') = m"
    and "length m \<le> 64" and "m \<noteq> []" and "ld_app_id name = i" and "i = - 1 \<or> st ! unat i = 0"
  shows "load_answer req st name =
    (if has_prefix m ''ERR'' \<or> ld_validate m name = 5 then (bytes ''ERR not_found'', st)
     else if ld_validate m name = 0 then (bytes ''OK loaded '' @ name, st[unat i := 1])
     else if ld_validate m name = 1 then (bytes ''ERR bad_image'', st)
     else if ld_validate m name = 2 then (bytes ''ERR bad_checksum'', st)
     else if ld_validate m name = 3 then (bytes ''ERR denied_capability'', st)
     else (bytes ''ERR malformed'', st))"
proof -
  have "\<not> (i \<noteq> - 1 \<and> st ! unat i \<noteq> 0)" using assms(7) by blast
  then show ?thesis using assms(2,5)
    unfolding load_answer_def ld_load_def Let_def assms(6)
    by (simp only: if_False run_bind fetch_result [OF assms(1-4)])
      (simp add: run_simps Let_def split_beta app_reply_def ld_emit_reject_def ld_reject_def
      ld_reply_name_def ld_append_def copy_upto_eq fetch_result [OF assms(1-4)])
qed

lemma load_not_found:
  assumes "name = [] \<or> length name > 27"
  shows "load_answer req st name = (bytes ''ERR not_found'', st)"
proof -
  have "name \<notin> set app_names" using assms by (auto simp: app_names_def)
  then have "ld_app_id name = - 1" by (simp add: ld_app_id_def app_names_def)
  then show ?thesis using assms
    by (auto simp: load_answer_def ld_load_def ld_fetch_def run_simps app_reply_def replies_def)
qed

lemma load_answer_outcome: "load_answer req st name = load_outcome st name"
proof -
  consider (short) "name = [] \<or> length name > 27" | (known) "name \<in> set app_names" | (bad) "name \<in> set image_names" "name \<notin> set app_names"
    | (other) "name \<noteq> []" "length name \<le> 27" "name \<notin> set image_names" by fastforce
  then show ?thesis
  proof cases
    case short
    then have "name \<notin> set image_names" by (auto simp: image_names_def)
    then show ?thesis unfolding load_not_found [OF short]
      by (simp add: load_outcome_def app_names_def image_names_def)
  next
    case known
    show ?thesis
    proof (cases "st ! unat (ld_app_id name) = 0")
      case True
      show ?thesis using known load_answer_eq [OF _ _ refl _ _ refl disjI2 [OF True], of req] True
        by (auto simp: app_names_def load_outcome_def fs_images image_codes take_bytes)
    next
      case False
      have "ld_app_id name \<noteq> - 1" using known by (auto simp: app_names_def ld_app_id_def)
      then show ?thesis using False known
        by (simp add: load_answer_def ld_load_def run_simps app_reply_def replies_def load_outcome_def)
    qed
  next
    case bad
    then show ?thesis using load_answer_eq [of name _ "- 1" st req]
      by (auto simp: image_names_def app_names_def load_outcome_def fs_images image_codes ld_app_id_def take_bytes)
  next
    case other
    then have "ld_app_id name = - 1" "name \<notin> set app_names" by (auto simp: image_names_def app_names_def ld_app_id_def)
    then show ?thesis using other load_answer_eq [OF other(1,2) fs_answer_other [OF other(3,2)], of "- 1"]
      by (simp add: take_bytes load_outcome_def image_names_def)
  qed
qed

text \<open>C14. Loading, end to end: with the file system and the storage service answering as their
  code does, the loader's answer to \<open>APP_LOAD name\<close> and its new table are a function of the
  name and of its table. The three shipped applications are loaded when they are not loaded yet, each of
  the three invalid images is rejected for its own reason, and every other name is not found, in every
  case without touching any other entry. A request of more than 64 bytes is dropped by the kernel, and the
  loader neither answers nor changes its table.\<close>

theorem loading_end_to_end:
  "loader_answer st (bytes ''APP_LOAD '' @ name) = (if length name \<le> 55 then load_outcome st name else ([], st))"
proof -
  let ?req = "bytes ''APP_LOAD '' @ name"
  let ?r = "(answer 64 ?req)\<lparr>r_buf := take 64 (r_buf (answer 64 ?req))\<rparr>"
  have e: "run_state (sys (server_env (\<lambda>_. fs_answer) ?req) (CRecv 0 64)) [] = (?r, [(CRecv 0 64, ?r)])"
    by (simp add: run_sys server_env_def Let_def)
  show ?thesis
  proof (cases "length name \<le> 55")
    case True
    then have f: "?r = answer 64 ?req" and m: "message (answer 64 ?req) = ?req" and p: "\<not> r_ret (answer 64 ?req) \<le> 0"
      by (simp_all add: answer_fits message_def)
    have "loader_answer st ?req = load_answer ?req st name"
      unfolding loader_answer_def load_answer_def loader_step_def run_bind e f fst_conv snd_conv Let_def m if_not_P [OF p]
      by (simp add: take_bytes bytes_prefix)
    then show ?thesis using True by (simp add: load_answer_outcome)
  next
    case False
    then have "r_ret ?r \<le> 0" by (simp add: answer_def)
    then show ?thesis using False
      unfolding loader_answer_def loader_step_def run_bind e fst_conv snd_conv Let_def
      by (simp add: run_return replies_def)
  qed
qed

text \<open>Block 1 of the image is not the text of \<open>/etc/version\<close>, and blocks 4 to 6 are not reserved.\<close>

lemma image_blocks:
  "storage_answer (bytes ''READ block=1'') = bytes ''OK data=AxiomRT v1.6-storage-backed-loader eval stage''"
  "fs_answer (bytes ''CAT /etc/version'') = bytes ''OK AxiomRT v1.6-storage-backed-loader RISC-V 64 eval stage''"
  "storage_answer (bytes ''READ block=4'') = bytes ''OK data=AXAPP1 hello 0 4096 4096 1 console 8192 0a6d''"
  by code_simp+

end
