(* ===== verification/Event_Log.thy ===== *)
theory Event_Log
  imports Monitor "HOL-Library.Monad_Syntax"
begin

text \<open>
  The serial event parser and JSON export of the host tools (\<open>tools/axiomctl/src/events.rs\<close>). A
  Rust \<open>str\<close> is a list of Unicode scalar values; \<open>lit\<close> is the text of an ASCII literal. The \<open>str\<close>
  methods the source uses are written out first.
\<close>

type_synonym ustr = "nat list"

definition lit :: "string \<Rightarrow> ustr" where
  "lit s = map of_char s"

section \<open>Methods of str\<close>

definition is_whitespace :: "nat \<Rightarrow> bool" where
  "is_whitespace c \<longleftrightarrow> (9 \<le> c \<and> c \<le> 13) \<or> c = 32 \<or> c = 0x85 \<or> c = 0xA0 \<or> c = 0x1680 \<or> (0x2000 \<le> c \<and> c \<le> 0x200A)
     \<or> c = 0x2028 \<or> c = 0x2029 \<or> c = 0x202F \<or> c = 0x205F \<or> c = 0x3000"

definition trim_end :: "ustr \<Rightarrow> ustr" where
  "trim_end s = rev (dropWhile is_whitespace (rev s))"

definition trim :: "ustr \<Rightarrow> ustr" where
  "trim s = trim_end (dropWhile is_whitespace s)"

fun split_ws :: "ustr \<Rightarrow> ustr \<Rightarrow> ustr list" where
  "split_ws cur [] = (if cur = [] then [] else [cur])"
| "split_ws cur (c # s) =
     (if is_whitespace c then (if cur = [] then split_ws [] s else cur # split_ws [] s)
      else split_ws (cur @ [c]) s)"

definition split_whitespace :: "ustr \<Rightarrow> ustr list" where
  "split_whitespace s = split_ws [] s"

fun split_once :: "nat \<Rightarrow> ustr \<Rightarrow> (ustr \<times> ustr) option" where
  "split_once d [] = None"
| "split_once d (c # s) =
     (if c = d then Some ([], s)
      else case split_once d s of None \<Rightarrow> None | Some (a, b) \<Rightarrow> Some (c # a, b))"

fun contains :: "ustr \<Rightarrow> ustr \<Rightarrow> bool" where
  "contains [] p \<longleftrightarrow> p = []"
| "contains (c # s) p \<longleftrightarrow> take (length p) (c # s) = p \<or> contains s p"

text \<open>\<open>lines\<close>: a line ends with \<open>\n\<close> or \<open>\r\n\<close>; the last one may lack its end.\<close>

definition strip_cr :: "ustr \<Rightarrow> ustr" where
  "strip_cr s = (if s \<noteq> [] \<and> last s = 13 then butlast s else s)"

fun str_lines :: "ustr \<Rightarrow> ustr \<Rightarrow> ustr list" where
  "str_lines cur [] = (if cur = [] then [] else [cur])"
| "str_lines cur (c # s) = (if c = 10 then strip_cr cur # str_lines [] s else str_lines (cur @ [c]) s)"

section \<open>Categories\<close>

datatype category = CTask | CScheduler | CSyscall | CIpc | CCapability | CFault | CWatchdog | CRecovery
  | CTimer | CService | CBoot | CDriver | CNetwork | CLoader

fun category_name :: "category \<Rightarrow> ustr" where
  "category_name CTask = lit ''task''"
| "category_name CScheduler = lit ''scheduler''"
| "category_name CSyscall = lit ''syscall''"
| "category_name CIpc = lit ''ipc''"
| "category_name CCapability = lit ''capability''"
| "category_name CFault = lit ''fault''"
| "category_name CWatchdog = lit ''watchdog''"
| "category_name CRecovery = lit ''recovery''"
| "category_name CTimer = lit ''timer''"
| "category_name CService = lit ''service''"
| "category_name CBoot = lit ''boot''"
| "category_name CDriver = lit ''driver''"
| "category_name CNetwork = lit ''network''"
| "category_name CLoader = lit ''loader''"

record log_event =
  ev_seq :: nat
  ev_category :: category
  ev_kind :: ustr
  ev_flags :: "ustr list"
  ev_fields :: "(ustr \<times> ustr) list"
  ev_raw :: ustr

record parsed_log =
  pl_events :: "log_event list"
  pl_skipped :: nat

abbreviation among :: "ustr \<Rightarrow> string list \<Rightarrow> bool" where
  "among k ks \<equiv> k \<in> set (map lit ks)"

definition categorize :: "ustr \<Rightarrow> (ustr \<times> ustr) list \<Rightarrow> category option" where
  "categorize kind kvs =
     (if among kind [''TASK_STARTED'', ''TASK_EXITED'', ''TASK_FAULTED''] then Some CTask
      else if among kind [''SCHED''] then Some CScheduler
      else if among kind [''SYSCALL''] then Some CSyscall
      else if among kind [''IPC'', ''IPC_DENIED''] then Some CIpc
      else if among kind [''CAP_DENIED''] then Some CCapability
      else if among kind [''FAULT''] then
        if map_of kvs (lit ''type'') = Some (lit ''WatchdogTimeout'') then Some CWatchdog else Some CFault
      else if among kind [''PAGE_FAULT'', ''DEADLINE_MISSED'', ''CONTAIN''] then Some CFault
      else if among kind [''WATCHDOG_TIMEOUT''] then Some CWatchdog
      else if among kind [''RECOVERY_APPLIED''] then Some CRecovery
      else if among kind [''TIMER''] then Some CTimer
      else if among kind [''SUPERVISOR'', ''LOGGER''] then Some CService
      else if among kind [''MMU'', ''BOOT'', ''BOOT_INFO''] then Some CBoot
      else if among kind [''DEVICE'', ''DEVICE_DENIED'', ''MMIO'', ''MMIO_DENIED'', ''DMA'', ''DMA_DENIED'', ''IRQ'',
          ''IRQ_DENIED'', ''IRQ_DROPPED'', ''DRIVER'', ''DRIVER_MANAGER''] then Some CDriver
      else if among kind [''NET_DRIVER'', ''NET_SERVICE'', ''NET_TX'', ''NET_RX'', ''NET_DENIED''] then Some CNetwork
      else if among kind [''APP_IMAGE''] then Some CLoader
      else None)"

section \<open>Parsing\<close>

text \<open>The token loop of \<open>parse_line\<close>: a token with a non-empty key before its first \<open>=\<close> is a
  field, every other one a flag.\<close>

fun sort_tokens :: "ustr list \<Rightarrow> ustr list \<Rightarrow> (ustr \<times> ustr) list \<Rightarrow> ustr list \<times> (ustr \<times> ustr) list" where
  "sort_tokens [] flags kvs = (flags, kvs)"
| "sort_tokens (tok # rest) flags kvs =
     (case split_once 61 tok of
        Some (k, v) \<Rightarrow> if k \<noteq> [] then sort_tokens rest flags (kvs @ [(k, v)]) else sort_tokens rest (flags @ [tok]) kvs
      | None \<Rightarrow> sort_tokens rest (flags @ [tok]) kvs)"

text \<open>\<open>position\<close> and \<open>remove\<close> on the field list.\<close>

fun remove_key :: "ustr \<Rightarrow> (ustr \<times> ustr) list \<Rightarrow> (ustr \<times> (ustr \<times> ustr) list) option" where
  "remove_key k [] = None"
| "remove_key k ((n, v) # fs) =
     (if n = k then Some (v, fs) else case remove_key k fs of None \<Rightarrow> None | Some (w, fs') \<Rightarrow> Some (w, (n, v) # fs'))"

definition finish_line :: "ustr \<Rightarrow> ustr list \<Rightarrow> (ustr \<times> ustr) list \<Rightarrow> ustr \<Rightarrow> log_event option" where
  "finish_line kind flags kvs raw =
     (case categorize kind kvs of
        None \<Rightarrow> None
      | Some cat \<Rightarrow> Some \<lparr>ev_seq = 0, ev_category = cat, ev_kind = kind, ev_flags = flags, ev_fields = kvs, ev_raw = raw\<rparr>)"

definition parse_tokens :: "ustr \<Rightarrow> ustr list \<Rightarrow> ustr \<Rightarrow> log_event option" where
  "parse_tokens kind rest raw =
     (let (flags, kvs) = sort_tokens rest [] []
      in if kind = lit ''EVT''
         then case remove_key (lit ''type'') kvs of
             None \<Rightarrow> None
           | Some (k, kvs') \<Rightarrow> finish_line k flags kvs' raw
         else finish_line kind flags kvs raw)"

definition parse_line :: "ustr \<Rightarrow> log_event option" where
  "parse_line line =
     (let trimmed = trim_end line in
      if trim trimmed = [] then None
      else if trimmed = lit ''AxiomRT kernel booted'' then
        Some \<lparr>ev_seq = 0, ev_category = CBoot, ev_kind = lit ''BOOT'', ev_flags = [], ev_fields = [], ev_raw = trimmed\<rparr>
      else case split_whitespace trimmed of
          [] \<Rightarrow> None
        | first # tokens \<Rightarrow>
            (case split_once 61 first of
               Some (k, v) \<Rightarrow>
                 if k = [] \<or> v = [] then None else parse_tokens (lit ''BOOT_INFO'') (first # tokens) trimmed
             | None \<Rightarrow> parse_tokens first tokens trimmed))"

definition log_step :: "parsed_log \<Rightarrow> ustr \<Rightarrow> parsed_log" where
  "log_step out line =
     (case parse_line line of
        Some ev \<Rightarrow> out\<lparr>pl_events := pl_events out @ [ev\<lparr>ev_seq := length (pl_events out) + 1\<rparr>]\<rparr>
      | None \<Rightarrow> if trim line \<noteq> [] then out\<lparr>pl_skipped := pl_skipped out + 1\<rparr> else out)"

definition parse_log :: "ustr \<Rightarrow> parsed_log" where
  "parse_log text = foldl log_step \<lparr>pl_events = [], pl_skipped = 0\<rparr> (str_lines [] text)"

section \<open>JSON export\<close>

definition hex_nibble :: "nat \<Rightarrow> nat" where
  "hex_nibble d = (if d < 10 then 48 + d else 87 + d)"

definition json_char :: "nat \<Rightarrow> ustr" where
  "json_char c =
     (if c = 34 then [92, 34]
      else if c = 92 then [92, 92]
      else if c = 10 then [92, 110]
      else if c = 13 then [92, 114]
      else if c = 9 then [92, 116]
      else if c < 0x20 then [92, 117, 48, 48, hex_nibble (c div 16), hex_nibble (c mod 16)]
      else [c])"

definition json_escape :: "ustr \<Rightarrow> ustr" where
  "json_escape s = concat (map json_char s)"

fun join :: "ustr \<Rightarrow> ustr list \<Rightarrow> ustr" where
  "join sep [] = []"
| "join sep [x] = x"
| "join sep (x # xs) = x @ sep @ join sep xs"

abbreviation quoted :: "ustr \<Rightarrow> ustr" where
  "quoted s \<equiv> 34 # json_escape s @ [34]"

definition json_field :: "ustr \<times> ustr \<Rightarrow> ustr" where
  "json_field f = quoted (fst f) @ 58 # quoted (snd f)"

text \<open>The pieces of the format string are written with the codes of their quotes: \<open>34\<close> a quote,
  \<open>123\<close> and \<open>125\<close> the braces.\<close>

abbreviation key :: "string \<Rightarrow> ustr" where
  "key k \<equiv> 34 # lit k @ [34, 58]"

definition to_json :: "log_event \<Rightarrow> ustr" where
  "to_json ev =
     123 # key ''seq'' @ lit (dec_string (ev_seq ev)) @ 44 #
     key ''category'' @ 34 # category_name (ev_category ev) @ [34, 44] @
     key ''kind'' @ quoted (ev_kind ev) @ 44 #
     key ''flags'' @ 91 # join [44] (map quoted (ev_flags ev)) @ [93, 44] @
     key ''fields'' @ 123 # join [44] (map json_field (ev_fields ev)) @ [125, 44] @
     key ''raw'' @ quoted (ev_raw ev) @ [125]"

section \<open>Summary\<close>

definition pad_right :: "nat \<Rightarrow> ustr \<Rightarrow> ustr" where
  "pad_right w s = s @ replicate (w - length s) 32"

definition pad_left :: "nat \<Rightarrow> ustr \<Rightarrow> ustr" where
  "pad_left w s = replicate (w - length s) 32 @ s"

fun bump :: "'k \<Rightarrow> ('k \<times> nat) list \<Rightarrow> ('k \<times> nat) list" where
  "bump k [] = [(k, 1)]"
| "bump k ((k', n) # kinds) = (if k' = k then (k', n + 1) # kinds else (k', n) # bump k kinds)"

definition kind_counts :: "log_event list \<Rightarrow> (ustr \<times> nat) list" where
  "kind_counts evs = foldl (\<lambda>kinds ev. bump (ev_kind ev) kinds) [] evs"

definition SUMMARY_ORDER :: "category list" where
  "SUMMARY_ORDER = [CTask, CScheduler, CSyscall, CIpc, CCapability, CFault, CWatchdog, CRecovery, CTimer, CService,
     CBoot, CDriver, CLoader, CNetwork]"

definition summary_row :: "parsed_log \<Rightarrow> category \<Rightarrow> ustr" where
  "summary_row log cat =
     (let of_cat = filter (\<lambda>e. ev_category e = cat) (pl_events log) in
      if of_cat = [] then []
      else let detail = join (lit '', '') (map (\<lambda>(k, n). k @ lit '' x'' @ lit (dec_string n)) (kind_counts of_cat))
        in lit ''  '' @ pad_right 10 (category_name cat) @ lit '' '' @ pad_left 7 (lit (dec_string (length of_cat)))
           @ lit ''  ('' @ detail @ lit '')'' @ [10])"

definition summary :: "parsed_log \<Rightarrow> ustr" where
  "summary log =
     lit ''events: '' @ lit (dec_string (length (pl_events log))) @ lit '' parsed, '' @ lit (dec_string (pl_skipped log))
     @ lit '' non-event lines skipped'' @ [10] @ concat (map (summary_row log) SUMMARY_ORDER)"

section \<open>Reading the export back\<close>

text \<open>A reader of the exported objects, by the grammar of RFC 8259: strings with their escapes, one
  decimal number, arrays and objects of strings.\<close>

definition of_hex :: "nat \<Rightarrow> nat option" where
  "of_hex c = (if 48 \<le> c \<and> c \<le> 57 then Some (c - 48) else if 97 \<le> c \<and> c \<le> 102 then Some (c - 87) else None)"

fun unescape :: "ustr \<Rightarrow> (nat \<times> ustr) option" where
  "unescape (e # s) =
     (if e = 34 \<or> e = 92 \<or> e = 47 then Some (e, s)
      else if e = 110 then Some (10, s)
      else if e = 114 then Some (13, s)
      else if e = 116 then Some (9, s)
      else if e = 117 then
        case s of
          a # b # c # d # s' \<Rightarrow>
            (case (of_hex a, of_hex b, of_hex c, of_hex d) of
               (Some a, Some b, Some c, Some d) \<Rightarrow> Some (a * 4096 + b * 256 + c * 16 + d, s')
             | _ \<Rightarrow> None)
        | _ \<Rightarrow> None
      else None)"
| "unescape [] = None"

lemma unescape_shorter: "unescape s = Some (c, s') \<Longrightarrow> length s' < length s"
  by (cases s) (auto split: if_splits list.splits option.splits)

text \<open>The rest of a string after its opening quote.\<close>

function json_string :: "ustr \<Rightarrow> (ustr \<times> ustr) option" where
  "json_string s =
     (case s of
        [] \<Rightarrow> None
      | c # s' \<Rightarrow>
          if c = 34 then Some ([], s')
          else if c < 32 then None
          else case (if c = 92 then unescape s' else Some (c, s')) of
              None \<Rightarrow> None
            | Some (d, r) \<Rightarrow> (case json_string r of None \<Rightarrow> None | Some (t, r') \<Rightarrow> Some (d # t, r')))"
  by pat_completeness auto
termination by (relation "measure length") (auto split: if_splits dest!: unescape_shorter)

declare json_string.simps [simp del]

definition expect_text :: "ustr \<Rightarrow> ustr \<Rightarrow> ustr option" where
  "expect_text p s = (if take (length p) s = p then Some (drop (length p) s) else None)"

fun read_dec :: "nat \<Rightarrow> ustr \<Rightarrow> nat \<times> ustr" where
  "read_dec v (c # s) = (if 48 \<le> c \<and> c \<le> 57 then read_dec (v * 10 + (c - 48)) s else (v, c # s))"
| "read_dec v [] = (v, [])"

definition str_item :: "ustr \<Rightarrow> (ustr \<times> ustr) option" where
  "str_item s = do { s \<leftarrow> expect_text [34] s; json_string s }"

definition field_item :: "ustr \<Rightarrow> ((ustr \<times> ustr) \<times> ustr) option" where
  "field_item s = do { (k, s) \<leftarrow> str_item s; s \<leftarrow> expect_text [58] s; (v, s) \<leftarrow> str_item s; Some ((k, v), s) }"

text \<open>Items separated by commas up to the closing bracket; there are no more items than characters.\<close>

fun read_items :: "nat \<Rightarrow> (ustr \<Rightarrow> ('a \<times> ustr) option) \<Rightarrow> nat \<Rightarrow> ustr \<Rightarrow> ('a list \<times> ustr) option" where
  "read_items 0 item close s = None"
| "read_items (Suc n) item close s =
     (case item s of
        Some (x, c # r) \<Rightarrow>
          if c = close then Some ([x], r)
          else if c = 44 then map_option (\<lambda>(xs, r). (x # xs, r)) (read_items n item close r)
          else None
      | _ \<Rightarrow> None)"

definition read_list :: "(ustr \<Rightarrow> ('a \<times> ustr) option) \<Rightarrow> nat \<Rightarrow> ustr \<Rightarrow> ('a list \<times> ustr) option" where
  "read_list item close s =
     (case expect_text [close] s of Some r \<Rightarrow> Some ([], r) | None \<Rightarrow> read_items (length s) item close s)"

definition read_category :: "ustr \<Rightarrow> category option" where
  "read_category c = find (\<lambda>k. category_name k = c) SUMMARY_ORDER"

definition json_event :: "ustr \<Rightarrow> (log_event \<times> ustr) option" where
  "json_event s = do {
     s \<leftarrow> expect_text (123 # key ''seq'') s;
     let (n, s) = read_dec 0 s;
     s \<leftarrow> expect_text (44 # key ''category'') s;
     (c, s) \<leftarrow> str_item s;
     cat \<leftarrow> read_category c;
     s \<leftarrow> expect_text (44 # key ''kind'') s;
     (kind, s) \<leftarrow> str_item s;
     s \<leftarrow> expect_text (44 # key ''flags'' @ [91]) s;
     (flags, s) \<leftarrow> read_list str_item 93 s;
     s \<leftarrow> expect_text (44 # key ''fields'' @ [123]) s;
     (kvs, s) \<leftarrow> read_list field_item 125 s;
     s \<leftarrow> expect_text (44 # key ''raw'') s;
     (raw, s) \<leftarrow> str_item s;
     s \<leftarrow> expect_text [125] s;
     Some (\<lparr>ev_seq = n, ev_category = cat, ev_kind = kind, ev_flags = flags, ev_fields = kvs, ev_raw = raw\<rparr>, s)
   }"

section \<open>The string level\<close>

lemma json_string_char: "json_string (json_char c @ s) = map_option (\<lambda>(t, r). (c # t, r)) (json_string s)"
proof -
  have n: "of_hex (hex_nibble d) = Some d" if "d < 16" for d
    using that by (auto simp: of_hex_def hex_nibble_def)
  have z: "of_hex 48 = Some 0" by (simp add: of_hex_def)
  have "c < 32 \<Longrightarrow> c div 16 * 16 + c mod 16 = c" "c < 32 \<Longrightarrow> c div 16 < 16" by (simp_all add: div_less_iff_less_mult)
  then show ?thesis
    by (subst json_string.simps) (auto simp: json_char_def n z split: option.splits)
qed

lemma json_string_escape: "json_string (json_escape s @ 34 # r) = Some (s, r)"
proof (induction s)
  case Nil
  then show ?case by (subst json_string.simps) (simp add: json_escape_def)
next
  case (Cons c s)
  have "json_escape (c # s) @ 34 # r = json_char c @ (json_escape s @ 34 # r)" by (simp add: json_escape_def)
  then show ?case using Cons.IH by (simp only: json_string_char) simp
qed

lemma json_escape_printable: "list_all (\<lambda>c. 32 \<le> c) (json_escape s)"
proof -
  have "list_all (\<lambda>c. 32 \<le> c) (json_char c)" for c by (auto simp: json_char_def hex_nibble_def)
  then show ?thesis by (auto simp: json_escape_def list_all_iff)
qed

section \<open>The object level\<close>

lemma expect_prefix [simp]: "expect_text p (p @ s) = Some s"
  by (simp add: expect_text_def)

lemma str_item_quoted: "str_item (quoted x @ r) = Some (x, r)"
  using json_string_escape [of x r] by (simp add: str_item_def expect_text_def)

lemma field_item_field: "field_item (json_field f @ r) = Some (f, r)"
proof -
  have "json_field f @ r = quoted (fst f) @ 58 # quoted (snd f) @ r" by (simp add: json_field_def)
  then show ?thesis unfolding field_item_def
    by (simp only: str_item_quoted Option.bind.simps prod.case) (simp add: expect_text_def str_item_quoted [simplified])
qed

text \<open>A codec: reading what was written gives the value back and leaves the rest. The elements of a
  list are written by a codec whose texts are not empty and do not start with the closing bracket.\<close>

locale codec =
  fixes enc :: "'a \<Rightarrow> ustr" and dec :: "ustr \<Rightarrow> ('a \<times> ustr) option"
  assumes dec_enc: "dec (enc x @ r) = Some (x, r)"
begin

lemma enc_inject: "enc x = enc y \<longleftrightarrow> x = y"
  by (metis dec_enc option.inject prod.inject)

end

locale item_codec = codec +
  fixes close :: nat
  assumes close_not_comma: "close \<noteq> 44" and starts: "enc x \<noteq> [] \<and> hd (enc x) \<noteq> close"
begin

lemma read_items_join:
  "xs \<noteq> [] \<Longrightarrow> length xs \<le> n \<Longrightarrow> read_items n dec close (join [44] (map enc xs) @ close # r) = Some (xs, r)"
proof (induction xs arbitrary: n)
  case (Cons x xs)
  then obtain m where n: "n = Suc m" by (cases n) simp_all
  show ?case
  proof (cases xs)
    case Nil
    then show ?thesis by (simp add: n dec_enc)
  next
    case (Cons y ys)
    have "read_items m dec close (join [44] (map enc xs) @ close # r) = Some (xs, r)"
      using Cons Cons.IH [of m] Cons.prems n by simp
    moreover have "join [44] (map enc (x # xs)) @ close # r = enc x @ 44 # join [44] (map enc xs) @ close # r"
      using Cons by simp
    ultimately show ?thesis using dec_enc close_not_comma by (simp add: n)
  qed
qed simp

lemma length_join: "length xs \<le> length (join [44] (map enc xs))"
proof (induction xs)
  case (Cons x xs)
  have "0 < length (enc x)" using starts by simp
  then show ?case using Cons by (cases xs) (simp_all add: Suc_le_eq)
qed simp

lemma read_list_join: "read_list dec close (join [44] (map enc xs) @ close # r) = Some (xs, r)"
proof (cases xs)
  case Nil
  then show ?thesis by (simp add: read_list_def expect_text_def)
next
  case (Cons x ys)
  have "join [44] (map enc xs) \<noteq> []" "hd (join [44] (map enc xs)) = hd (enc x)"
    using Cons starts [of x] by (cases ys; simp)+
  then have "expect_text [close] (join [44] (map enc xs) @ close # r) = None"
    using starts [of x] by (cases "join [44] (map enc xs)") (simp_all add: expect_text_def)
  moreover have "length xs \<le> length (join [44] (map enc xs) @ close # r)"
    using length_join [of xs] by (simp add: le_SucI trans_le_add1)
  then have "read_items (length (join [44] (map enc xs) @ close # r)) dec close (join [44] (map enc xs) @ close # r) = Some (xs, r)"
    using read_items_join Cons by blast
  ultimately show ?thesis by (simp only: read_list_def option.case)
qed

end

interpretation str_codec: item_codec quoted str_item 93
  by unfold_locales (simp_all add: str_item_quoted [simplified])

interpretation field_codec: item_codec json_field field_item 125
  by unfold_locales (simp_all add: field_item_field, simp_all add: json_field_def)

lemma read_dec_string: "read_dec v (lit (dec_string n) @ s) = read_dec (v * 10 ^ length (dec_string n) + n) s"
proof (induction n arbitrary: v s rule: dec_string.induct)
  case (1 n)
  have d: "of_char (digit_char k) = 48 + k" if "k < 10" for k :: nat
    using that by (simp add: digit_char_def)
  show ?case
  proof (cases "n < 10")
    case True
    then show ?thesis by (simp add: dec_string.simps [of n] lit_def d)
  next
    case False
    have m: "n mod 10 \<le> 9" using mod_less_divisor [of 10 n] by linarith
    have "read_dec v (lit (dec_string n) @ s) = read_dec v (lit (dec_string (n div 10)) @ (48 + n mod 10) # s)"
      using False by (simp add: dec_string.simps [of n] lit_def d)
    also have "\<dots> = read_dec ((v * 10 ^ length (dec_string (n div 10)) + n div 10) * 10 + n mod 10) s"
      using 1 [OF False] m by (simp del: div_eq_0_iff)
    also have "(v * 10 ^ length (dec_string (n div 10)) + n div 10) * 10 + n mod 10 = v * 10 ^ length (dec_string n) + n"
      using False by (simp add: dec_string.simps [of n] algebra_simps)
    finally show ?thesis .
  qed
qed

lemma category_round_trip:
  "str_item (34 # category_name c @ 34 # r) = Some (category_name c, r)" "read_category (category_name c) = Some c"
proof -
  have "json_escape (category_name c) = category_name c"
    by (cases c) (simp_all add: lit_def json_escape_def json_char_def)
  then show "str_item (34 # category_name c @ 34 # r) = Some (category_name c, r)"
    using str_item_quoted [of "category_name c" r] by simp
  show "read_category (category_name c) = Some c" by (cases c) (simp_all add: read_category_def SUMMARY_ORDER_def lit_def)
qed

lemma to_json_split:
  "to_json ev @ r =
     (123 # key ''seq'') @ lit (dec_string (ev_seq ev)) @ (44 # key ''category'') @ 34 # category_name (ev_category ev) @ 34 #
     (44 # key ''kind'') @ quoted (ev_kind ev) @ (44 # key ''flags'' @ [91]) @ join [44] (map quoted (ev_flags ev)) @ 93 #
     (44 # key ''fields'' @ [123]) @ join [44] (map json_field (ev_fields ev)) @ 125 #
     (44 # key ''raw'') @ quoted (ev_raw ev) @ [125] @ r"
  by (simp add: to_json_def)

lemma json_round_trip: "json_event (to_json ev @ r) = Some (ev, r)"
proof -
  have n: "read_dec 0 (lit (dec_string k) @ (44 # p) @ s) = (k, (44 # p) @ s)" for k p s
    using read_dec_string [of 0 k "44 # p @ s"] by simp
  show ?thesis unfolding to_json_split json_event_def
    by (simp only: expect_prefix Option.bind.simps n prod.case category_round_trip str_item_quoted str_codec.read_list_join
      field_codec.read_list_join Let_def) simp
qed

interpretation event_codec: codec to_json json_event
  by unfold_locales (rule json_round_trip)

lemma printable_join: "list_all (list_all P) xs \<Longrightarrow> list_all P sep \<Longrightarrow> list_all P (join sep xs)"
  by (induction sep xs rule: join.induct) auto

lemma printable_dec: "list_all (\<lambda>c. 32 \<le> c) (lit (dec_string n))"
proof (induction n rule: dec_string.induct)
  case (1 n)
  have d: "of_char (digit_char k) = 48 + k" if "k < 10" for k :: nat
    using that by (simp add: digit_char_def)
  show ?case using 1 by (subst dec_string.simps) (simp add: lit_def d)
qed

lemma to_json_one_line: "list_all (\<lambda>c. 32 \<le> c) (to_json ev)"
proof -
  have "list_all (\<lambda>c. 32 \<le> c) (category_name c)" for c by (cases c) (simp_all add: lit_def)
  moreover have "list_all (\<lambda>c. 32 \<le> c) (join [44] (map quoted xs))" "list_all (\<lambda>c. 32 \<le> c) (join [44] (map json_field fs))" for xs fs
    using json_escape_printable by (simp_all add: printable_join list_all_iff [of _ "map _ _"] json_field_def)
  ultimately show ?thesis using json_escape_printable printable_dec by (simp add: to_json_def lit_def [of "_ # _"])
qed

text \<open>C22. The JSON export loses nothing: an exported event is one line without control characters
  (below \<open>U+0020\<close>), and a reader of JSON gets back its number, category, kind, flags, fields
  in order and raw line, whatever characters they contain, and stops exactly at its end.\<close>

theorem json_export_round_trip:
  "json_event (to_json ev @ rest) = Some (ev, rest) \<and> list_all (\<lambda>c. 32 \<le> c) (to_json ev)"
  by (intro conjI event_codec.dec_enc to_json_one_line)

section \<open>Logs\<close>

lemma log_fold:
  "foldl log_step out ls =
     out\<lparr>pl_events := pl_events out @ map (\<lambda>(i, ev). ev\<lparr>ev_seq := i\<rparr>)
           (enumerate (length (pl_events out) + 1) (List.map_filter parse_line ls)),
        pl_skipped := pl_skipped out + length (filter (\<lambda>l. parse_line l = None \<and> trim l \<noteq> []) ls)\<rparr>"
  by (induction ls arbitrary: out) (auto simp: log_step_def List.map_filter_simps split: option.splits)

lemma trim_end_blank: "trim_end s = [] \<longleftrightarrow> list_all is_whitespace s"
  by (simp add: trim_end_def dropWhile_eq_Nil_conv list_all_iff)

lemma dropWhile_all: "list_all P (dropWhile P s) \<longleftrightarrow> list_all P s"
  by (induction s) auto

lemma trim_blank: "trim s = [] \<longleftrightarrow> list_all is_whitespace s"
  by (simp add: trim_def trim_end_blank dropWhile_all)

lemma trim_end_all: "list_all is_whitespace (trim_end s) \<longleftrightarrow> list_all is_whitespace s"
  using dropWhile_all [of is_whitespace "rev s"] by (simp add: trim_end_def)

lemma parse_blank: "trim l = [] \<Longrightarrow> parse_line l = None"
  by (simp add: parse_line_def trim_blank trim_end_all)

lemma parse_raw: "parse_line l = Some ev \<Longrightarrow> ev_raw ev = trim_end l"
  by (auto simp: parse_line_def parse_tokens_def finish_line_def Let_def split: if_splits list.splits option.splits prod.splits)

lemma parse_seq: "parse_line l = Some ev \<Longrightarrow> ev_seq ev = 0"
  by (auto simp: parse_line_def parse_tokens_def finish_line_def Let_def split: if_splits list.splits option.splits prod.splits)

text \<open>C29. A whole log: the events are numbered from 1 in the order of their lines and each keeps
  its line, without trailing whitespace, as its raw text; every line that is not blank is either one event
  or counted as skipped, so nothing disappears.\<close>

theorem parse_log_accounts_for_every_line:
  "let ls = str_lines [] text; kept = filter (\<lambda>l. parse_line l \<noteq> None) ls; log = parse_log text
   in map ev_seq (pl_events log) = [1..<length kept + 1]
      \<and> map ev_raw (pl_events log) = map trim_end kept
      \<and> map (\<lambda>ev. ev\<lparr>ev_seq := 0\<rparr>) (pl_events log) = map (the \<circ> parse_line) kept
      \<and> length (pl_events log) + pl_skipped log = length (filter (\<lambda>l. trim l \<noteq> []) ls)"
proof -
  define ls where "ls = str_lines [] text"
  define kept where "kept = filter (\<lambda>l. parse_line l \<noteq> None) ls"
  have mf: "List.map_filter parse_line ls = map (the \<circ> parse_line) kept"
    unfolding kept_def by (simp add: List.map_filter_def o_def)
  have log: "pl_events (parse_log text) = map (\<lambda>(i, ev). ev\<lparr>ev_seq := i\<rparr>) (enumerate 1 (map (the \<circ> parse_line) kept))"
    "pl_skipped (parse_log text) = length (filter (\<lambda>l. parse_line l = None \<and> trim l \<noteq> []) ls)"
    unfolding parse_log_def log_fold ls_def [symmetric] mf by simp_all
  have "map ev_seq (pl_events (parse_log text)) = map fst (enumerate 1 (map (the \<circ> parse_line) kept))"
    unfolding log by (simp add: split_beta o_def)
  moreover have "map ev_raw (pl_events (parse_log text)) = map (ev_raw \<circ> snd) (enumerate 1 (map (the \<circ> parse_line) kept))"
    unfolding log by (simp add: split_beta o_def)
  moreover have "map (ev_raw \<circ> (the \<circ> parse_line)) kept = map trim_end kept"
    unfolding kept_def using parse_raw by auto
  moreover have "map (\<lambda>ev. ev\<lparr>ev_seq := 0\<rparr>) (map (the \<circ> parse_line) kept) = map (the \<circ> parse_line) kept"
    unfolding kept_def using parse_seq by auto
  moreover have "map (\<lambda>ev. ev\<lparr>ev_seq := 0\<rparr>) (pl_events (parse_log text)) =
      map (\<lambda>ev. ev\<lparr>ev_seq := 0\<rparr>) (map snd (enumerate 1 (map (the \<circ> parse_line) kept)))"
    unfolding log map_map by (rule map_cong) auto
  moreover have "length kept + length (filter (\<lambda>l. parse_line l = None \<and> trim l \<noteq> []) ls) = length (filter (\<lambda>l. trim l \<noteq> []) ls)"
    unfolding kept_def using parse_blank by (induction ls) auto
  ultimately show ?thesis unfolding Let_def ls_def [symmetric] kept_def [symmetric]
    using log by (simp add: map_map [symmetric] del: map_map)
qed

section \<open>Monitor lines\<close>

definition plain :: "ustr \<Rightarrow> bool" where
  "plain t \<longleftrightarrow> t \<noteq> [] \<and> list_all (\<lambda>c. \<not> is_whitespace c) t"

lemma space_ws: "is_whitespace 32"
  by (simp add: is_whitespace_def)

lemma ws_printable: "33 \<le> c \<Longrightarrow> c \<le> 126 \<Longrightarrow> \<not> is_whitespace c"
  by (auto simp: is_whitespace_def)

lemma split_ws_token: "list_all (\<lambda>c. \<not> is_whitespace c) t \<Longrightarrow> split_ws cur (t @ rest) = split_ws (cur @ t) rest"
  by (induction t arbitrary: cur) auto

lemma split_whitespace_join: "list_all plain ts \<Longrightarrow> split_whitespace (join [32] ts) = ts"
  unfolding split_whitespace_def
proof (induction "[32] :: ustr" ts rule: join.induct)
  case (2 x)
  then show ?case using split_ws_token [of x "[]" "[]"] by (simp add: plain_def)
next
  case (3 x y ys)
  then show ?case using split_ws_token [of x "[]" "32 # join [32] (y # ys)"] by (simp add: plain_def space_ws)
qed simp

lemma trim_end_plain: "plain t \<Longrightarrow> trim_end (s @ t) = s @ t"
  by (cases t rule: rev_cases) (auto simp: trim_end_def plain_def)

lemma join_last: "ts \<noteq> [] \<Longrightarrow> list_all plain ts \<Longrightarrow> \<exists>s t. join [32] ts = s @ t \<and> plain t"
proof (induction "[32] :: ustr" ts rule: join.induct)
  case (2 x)
  then have "join [32] [x] = [] @ x \<and> plain x" by simp
  then show ?case by blast
next
  case (3 x y ys)
  then obtain s t where "join [32] (y # ys) = s @ t" "plain t" by auto
  then have "join [32] (x # y # ys) = (x @ 32 # s) @ t \<and> plain t" by simp
  then show ?case by blast
qed simp

text \<open>A line of plain tokens: what the parser makes of it.\<close>

lemma parse_join:
  assumes "list_all plain (first # ts)" and "61 \<notin> set first" and "join [32] (first # ts) \<noteq> lit ''AxiomRT kernel booted''"
  shows "parse_line (join [32] (first # ts)) = parse_tokens first ts (join [32] (first # ts))"
proof -
  obtain s t where st: "join [32] (first # ts) = s @ t" "plain t" using join_last [OF _ assms(1)] by auto
  have e: "trim_end (join [32] (first # ts)) = join [32] (first # ts)" unfolding st(1) by (rule trim_end_plain [OF st(2)])
  have "\<not> list_all is_whitespace (join [32] (first # ts))"
    using st(2) unfolding st(1) by (auto simp: plain_def list_all_iff neq_Nil_conv)
  moreover have "split_once 61 first = None" using assms(2) by (induction first) auto
  ultimately show ?thesis using assms(3) split_whitespace_join [OF assms(1)]
    by (simp add: parse_line_def e trim_blank Let_def)
qed

definition token :: "ustr \<times> ustr \<Rightarrow> ustr" where
  "token kv = fst kv @ 61 # snd kv"

lemma split_once_token: "61 \<notin> set k \<Longrightarrow> split_once 61 (k @ 61 # v) = Some (k, v)"
  by (induction k) auto

lemma sort_tokens_fields:
  "list_all (\<lambda>kv. fst kv \<noteq> [] \<and> 61 \<notin> set (fst kv)) kvs \<Longrightarrow> sort_tokens (map token kvs) flags acc = (flags, acc @ kvs)"
  by (induction kvs arbitrary: acc) (auto simp: token_def split_once_token)

definition monitor_fields :: "monitor_event \<Rightarrow> (string \<times> string) list" where
  "monitor_fields e =
     [(''ts'', dec_string (unat (me_timestamp e))), (''task'', dec_string (unat (as_u32 (me_task e)))),
      (''sev'', severity_name (me_severity e)), (''phase'', phase_name (me_phase e))]
     @ (case me_policy_result e of Some p \<Rightarrow> [(''policy'', policy_name p)] | None \<Rightarrow> [])
     @ (case me_related_cap e of Some c \<Rightarrow> [(''cap'', dec_string (unat c))] | None \<Rightarrow> [])
     @ (case me_related_syscall e of Some s \<Rightarrow> [(''syscall'', dec_string (unat s))] | None \<Rightarrow> [])"

abbreviation lit_pairs :: "(string \<times> string) list \<Rightarrow> (ustr \<times> ustr) list" where
  "lit_pairs \<equiv> map (map_prod lit lit)"

fun monitor_category :: "monitor_event_type \<Rightarrow> category" where
  "monitor_category TaskStarted = CTask"
| "monitor_category TaskExited = CTask"
| "monitor_category TaskFaulted = CTask"
| "monitor_category CapDenied = CCapability"
| "monitor_category IpcDenied = CIpc"
| "monitor_category MPageFault = CFault"
| "monitor_category DeadlineMissed = CFault"
| "monitor_category MWatchdogTimeout = CWatchdog"
| "monitor_category RecoveryApplied = CRecovery"

lemma lit_append [simp]: "lit (s @ t) = lit s @ lit t" "lit [] = []" "lit (c # s) = of_char c # lit s"
  by (simp_all add: lit_def)

lemma plain_dec: "list_all (\<lambda>c. \<not> is_whitespace c) (lit (dec_string n))"
proof (induction n rule: dec_string.induct)
  case (1 n)
  have d: "of_char (digit_char k) = 48 + k" if "k < 10" for k :: nat
    using that by (simp add: digit_char_def)
  have "n mod 10 < 10" by simp
  then show ?case using 1 by (subst dec_string.simps) (auto simp: d is_whitespace_def)
qed

lemma plain_names:
  "list_all (\<lambda>c. \<not> is_whitespace c) (lit (event_type_name ty))" "list_all (\<lambda>c. \<not> is_whitespace c) (lit (severity_name sev))"
  "list_all (\<lambda>c. \<not> is_whitespace c) (lit (phase_name ph))" "list_all (\<lambda>c. \<not> is_whitespace c) (lit (policy_name pol))"
proof -
  show "list_all (\<lambda>c. \<not> is_whitespace c) (lit (event_type_name ty))" by (cases ty) (simp_all add: ws_printable)
  show "list_all (\<lambda>c. \<not> is_whitespace c) (lit (severity_name sev))" by (cases sev) (simp_all add: ws_printable)
  show "list_all (\<lambda>c. \<not> is_whitespace c) (lit (phase_name ph))" by (cases ph) (simp_all add: ws_printable)
  show "list_all (\<lambda>c. \<not> is_whitespace c) (lit (policy_name pol))" by (cases pol) (simp_all add: ws_printable)
qed

lemma monitor_tokens:
  "lit (concat (event_pieces e)) =
     join [32] (lit ''EVT'' # map token ((lit ''type'', lit (event_type_name (me_event_type e))) # lit_pairs (monitor_fields e)))"
  by (cases "me_policy_result e"; cases "me_related_cap e"; cases "me_related_syscall e")
    (simp_all add: event_pieces_def monitor_fields_def token_def)

lemma monitor_plain:
  "list_all plain (lit ''EVT'' # map token ((lit ''type'', lit (event_type_name ty)) # lit_pairs (monitor_fields e)))"
  by (cases "me_policy_result e"; cases "me_related_cap e"; cases "me_related_syscall e")
    (simp_all add: monitor_fields_def token_def plain_def plain_dec plain_names ws_printable)

lemma monitor_finish:
  "finish_line (lit (event_type_name ty)) [] kvs raw =
     Some \<lparr>ev_seq = 0, ev_category = monitor_category ty, ev_kind = lit (event_type_name ty), ev_flags = [], ev_fields = kvs,
       ev_raw = raw\<rparr>"
  by (cases ty) (simp_all add: finish_line_def categorize_def)

text \<open>C23. The host understands the kernel's monitor: every monitoring event, rendered into its
  serial line, is parsed into an event of its own category and kind, with exactly the fields the kernel
  wrote, in their order, and the whole line as its raw text.\<close>

theorem monitor_line_understood:
  "parse_line (lit (line_as_str (render e))) =
     Some \<lparr>ev_seq = 0, ev_category = monitor_category (me_event_type e), ev_kind = lit (event_type_name (me_event_type e)),
       ev_flags = [], ev_fields = lit_pairs (monitor_fields e), ev_raw = lit (line_as_str (render e))\<rparr>"
proof -
  let ?kvs = "(lit ''type'', lit (event_type_name (me_event_type e))) # lit_pairs (monitor_fields e)"
  have txt_eq: "lit (line_as_str (render e)) = join [32] (lit ''EVT'' # map token ?kvs)"
    using render_never_truncates [of e] monitor_tokens by simp
  have "list_all (\<lambda>kv. fst kv \<noteq> [] \<and> 61 \<notin> set (fst kv)) ?kvs"
    by (cases "me_policy_result e"; cases "me_related_cap e"; cases "me_related_syscall e") (simp_all add: monitor_fields_def)
  then have sorted: "sort_tokens (map token ?kvs) [] [] = ([], ?kvs)" using sort_tokens_fields [of ?kvs] by simp
  have "parse_line (lit (line_as_str (render e))) = parse_tokens (lit ''EVT'') (map token ?kvs) (lit (line_as_str (render e)))"
    unfolding txt_eq by (rule parse_join [OF monitor_plain]) simp_all
  also have "\<dots> = finish_line (lit (event_type_name (me_event_type e))) [] (lit_pairs (monitor_fields e)) (lit (line_as_str (render e)))"
    unfolding parse_tokens_def sorted by simp
  finally show ?thesis unfolding monitor_finish .
qed

text \<open>A line whose kind is outside the vocabulary is skipped, whatever follows; the kernel prints
  such lines when a task is killed or restarted and when a service is started.\<close>

lemma unknown_kind_skipped:
  assumes "plain kind" and "plain t" and "61 \<notin> set kind" and "kind \<noteq> lit ''EVT''" and "\<And>kvs. categorize kind kvs = None"
    and "kind @ 32 # t \<noteq> lit ''AxiomRT kernel booted''"
  shows "parse_line (kind @ 32 # t) = None"
  using parse_join [of kind "[t]"] assms by (simp add: parse_tokens_def finish_line_def split: prod.splits)

lemma kill_and_restart_lines_skipped:
  assumes "plain t"
  shows "parse_line (lit ''TASK_KILLED task='' @ t) = None" and "parse_line (lit ''TASK_RESTARTED task='' @ t) = None"
    and "parse_line (lit ''SERVICE started='' @ t) = None"
  using assms unknown_kind_skipped [of "lit ''TASK_KILLED''" "lit ''task='' @ t"]
    unknown_kind_skipped [of "lit ''TASK_RESTARTED''" "lit ''task='' @ t"]
    unknown_kind_skipped [of "lit ''SERVICE''" "lit ''started='' @ t"]
  by (simp_all add: plain_def ws_printable categorize_def)

text \<open>Whitespace at the end of a line is lost: the raw text is not the exact line.\<close>

lemma trailing_whitespace_lost: "is_whitespace c \<Longrightarrow> parse_line (s @ [c]) = parse_line s"
  by (simp add: parse_line_def trim_end_def)

end
