(* ===== verification/Axiomctl.thy ===== *)
theory Axiomctl
  imports Event_Log
begin

text \<open>
  The command line tool (\<open>tools/axiomctl/src/main.rs\<close>): the table of commands, the export of a
  serial log and the release checklist. What the tool learns from the host, the contents of files
  and the results of \<open>git\<close>, is a parameter; commands that only start another program are not
  modelled beyond their place in the table.
\<close>

section \<open>Commands\<close>

datatype exit_code = Success | Failure

datatype command = Help | Version | Doctor | Build | Run "ustr list" | DemoMemory | DemoFull | DemoDrivers | DemoLoader
  | VerifyCmd | EvidenceList | EvidenceOpen "ustr list" | EventsParse ustr | EventsSummary ustr | KitBuild | ReleaseCheck
  | Unknown "ustr list"

definition parse_command :: "ustr list \<Rightarrow> command" where
  "parse_command args =
     (if args = [] \<or> args = [lit ''help''] \<or> args = [lit ''-h''] \<or> args = [lit ''--help''] then Help
      else if args = [lit ''version''] then Version
      else if args = [lit ''doctor''] then Doctor
      else if args = [lit ''build''] then Build
      else if hd args = lit ''run'' then Run (tl args)
      else if args = [lit ''demo'', lit ''memory''] then DemoMemory
      else if args = [lit ''demo'', lit ''full''] then DemoFull
      else if args = [lit ''demo'', lit ''drivers''] then DemoDrivers
      else if args = [lit ''demo'', lit ''loader''] then DemoLoader
      else if args = [lit ''verify''] then VerifyCmd
      else if args = [lit ''evidence'', lit ''list''] then EvidenceList
      else if take 2 args = [lit ''evidence'', lit ''open''] then EvidenceOpen (drop 2 args)
      else if length args = 3 \<and> take 2 args = [lit ''events'', lit ''parse''] then EventsParse (args ! 2)
      else if length args = 3 \<and> take 2 args = [lit ''events'', lit ''summary''] then EventsSummary (args ! 2)
      else if args = [lit ''kit'', lit ''build''] then KitBuild
      else if args = [lit ''release'', lit ''check''] then ReleaseCheck
      else Unknown args)"

section \<open>Export of a log\<close>

text \<open>The fate of the output: all of it is written, or the consumer closes the pipe or writing fails
  after a number of characters.\<close>

datatype write_result = Written | BrokenPipe nat | WriteFailed nat

definition events_output :: "parsed_log \<Rightarrow> bool \<Rightarrow> ustr" where
  "events_output log want_summary =
     (if want_summary then summary log else concat (map (\<lambda>ev. to_json ev @ [10]) (pl_events log)))"

text \<open>The exit code and what the consumer gets; \<open>content\<close> is None when the file cannot be read.\<close>

definition cmd_events :: "ustr option \<Rightarrow> bool \<Rightarrow> write_result \<Rightarrow> exit_code \<times> ustr" where
  "cmd_events content want_summary written =
     (case content of
        None \<Rightarrow> (Failure, [])
      | Some text \<Rightarrow>
          (case written of
             Written \<Rightarrow> (Success, events_output (parse_log text) want_summary)
           | BrokenPipe n \<Rightarrow> (Success, take n (events_output (parse_log text) want_summary))
           | WriteFailed n \<Rightarrow> (Failure, take n (events_output (parse_log text) want_summary))))"

text \<open>A reader of newline-delimited JSON: one object and one newline at a time, at most as many as
  there are characters.\<close>

fun read_ndjson :: "nat \<Rightarrow> ustr \<Rightarrow> log_event list option" where
  "read_ndjson n [] = Some []"
| "read_ndjson 0 (c # s) = None"
| "read_ndjson (Suc n) (c # s) =
     (case json_event (c # s) of
        Some (ev, r) \<Rightarrow> (case expect_text [10] r of Some r \<Rightarrow> map_option ((#) ev) (read_ndjson n r) | None \<Rightarrow> None)
      | None \<Rightarrow> None)"

abbreviation export_text :: "log_event list \<Rightarrow> ustr" where
  "export_text evs \<equiv> concat (map (\<lambda>ev. to_json ev @ [10]) evs)"

lemma to_json_nonempty: "to_json ev \<noteq> []"
  by (simp add: to_json_def)

lemma read_ndjson_export:
  "length evs \<le> n \<Longrightarrow> read_ndjson n (concat (map (\<lambda>ev. to_json ev @ [10]) evs)) = Some evs"
proof (induction evs arbitrary: n)
  case (Cons ev evs)
  then obtain m where n: "n = Suc m" "length evs \<le> m" by (cases n) simp_all
  let ?rest = "concat (map (\<lambda>ev. to_json ev @ [10]) evs)"
  obtain c s where j: "to_json ev = c # s" using to_json_nonempty by (cases "to_json ev") auto
  have "json_event (c # s @ 10 # ?rest) = Some (ev, 10 # ?rest)"
    using event_codec.dec_enc [of ev "10 # ?rest"] by (simp add: j)
  then show ?case using Cons.IH [OF n(2)] by (simp add: n j expect_text_def)
qed simp

lemma length_export: "length evs \<le> length (concat (map (\<lambda>ev. to_json ev @ [10]) evs))"
  by (induction evs) (simp_all add: trans_le_add2)

text \<open>The export is cut into lines by its newlines alone: no object contains one, so what a consumer got
  before the pipe closed is a number of whole objects and a rest without a newline.\<close>

definition whole_lines :: "ustr \<Rightarrow> ustr" where
  "whole_lines s = rev (dropWhile (\<lambda>c. c \<noteq> 10) (rev s))"

lemma whole_lines_cons: "whole_lines (l @ 10 # s) = l @ 10 # whole_lines s"
  by (simp add: whole_lines_def dropWhile_append)

lemma whole_lines_none: "10 \<notin> set s \<Longrightarrow> whole_lines s = []"
  by (auto simp: whole_lines_def)

lemma cut_export:
  assumes "list_all (\<lambda>l. 10 \<notin> set l) ls"
  shows "whole_lines (take n (concat (map (\<lambda>l. l @ [10]) ls))) =
    concat (map (\<lambda>l. l @ [10]) (take (count_list (take n (concat (map (\<lambda>l. l @ [10]) ls))) 10) ls))"
  using assms
proof (induction ls arbitrary: n)
  case (Cons l ls)
  then have l: "10 \<notin> set l" by simp
  show ?case
  proof (cases "n \<le> length l")
    case True
    then have "10 \<notin> set (take n l)" using l by (meson in_set_takeD)
    then show ?thesis using True by (simp add: whole_lines_none count_notin)
  next
    case False
    then obtain m where "n = Suc (length l) + m" by (metis add_Suc less_iff_Suc_add not_le)
    then show ?thesis using Cons.IH [of m] Cons.prems l by (simp add: whole_lines_cons count_notin)
  qed
qed (simp add: whole_lines_def)

lemma json_escape_line: "10 \<notin> set (json_escape s)"
  by (auto simp: json_escape_def json_char_def hex_nibble_def)

lemma dec_string_line: "10 \<notin> set (lit (dec_string n))"
proof (induction n rule: dec_string.induct)
  case (1 n)
  have "10 \<notin> set (lit [digit_char d])" if "d < 10" for d
  proof -
    have "d \<in> {0, 1, 2, 3, 4, 5, 6, 7, 8, 9}" using that by auto
    then show ?thesis by (auto simp: digit_char_def)
  qed
  then show ?case using 1 by (subst dec_string.simps) simp
qed

lemma join_line: "10 \<notin> set sep \<Longrightarrow> list_all (\<lambda>s. 10 \<notin> set s) ss \<Longrightarrow> 10 \<notin> set (join sep ss)"
  by (induction sep ss rule: join.induct) auto

lemma to_json_line: "10 \<notin> set (to_json ev)"
proof -
  have "10 \<notin> set (category_name c)" for c by (cases c) simp_all
  moreover have "10 \<notin> set (join [44] (map quoted (ev_flags ev)))" "10 \<notin> set (join [44] (map json_field (ev_fields ev)))"
    by (rule join_line; simp add: list_all_iff json_escape_line json_field_def)+
  ultimately show ?thesis by (simp add: to_json_def json_escape_line dec_string_line)
qed

lemma export_cut: "whole_lines (take n (export_text evs)) = export_text (take (count_list (take n (export_text evs)) 10) evs)"
  using cut_export [of "map to_json evs" n] by (simp add: list_all_iff to_json_line take_map comp_def)

lemma export_read:
  "read_ndjson (length (take n (export_text evs))) (whole_lines (take n (export_text evs))) =
     Some (take (count_list (take n (export_text evs)) 10) evs)"
proof -
  let ?out = "take n (export_text evs)"
  have "length (take (count_list ?out 10) evs) \<le> length (whole_lines ?out)" unfolding export_cut by (rule length_export)
  also have "\<dots> \<le> length ?out" using length_dropWhile_le [of _ "rev ?out"] by (simp add: whole_lines_def)
  finally show ?thesis unfolding export_cut by (rule read_ndjson_export)
qed

lemma export_whole:
  "whole_lines (export_text evs) = export_text evs \<and> count_list (export_text evs) 10 = length evs
   \<and> count_list (take n (export_text evs)) 10 \<le> length evs"
proof -
  let ?out = "export_text evs"
  have all: "count_list ?out 10 = length evs" by (induction evs) (simp_all add: count_notin to_json_line)
  moreover have "count_list ?out 10 = count_list (take n ?out) 10 + count_list (drop n ?out) 10"
    by (metis append_take_drop_id count_list_append)
  moreover have "whole_lines ?out = ?out" using export_cut [of "length ?out" evs] all by simp
  ultimately show ?thesis by linarith
qed

section \<open>Release checklist\<close>

record release_facts =
  rf_repo :: bool
  rf_clean :: bool
  rf_tagged :: bool
  rf_is_file :: "ustr \<Rightarrow> bool"
  rf_log :: "ustr option"

definition kit_documents :: "ustr list" where
  "kit_documents = map (\<lambda>d. lit (''kit/'' @ d @ ''.md''))
     [''LIMITATIONS'', ''ASSUMPTIONS_OF_USE'', ''SAFETY_CONCEPT'', ''SECURITY_CONCEPT'', ''VERIFICATION_REPORT'', ''TEST_REPORT'', ''FINAL_REPORT'']"

definition release_scripts :: "ustr list" where
  "release_scripts = map lit [''scripts/run_qemu.sh'', ''scripts/verify_all.sh'', ''scripts/build_eval_kit.sh'']"

text \<open>The checks in their order, each with its label.\<close>

definition release_checks :: "release_facts \<Rightarrow> (bool \<times> ustr) list" where
  "release_checks f =
     [(rf_clean f, lit ''git tree is clean (no uncommitted changes)''), (rf_tagged f, lit ''HEAD carries a release tag'')]
     @ map (\<lambda>p. (rf_is_file f p, p)) kit_documents
     @ (case rf_log f of
          Some log \<Rightarrow>
            [(contains log (lit ''VERIFY ALL: PASS''), lit ''verify_all_clean.log records VERIFY ALL: PASS''),
             (\<not> contains log (lit ''warning''), lit ''verify_all_clean.log contains zero warnings'')]
        | None \<Rightarrow> [(False, lit ''evidence/v1.0/verify_all_clean.log exists'')])
     @ map (\<lambda>p. (rf_is_file f p, p)) release_scripts"

definition check_line :: "bool \<times> ustr \<Rightarrow> ustr" where
  "check_line c = (if fst c then lit ''PASS'' else lit ''FAIL'') @ lit ''  '' @ snd c @ [10]"

definition cmd_release_check :: "release_facts \<Rightarrow> exit_code \<times> ustr" where
  "cmd_release_check f =
     (if \<not> rf_repo f then (Failure, [])
      else let checks = release_checks f; failed = foldl (\<lambda>failed c. failed \<or> \<not> fst c) False checks
        in (if failed then Failure else Success,
            concat (map check_line checks) @ lit ''---------------'' @ [10]
            @ (if failed then lit ''release check: FAIL'' else lit ''release check: PASS'') @ [10]))"

lemma any_failed: "foldl (\<lambda>failed c. failed \<or> \<not> fst c) b cs \<longleftrightarrow> b \<or> \<not> list_all fst cs"
  by (induction cs arbitrary: b) auto

text \<open>The transcript read back: the labels of the lines that say \<open>FAIL\<close>.\<close>

definition failures :: "ustr \<Rightarrow> ustr list" where
  "failures out = List.map_filter (expect_text (lit ''FAIL  '')) (str_lines [] out)"

definition plain_label :: "ustr \<Rightarrow> bool" where
  "plain_label s \<longleftrightarrow> s \<noteq> [] \<and> 10 \<notin> set s \<and> last s \<noteq> 13"

lemma str_lines_word: "10 \<notin> set l \<Longrightarrow> str_lines cur (l @ 10 # s) = strip_cr (cur @ l) # str_lines [] s"
  by (induction l arbitrary: cur) auto

lemma failures_line:
  assumes "plain_label (snd c)"
  shows "failures (check_line c @ s) = (if fst c then [] else [snd c]) @ failures s"
proof -
  show ?thesis using assms str_lines_word [of "(if fst c then lit ''PASS'' else lit ''FAIL'') @ lit ''  '' @ snd c" "[]" s]
    by (cases "fst c") (simp_all add: failures_def check_line_def plain_label_def expect_text_def strip_cr_def List.map_filter_simps)
qed

lemma failures_checks:
  "list_all (plain_label \<circ> snd) cs \<Longrightarrow> failures (concat (map check_line cs) @ s) = map snd (filter (\<lambda>c. \<not> fst c) cs) @ failures s"
  by (induction cs) (simp_all add: failures_line)

lemma release_labels: "list_all (plain_label \<circ> snd) (release_checks f)"
  by (cases "rf_log f") (simp_all add: release_checks_def kit_documents_def release_scripts_def plain_label_def)

lemma release_failures:
  "failures (snd (cmd_release_check f)) = (if rf_repo f then map snd (filter (\<lambda>c. \<not> fst c) (release_checks f)) else [])"
proof -
  have "failures (lit ''---------------'' @ [10] @ (if b then lit ''release check: FAIL'' else lit ''release check: PASS'') @ [10]) = []" for b
    by (simp add: failures_def expect_text_def strip_cr_def List.map_filter_simps)
  then show ?thesis using failures_checks [OF release_labels, of f]
    by (simp add: cmd_release_check_def Let_def del: lit_append) (simp add: failures_def List.map_filter_simps)
qed

lemma filter_files:
  "map snd (filter (\<lambda>c. \<not> fst c) (map (\<lambda>p. (g p, p)) ps)) = filter (\<lambda>p. \<not> g p) ps"
  by (induction ps) simp_all

text \<open>C32. The command line tool reports exactly. An export of a log that cannot be read fails and
  writes nothing; otherwise it fails only when writing fails, a closed pipe is a success, and wherever the
  output is cut, a reader of newline-delimited JSON gets back from its whole lines the first events of the
  log, as many as there are newlines, and all of them when nothing is cut. The release check succeeds
  exactly when it runs in the repository, the tree is clean and tagged, the seven kit documents and the
  three scripts are present, and the archived log exists, records the pass and mentions no warning; the
  lines of its transcript that say \<open>FAIL\<close> name, in order, exactly the conditions that do not
  hold.\<close>

theorem axiomctl_reports_exactly:
  "(case content of
      None \<Rightarrow> cmd_events content summ written = (Failure, [])
    | Some log_text \<Rightarrow>
        let (code, out) = cmd_events content False written; evs = pl_events (parse_log log_text); k = count_list out 10
        in (code = Failure \<longleftrightarrow> (\<exists>n. written = WriteFailed n))
           \<and> read_ndjson (length out) (whole_lines out) = Some (take k evs)
           \<and> (if written = Written then whole_lines out = out \<and> k = length evs else k \<le> length evs))
   \<and> (fst (cmd_release_check f) = Success \<longleftrightarrow>
        rf_repo f \<and> rf_clean f \<and> rf_tagged f
        \<and> list_all (\<lambda>p. rf_is_file f (lit p)) [''kit/LIMITATIONS.md'', ''kit/ASSUMPTIONS_OF_USE.md'', ''kit/SAFETY_CONCEPT.md'',
            ''kit/SECURITY_CONCEPT.md'', ''kit/VERIFICATION_REPORT.md'', ''kit/TEST_REPORT.md'', ''kit/FINAL_REPORT.md'',
            ''scripts/run_qemu.sh'', ''scripts/verify_all.sh'', ''scripts/build_eval_kit.sh'']
        \<and> (\<exists>log. rf_log f = Some log \<and> contains log (lit ''VERIFY ALL: PASS'') \<and> \<not> contains log (lit ''warning'')))
   \<and> failures (snd (cmd_release_check f)) =
       (if \<not> rf_repo f then []
        else (if rf_clean f then [] else [lit ''git tree is clean (no uncommitted changes)''])
          @ (if rf_tagged f then [] else [lit ''HEAD carries a release tag''])
          @ filter (\<lambda>p. \<not> rf_is_file f p) (map lit [''kit/LIMITATIONS.md'', ''kit/ASSUMPTIONS_OF_USE.md'', ''kit/SAFETY_CONCEPT.md'',
              ''kit/SECURITY_CONCEPT.md'', ''kit/VERIFICATION_REPORT.md'', ''kit/TEST_REPORT.md'', ''kit/FINAL_REPORT.md''])
          @ (case rf_log f of
               None \<Rightarrow> [lit ''evidence/v1.0/verify_all_clean.log exists'']
             | Some log \<Rightarrow>
                 (if contains log (lit ''VERIFY ALL: PASS'') then [] else [lit ''verify_all_clean.log records VERIFY ALL: PASS''])
                 @ (if contains log (lit ''warning'') then [lit ''verify_all_clean.log contains zero warnings''] else []))
          @ filter (\<lambda>p. \<not> rf_is_file f p) (map lit [''scripts/run_qemu.sh'', ''scripts/verify_all.sh'', ''scripts/build_eval_kit.sh'']))"
  (is "?events \<and> ?code \<and> ?fails")
proof (intro conjI)
  show ?events
  proof (cases content)
    case (Some log_text)
    define evs where "evs = pl_events (parse_log log_text)"
    define out where "out = export_text evs"
    have o: "events_output (parse_log log_text) False = out" by (simp add: events_output_def out_def evs_def)
    note r = export_read [where evs = evs, folded out_def] and c = export_whole [where evs = evs, folded out_def]
    show ?thesis using r [of "length out"] r c
      by (cases written) (simp_all add: Some cmd_events_def o evs_def [symmetric])
  qed (simp add: cmd_events_def)
  have "fst (cmd_release_check f) = Success \<longleftrightarrow> rf_repo f \<and> list_all fst (release_checks f)"
    by (simp add: cmd_release_check_def Let_def any_failed)
  then show ?code
    by (cases "rf_log f") (auto simp: release_checks_def kit_documents_def release_scripts_def list.pred_map o_def simp del: lit_append)
  show ?fails
    unfolding release_failures release_checks_def filter_append map_append filter_files kit_documents_def release_scripts_def
    by (simp del: lit_append split: option.split)
qed

end
