(* ===== verification/Studio.thy ===== *)
theory Studio
  imports Event_Log "HOL-Library.List_Lexorder" "HOL-Library.Product_Lexorder"
begin

text \<open>
  The local dashboard server (\<open>studio/src/main.rs\<close>): request parsing and routing, the file
  endpoints, the views derived from a serial log, and the background jobs. The file system, the
  listing of the evidence directory and the output of the release check are parameters; the job
  threads are steps on the shared state, one step for each section under its lock.
\<close>

section \<open>State\<close>

datatype job_status = JIdle | JRunning | JOk | JFailed

fun job_status_name :: "job_status \<Rightarrow> ustr" where
  "job_status_name JIdle = lit ''idle''"
| "job_status_name JRunning = lit ''running''"
| "job_status_name JOk = lit ''ok''"
| "job_status_name JFailed = lit ''failed''"

datatype job_name = Demo | Verify | Kit

record job =
  jb_status :: "job_status option"
  jb_log :: ustr

record studio_state =
  st_busy :: "job_name option"
  st_demo :: job
  st_verify :: job
  st_kit :: job
  st_doctor :: "(ustr \<times> ustr) list"

fun job_text :: "job_name \<Rightarrow> ustr" where
  "job_text Demo = lit ''demo''"
| "job_text Verify = lit ''verify''"
| "job_text Kit = lit ''kit''"

fun job_of :: "studio_state \<Rightarrow> job_name \<Rightarrow> job" where
  "job_of st Demo = st_demo st"
| "job_of st Verify = st_verify st"
| "job_of st Kit = st_kit st"

fun job_mut :: "job_name \<Rightarrow> (job \<Rightarrow> job) \<Rightarrow> studio_state \<Rightarrow> studio_state" where
  "job_mut Demo f st = st\<lparr>st_demo := f (st_demo st)\<rparr>"
| "job_mut Verify f st = st\<lparr>st_verify := f (st_verify st)\<rparr>"
| "job_mut Kit f st = st\<lparr>st_kit := f (st_kit st)\<rparr>"

definition studio_init :: "(ustr \<times> ustr) list \<Rightarrow> studio_state" where
  "studio_init doctor =
     (let j = \<lparr>jb_status = None, jb_log = []\<rparr>
      in \<lparr>st_busy = None, st_demo = j, st_verify = j, st_kit = j, st_doctor = doctor\<rparr>)"

section \<open>HTTP plumbing\<close>

record response =
  rs_code :: nat
  rs_type :: ustr
  rs_body :: ustr

definition respond :: "nat \<Rightarrow> string \<Rightarrow> ustr \<Rightarrow> response" where
  "respond code ctype body = \<lparr>rs_code = code, rs_type = lit ctype, rs_body = body\<rparr>"

definition utf8_len :: "nat \<Rightarrow> nat" where
  "utf8_len c = (if c < 0x80 then 1 else if c < 0x800 then 2 else if c < 0x10000 then 3 else 4)"

definition str_len :: "ustr \<Rightarrow> nat" where
  "str_len s = sum_list (map utf8_len s)"

definition reason_phrase :: "nat \<Rightarrow> string" where
  "reason_phrase code =
     (if code = 200 then ''OK'' else if code = 400 then ''Bad Request'' else if code = 404 then ''Not Found''
      else if code = 409 then ''Conflict'' else ''Error'')"

text \<open>What \<open>respond\<close> writes to the stream.\<close>

definition response_text :: "response \<Rightarrow> ustr" where
  "response_text r =
     lit ''HTTP/1.1 '' @ lit (dec_string (rs_code r)) @ 32 # lit (reason_phrase (rs_code r)) @ [13, 10]
     @ lit ''Content-Type: '' @ rs_type r @ [13, 10]
     @ lit ''Content-Length: '' @ lit (dec_string (str_len (rs_body r))) @ [13, 10]
     @ lit ''Connection: close'' @ [13, 10, 13, 10] @ rs_body r"

definition parse_request_line :: "ustr \<Rightarrow> (ustr \<times> ustr) option" where
  "parse_request_line line =
     (case split_whitespace line of
        method # target # _ \<Rightarrow>
          if \<not> among method [''GET'', ''POST''] \<or> take 1 target \<noteq> [47] then None else Some (method, target)
      | _ \<Rightarrow> None)"

definition page_route :: "ustr \<Rightarrow> bool" where
  "page_route path \<longleftrightarrow> among path [''/'', ''/run'', ''/tasks'', ''/scheduler'', ''/faults'', ''/ipc'', ''/capabilities'', ''/drivers'',
     ''/network'', ''/loader'', ''/tests'', ''/proofs'', ''/evidence'', ''/limitations'', ''/release'']"

fun split_on :: "nat \<Rightarrow> ustr \<Rightarrow> ustr list" where
  "split_on d [] = [[]]"
| "split_on d (c # s) = (if c = d then [] # split_on d s else case split_on d s of [] \<Rightarrow> [[c]] | w # ws \<Rightarrow> (c # w) # ws)"

definition query_param :: "ustr \<Rightarrow> string \<Rightarrow> ustr option" where
  "query_param query name = map_of (List.map_filter (split_once 61) (split_on 38 query)) (lit name)"

definition name_char :: "nat \<Rightarrow> bool" where
  "name_char c \<longleftrightarrow> (48 \<le> c \<and> c \<le> 57) \<or> (65 \<le> c \<and> c \<le> 90) \<or> (97 \<le> c \<and> c \<le> 122) \<or> c = 46 \<or> c = 95 \<or> c = 45"

definition safe_name :: "ustr \<Rightarrow> bool" where
  "safe_name s \<longleftrightarrow> s \<noteq> [] \<and> take 1 s \<noteq> [46] \<and> list_all name_char s"

text \<open>The suffix of \<open>s\<close> from the first character boundary at or after byte \<open>n\<close>.\<close>

fun drop_bytes :: "nat \<Rightarrow> ustr \<Rightarrow> ustr" where
  "drop_bytes n [] = []"
| "drop_bytes n (c # s) = (if n = 0 then c # s else drop_bytes (n - utf8_len c) s)"

text \<open>When no boundary lies in the last \<open>lim\<close> bytes the source slices inside a character, which
  panics: the value is None.\<close>

definition tail :: "ustr \<Rightarrow> nat \<Rightarrow> ustr option" where
  "tail s lim =
     (if str_len s \<le> lim then Some s
      else let rest = drop_bytes (str_len s - lim) s
        in if rest = [] \<and> lim > 0 then None
           else Some (lit ''[... truncated, showing last '' @ lit (dec_string lim) @ lit '' bytes ...]'' @ 10 # rest))"

section \<open>Views derived from a log\<close>

fun set_task_state :: "(ustr \<times> ustr) list \<Rightarrow> ustr \<Rightarrow> string \<Rightarrow> (ustr \<times> ustr) list" where
  "set_task_state [] name state = []"
| "set_task_state ((n, s) # tasks) name state =
     (if n = name then (n, lit state) # tasks else (n, s) # set_task_state tasks name state)"

definition event_field :: "log_event \<Rightarrow> string \<Rightarrow> ustr option" where
  "event_field ev name = map_of (ev_fields ev) (lit name)"

definition task_event :: "(ustr \<times> ustr) list \<times> ustr option \<Rightarrow> log_event \<Rightarrow> (ustr \<times> ustr) list \<times> ustr option" where
  "task_event acc ev =
     (case acc of (tasks, last_faulted) \<Rightarrow>
        if ev_kind ev = lit ''TASK_STARTED'' then
          (case event_field ev ''task'' of Some t \<Rightarrow> (tasks @ [(t, lit ''running'')], last_faulted) | None \<Rightarrow> acc)
        else if ev_kind ev = lit ''TASK_EXITED'' then
          (case event_field ev ''task'' of Some t \<Rightarrow> (set_task_state tasks t ''exited'', last_faulted) | None \<Rightarrow> acc)
        else if among (ev_kind ev) [''FAULT'', ''TASK_FAULTED''] then
          (case event_field ev ''task'' of Some t \<Rightarrow> (set_task_state tasks t ''faulted'', Some t) | None \<Rightarrow> acc)
        else if ev_kind ev = lit ''RECOVERY_APPLIED'' then
          (case (event_field ev ''policy'', last_faulted) of
             (Some policy, Some t) \<Rightarrow> if policy = lit ''Kill'' then (set_task_state tasks t ''killed'', last_faulted) else acc
           | _ \<Rightarrow> acc)
        else acc)"

definition derive_tasks :: "log_event list \<Rightarrow> (ustr \<times> ustr) list" where
  "derive_tasks evs = fst (foldl task_event ([], None) evs)"

record network_view =
  nv_state :: ustr
  nv_tx :: nat
  nv_rx :: nat
  nv_mode :: ustr
  nv_faults :: nat
  nv_restarts :: nat
  nv_last_event :: ustr

definition network_view_default :: network_view where
  "network_view_default = \<lparr>nv_state = lit ''not_observed'', nv_tx = 0, nv_rx = 0, nv_mode = lit ''not_observed'', nv_faults = 0,
     nv_restarts = 0, nv_last_event = lit ''no network event in this log''\<rparr>"

text \<open>\<open>str::parse\<close> at \<open>u64\<close>: an optional plus sign, at least one digit, no overflow.\<close>

definition parse_u64 :: "ustr \<Rightarrow> nat option" where
  "parse_u64 s =
     (let ds = (if take 1 s = [43] then drop 1 s else s); (v, rest) = read_dec 0 ds
      in if ds = [] \<or> rest \<noteq> [] \<or> v \<ge> 2 ^ 64 then None else Some v)"

definition network_event :: "network_view \<Rightarrow> log_event \<Rightarrow> network_view" where
  "network_event view ev =
     (let view = view\<lparr>nv_last_event := ev_raw ev\<rparr>;
          number = (\<lambda>k old. case Option.bind (event_field ev k) parse_u64 of Some n \<Rightarrow> n | None \<Rightarrow> old)
      in if ev_kind ev = lit ''NET_SERVICE'' then
           let view = (case event_field ev ''state'' of Some s \<Rightarrow> view\<lparr>nv_state := s\<rparr> | None \<Rightarrow> view)
           in case event_field ev ''mode'' of Some m \<Rightarrow> view\<lparr>nv_mode := m\<rparr> | None \<Rightarrow> view
         else if ev_kind ev = lit ''NET_DRIVER'' then
           if event_field ev ''state'' = Some (lit ''faulted'')
           then view\<lparr>nv_state := lit ''faulted'', nv_faults := nv_faults view + 1\<rparr>
           else if event_field ev ''restarted'' \<noteq> None
           then view\<lparr>nv_state := lit ''up'', nv_tx := 0, nv_rx := 0, nv_restarts := nv_restarts view + 1\<rparr>
           else if event_field ev ''started'' \<noteq> None then view\<lparr>nv_state := lit ''up''\<rparr>
           else view
         else if ev_kind ev = lit ''NET_TX'' then view\<lparr>nv_tx := number ''tx'' (nv_tx view)\<rparr>
         else if ev_kind ev = lit ''NET_RX'' then view\<lparr>nv_rx := number ''rx'' (nv_rx view)\<rparr>
         else view)"

definition derive_network :: "log_event list \<Rightarrow> network_view" where
  "derive_network evs = foldl network_event network_view_default (filter (\<lambda>ev. ev_category ev = CNetwork) evs)"

section \<open>JSON endpoints\<close>

abbreviation json_list :: "ustr list \<Rightarrow> ustr" where
  "json_list xs \<equiv> 91 # join [44] xs @ [93]"

abbreviation dec :: "nat \<Rightarrow> ustr" where
  "dec n \<equiv> lit (dec_string n)"

definition job_json :: "job \<Rightarrow> ustr" where
  "job_json j =
     123 # key ''status'' @ 34 # job_status_name (case jb_status j of Some s \<Rightarrow> s | None \<Rightarrow> JIdle) @ [34, 44]
     @ key ''log_bytes'' @ dec (str_len (jb_log j)) @ [125]"

definition api_state :: "studio_state \<Rightarrow> response" where
  "api_state st =
     respond 200 ''application/json''
       (123 # key ''busy'' @ (case st_busy st of Some b \<Rightarrow> 34 # job_text b @ [34] | None \<Rightarrow> lit ''null'')
        @ 44 # key ''demo'' @ job_json (st_demo st) @ 44 # key ''verify'' @ job_json (st_verify st)
        @ 44 # key ''kit'' @ job_json (st_kit st)
        @ 44 # key ''doctor'' @ json_list (map (\<lambda>(k, v). 91 # quoted k @ 44 # quoted v @ [93]) (st_doctor st)) @ [125])"

definition EVENT_CAP :: nat where "EVENT_CAP = 1500"

text \<open>The counting loop of \<open>api_events\<close>: events per category and kind, and selections per task.\<close>

definition count_event :: "((category \<times> ustr) \<times> nat) list \<times> (ustr \<times> nat) list \<Rightarrow> log_event
    \<Rightarrow> ((category \<times> ustr) \<times> nat) list \<times> (ustr \<times> nat) list" where
  "count_event acc ev =
     (case acc of (kinds, sched) \<Rightarrow>
        (bump (ev_category ev, ev_kind ev) kinds,
         if ev_category ev = CScheduler
         then case event_field ev ''selected'' of Some v \<Rightarrow> bump v sched | None \<Rightarrow> sched
         else sched))"

definition network_json :: "network_view \<Rightarrow> ustr" where
  "network_json n =
     123 # key ''state'' @ quoted (nv_state n) @ 44 # key ''tx'' @ dec (nv_tx n) @ 44 # key ''rx'' @ dec (nv_rx n)
     @ 44 # key ''mode'' @ quoted (nv_mode n) @ 44 # key ''faults'' @ dec (nv_faults n)
     @ 44 # key ''restarts'' @ dec (nv_restarts n) @ 44 # key ''last_event'' @ quoted (nv_last_event n) @ [125]"

definition api_events :: "studio_state \<Rightarrow> response" where
  "api_events st =
     (let parsed = parse_log (jb_log (st_demo st));
          evs = pl_events parsed;
          (kinds, sched) = foldl count_event ([], []) evs;
          summary = map (\<lambda>((c, k), n). 91 # 34 # category_name c @ [34, 44] @ quoted k @ 44 # dec n @ [93]) kinds;
          sched_json = map (\<lambda>(t, n). 91 # quoted t @ 44 # dec n @ [93]) sched;
          tasks_json = map (\<lambda>(t, s). 91 # quoted t @ 44 # quoted s @ [93]) (derive_tasks evs);
          events_json = map to_json (take EVENT_CAP evs)
      in respond 200 ''application/json''
           (123 # key ''total'' @ dec (length evs) @ 44 # key ''skipped'' @ dec (pl_skipped parsed)
            @ 44 # key ''shown'' @ dec (min (length evs) EVENT_CAP) @ 44 # key ''summary'' @ json_list summary
            @ 44 # key ''sched'' @ json_list sched_json @ 44 # key ''tasks'' @ json_list tasks_json
            @ 44 # key ''network'' @ network_json (derive_network evs) @ 44 # key ''events'' @ json_list events_json @ [125]))"

section \<open>File endpoints\<close>

text \<open>\<open>Path::join\<close>: an absolute argument replaces the path.\<close>

definition path_join :: "ustr \<Rightarrow> ustr \<Rightarrow> ustr" where
  "path_join p q =
     (if take 1 q = [47] then q else if p = [] \<or> last p = 47 then p @ q else p @ 47 # q)"

type_synonym files = "ustr \<Rightarrow> ustr option"

text \<open>A handler returns its response, or None where \<open>tail\<close> panics.\<close>

definition serve_file :: "files \<Rightarrow> ustr \<Rightarrow> response option" where
  "serve_file files path =
     (case files path of
        Some content \<Rightarrow> map_option (respond 200 ''text/plain; charset=utf-8'') (tail content 400000)
      | None \<Rightarrow> Some (respond 404 ''text/plain'' (lit ''no such file'')))"

definition api_verify_log :: "files \<Rightarrow> ustr \<Rightarrow> studio_state \<Rightarrow> response option" where
  "api_verify_log files root st =
     (let live = jb_log (st_verify st);
          content = (if live = [] then
              case files (path_join root (lit ''evidence/v1.0/verify_all_clean.log'')) of
                Some t \<Rightarrow> lit ''[archived evidence/v1.0/verify_all_clean.log]'' @ 10 # t
              | None \<Rightarrow> lit ''no verify log yet '' @ 0x2014 # lit '' run the sweep''
            else live)
      in map_option (respond 200 ''text/plain; charset=utf-8'') (tail content 200000))"

text \<open>The directories under \<open>evidence\<close> with the names of their files, in the order the system
  lists them.\<close>

definition api_evidence :: "(ustr \<times> ustr list) list \<Rightarrow> response" where
  "api_evidence listing =
     (let versions = sort (map (\<lambda>(name, fs). (name, sort fs)) listing)
      in respond 200 ''application/json''
           (123 # key ''versions'' @ json_list (map (\<lambda>(v, fs).
              123 # key ''name'' @ quoted v @ 44 # key ''files'' @ json_list (map quoted fs) @ [125]) versions) @ [125]))"

definition api_evidence_file :: "files \<Rightarrow> ustr \<Rightarrow> ustr \<Rightarrow> response option" where
  "api_evidence_file files root query =
     (case (query_param query ''ver'', query_param query ''file'') of
        (Some ver, Some file) \<Rightarrow>
          if \<not> safe_name ver \<or> \<not> safe_name file then Some (respond 400 ''text/plain'' (lit ''invalid name''))
          else serve_file files (path_join (path_join (path_join root (lit ''evidence'')) ver) file)
      | _ \<Rightarrow> Some (respond 400 ''text/plain'' (lit ''ver and file required'')))"

definition api_doc :: "files \<Rightarrow> ustr \<Rightarrow> ustr \<Rightarrow> response option" where
  "api_doc files root query =
     (let name = query_param query ''name''
      in if name = Some (lit ''limitations'') then serve_file files (path_join root (lit ''kit/LIMITATIONS.md''))
         else if name = Some (lit ''assumptions'') then serve_file files (path_join root (lit ''kit/ASSUMPTIONS_OF_USE.md''))
         else if name = Some (lit ''final'') then serve_file files (path_join root (lit ''kit/FINAL_REPORT.md''))
         else Some (respond 400 ''text/plain'' (lit ''unknown doc'')))"

definition api_release_check :: "bool \<times> ustr \<Rightarrow> response" where
  "api_release_check out =
     respond 200 ''application/json''
       (123 # key ''ok'' @ (if fst out then lit ''true'' else lit ''false'') @ 44 # key ''text'' @ quoted (snd out) @ [125])"

section \<open>Background jobs\<close>

definition api_start :: "job_name \<Rightarrow> studio_state \<Rightarrow> response \<times> studio_state \<times> job_name option" where
  "api_start which st =
     (if st_busy st \<noteq> None
      then (respond 409 ''application/json'' (123 # key ''started'' @ lit ''false,'' @ key ''reason'' @ 34 # lit ''busy'' @ [34, 125]),
            st, None)
      else let st = st\<lparr>st_busy := Some which\<rparr>;
               st = job_mut which (\<lambda>j. j\<lparr>jb_status := Some JRunning, jb_log := []\<rparr>) st
        in (respond 200 ''application/json'' (123 # key ''started'' @ lit ''true'' @ [125]), st, Some which))"

text \<open>The sections of \<open>run_job\<close> under the lock: one line of output, the verdict when the output has
  ended, and the end of the job.\<close>

definition job_line :: "job_name \<Rightarrow> ustr \<Rightarrow> studio_state \<Rightarrow> studio_state" where
  "job_line which line st = job_mut which (\<lambda>j. j\<lparr>jb_log := jb_log j @ line @ [10]\<rparr>) st"

definition job_verdict :: "job_name \<Rightarrow> bool \<Rightarrow> studio_state \<Rightarrow> bool" where
  "job_verdict which status_ok st =
     (if which = Demo
      then contains (jb_log (st_demo st)) (lit ''AxiomRT kernel booted'') \<and> contains (jb_log (st_demo st)) (lit ''RECOVERY_APPLIED'')
      else status_ok)"

definition job_finish :: "job_name \<Rightarrow> bool \<Rightarrow> studio_state \<Rightarrow> studio_state" where
  "job_finish which ok st =
     (job_mut which (\<lambda>j. j\<lparr>jb_status := Some (if ok then JOk else JFailed)\<rparr>) st)\<lparr>st_busy := None\<rparr>"

section \<open>Routing\<close>

record host =
  ho_page :: ustr
  ho_root :: ustr
  ho_files :: files
  ho_listing :: "(ustr \<times> ustr list) list"
  ho_release :: "bool \<times> ustr"

text \<open>One connection: the response, the new state and the job whose thread it starts.\<close>

definition handle_request :: "host \<Rightarrow> ustr \<Rightarrow> studio_state \<Rightarrow> response option \<times> studio_state \<times> job_name option" where
  "handle_request h request_line st =
     (case parse_request_line request_line of
        None \<Rightarrow> (Some (respond 400 ''text/plain'' (lit ''bad request'')), st, None)
      | Some (method, target) \<Rightarrow>
          let (path, query) = (case split_once 63 target of Some (p, q) \<Rightarrow> (p, q) | None \<Rightarrow> (target, []));
              get = (method = lit ''GET''); post = (method = lit ''POST'');
              start = (\<lambda>w. case api_start w st of (r, st', spawn) \<Rightarrow> (Some r, st', spawn))
          in if get \<and> path = lit ''/api/state'' then (Some (api_state st), st, None)
             else if post \<and> path = lit ''/api/run_demo'' then start Demo
             else if post \<and> path = lit ''/api/run_verify'' then start Verify
             else if post \<and> path = lit ''/api/kit_build'' then start Kit
             else if get \<and> path = lit ''/api/events'' then (Some (api_events st), st, None)
             else if get \<and> path = lit ''/api/log'' then
               (map_option (respond 200 ''text/plain; charset=utf-8'') (tail (jb_log (st_demo st)) 200000), st, None)
             else if get \<and> path = lit ''/api/verify_log'' then (api_verify_log (ho_files h) (ho_root h) st, st, None)
             else if get \<and> path = lit ''/api/evidence'' then (Some (api_evidence (ho_listing h)), st, None)
             else if get \<and> path = lit ''/api/evidence/file'' then (api_evidence_file (ho_files h) (ho_root h) query, st, None)
             else if get \<and> path = lit ''/api/doc'' then (api_doc (ho_files h) (ho_root h) query, st, None)
             else if get \<and> path = lit ''/api/release_check'' then (Some (api_release_check (ho_release h)), st, None)
             else if get \<and> page_route path then (Some (respond 200 ''text/html; charset=utf-8'' (ho_page h)), st, None)
             else (Some (respond 404 ''text/plain'' (lit ''not found'')), st, None))"

section \<open>Connections\<close>

text \<open>Bytes as text, as \<open>str::from_utf8\<close> accepts it: no overlong forms, no surrogates, nothing above
  \<open>U+10FFFF\<close>.\<close>

definition cont_byte :: "nat \<Rightarrow> bool" where
  "cont_byte b \<longleftrightarrow> 0x80 \<le> b \<and> b \<le> 0xBF"

fun utf8_chars :: "nat list \<Rightarrow> ustr option" where
  "utf8_chars [] = Some []"
| "utf8_chars (a # s) =
     (if a < 0x80 then map_option ((#) a) (utf8_chars s)
      else case s of [] \<Rightarrow> None | b # s \<Rightarrow>
        if \<not> cont_byte b then None
        else if 0xC2 \<le> a \<and> a \<le> 0xDF then map_option ((#) ((a - 0xC0) * 64 + (b - 0x80))) (utf8_chars s)
        else case s of [] \<Rightarrow> None | c # s \<Rightarrow>
          if \<not> cont_byte c then None
          else if 0xE0 \<le> a \<and> a \<le> 0xEF then
            if a = 0xE0 \<and> b < 0xA0 \<or> a = 0xED \<and> 0x9F < b then None
            else map_option ((#) ((a - 0xE0) * 4096 + (b - 0x80) * 64 + (c - 0x80))) (utf8_chars s)
          else case s of [] \<Rightarrow> None | d # s \<Rightarrow>
            if \<not> cont_byte d then None
            else if 0xF0 \<le> a \<and> a \<le> 0xF4 then
              if a = 0xF0 \<and> b < 0x90 \<or> a = 0xF4 \<and> 0x8F < b then None
              else map_option ((#) ((a - 0xF0) * 262144 + (b - 0x80) * 4096 + (c - 0x80) * 64 + (d - 0x80))) (utf8_chars s)
            else None)"

definition utf8_decode :: "u8 list \<Rightarrow> ustr option" where
  "utf8_decode bs = utf8_chars (map unat bs)"

text \<open>\<open>BufRead::read_line\<close>: the bytes up to the next newline, with it, or to the end of the input;
  None is the error for a line that is not text.\<close>

fun raw_line :: "u8 list \<Rightarrow> u8 list \<times> u8 list" where
  "raw_line [] = ([], [])"
| "raw_line (b # s) = (if b = 10 then ([b], s) else case raw_line s of (l, rest) \<Rightarrow> (b # l, rest))"

definition read_line :: "u8 list \<Rightarrow> (ustr \<times> u8 list) option" where
  "read_line input = (case raw_line input of (l, rest) \<Rightarrow> map_option (\<lambda>line. (line, rest)) (utf8_decode l))"

lemma raw_line_append: "fst (raw_line input) @ snd (raw_line input) = input"
  by (induction input rule: raw_line.induct) (auto simp: split_beta)

lemma read_line_shorter: "read_line input = Some (line, rest) \<Longrightarrow> line \<noteq> [] \<Longrightarrow> length rest < length input"
proof -
  assume r: "read_line input = Some (line, rest)" and l: "line \<noteq> []"
  then have "fst (raw_line input) \<noteq> []" "rest = snd (raw_line input)" by (auto simp: read_line_def utf8_decode_def split_beta)
  then show ?thesis using arg_cong [OF raw_line_append [of input], of length] by (cases "fst (raw_line input)") auto
qed

definition ascii_lower :: "ustr \<Rightarrow> ustr" where
  "ascii_lower s = map (\<lambda>c. if 65 \<le> c \<and> c \<le> 90 then c + 32 else c) s"

text \<open>The header loop of \<open>handle\<close>, with the content length it has seen and the input that follows the
  headers.\<close>

function drain_headers :: "nat \<Rightarrow> u8 list \<Rightarrow> (nat \<times> u8 list) option" where
  "drain_headers content_length input =
     (case read_line input of
        None \<Rightarrow> None
      | Some (line, rest) \<Rightarrow>
          let header = trim_end line
          in if header = [] then Some (content_length, rest)
             else drain_headers
               (case expect_text (lit ''content-length:'') (ascii_lower header) of
                  Some v \<Rightarrow> (case parse_u64 (trim v) of Some n \<Rightarrow> n | None \<Rightarrow> 0)
                | None \<Rightarrow> content_length) rest)"
  by pat_completeness auto
termination
  by (relation "measure (length \<circ> snd)") (auto intro!: read_line_shorter simp: trim_end_def)

declare drain_headers.simps [simp del]

text \<open>One connection, from the bytes the client sends until it closes its side: the connection is dropped without an answer
  when the request line or a header is not text. A body is read and thrown away after the headers.\<close>

datatype conn_result = Dropped | Panicked | Answered response

definition handle_connection :: "host \<Rightarrow> u8 list \<Rightarrow> studio_state \<Rightarrow> conn_result \<times> studio_state \<times> job_name option" where
  "handle_connection h input st =
     (case read_line input of
        None \<Rightarrow> (Dropped, st, None)
      | Some (request_line, rest) \<Rightarrow>
          if parse_request_line request_line \<noteq> None \<and> drain_headers 0 rest = None then (Dropped, st, None)
          else case handle_request h request_line st of (r, st', spawn) \<Rightarrow>
            (case r of Some r \<Rightarrow> Answered r | None \<Rightarrow> Panicked, st', spawn))"

section \<open>The server as a step relation\<close>

text \<open>The shared state with the job threads that are alive: a thread streams output (\<open>None\<close>) until
  it has its verdict. The steps are one connection, one line of a job's output, the end of the output
  with the exit status, a child that could not be started, and the end of a job.\<close>

type_synonym studio = "studio_state \<times> (job_name \<times> bool option) list"

inductive studio_step :: "studio \<Rightarrow> studio \<Rightarrow> bool" where
  request: "handle_connection h input st = (r, st', spawn) \<Longrightarrow>
    studio_step (st, ts) (st', ts @ (case spawn of Some w \<Rightarrow> [(w, None)] | None \<Rightarrow> []))"
| line_out: "studio_step (st, a @ (w, None) # b) (job_line w line st, a @ (w, None) # b)"
| ended: "studio_step (st, a @ (w, None) # b) (st, a @ (w, Some (job_verdict w status_ok st)) # b)"
| no_child: "studio_step (st, a @ (w, None) # b) (st, a @ (w, Some False) # b)"
| finished: "studio_step (st, a @ (w, Some ok) # b) (job_finish w ok st, a @ b)"

inductive studio_reach :: "(ustr \<times> ustr) list \<Rightarrow> studio \<Rightarrow> bool" for doctor where
  start: "studio_reach doctor (studio_init doctor, [])"
| step: "studio_reach doctor s \<Longrightarrow> studio_step s s' \<Longrightarrow> studio_reach doctor s'"

section \<open>One job at a time\<close>

lemma job_of_mut [simp]:
  "job_of (job_mut w f st) w' = (if w' = w then f (job_of st w) else job_of st w')" "st_busy (job_mut w f st) = st_busy st"
  "job_of (st\<lparr>st_busy := b\<rparr>) w = job_of st w"
  by (cases w; cases w'; simp) (cases w; simp)+

text \<open>What a request does to the state: nothing, or it starts a job while none is running.\<close>

definition request_effect :: "studio_state \<Rightarrow> response option \<times> studio_state \<times> job_name option \<Rightarrow> bool" where
  "request_effect st x \<longleftrightarrow>
     (case x of (_, st', spawn) \<Rightarrow> st' = st \<and> spawn = None \<or> st_busy st = None \<and> (\<exists>w. spawn = Some w
        \<and> st' = job_mut w (\<lambda>j. j\<lparr>jb_status := Some JRunning, jb_log := []\<rparr>) (st\<lparr>st_busy := Some w\<rparr>)))"

lemma effect_rules:
  "request_effect st (r, st, None)"
  "request_effect st (Some (fst (api_start w st)), fst (snd (api_start w st)), snd (snd (api_start w st)))"
  "request_effect st x \<Longrightarrow> request_effect st y \<Longrightarrow> request_effect st (if b then x else y)"
  by (auto simp: request_effect_def api_start_def Let_def)

lemma handle_effect: "request_effect st (handle_request h line st)"
  unfolding handle_request_def Let_def
  by (cases "parse_request_line line") (auto simp only: option.case prod.case split_beta intro!: effect_rules)

lemma connection_effect: "handle_connection h input st = (r, st', spawn) \<Longrightarrow> request_effect st (q, st', spawn)"
proof (cases "read_line input")
  case (Some lr)
  obtain line rest where lr: "lr = (line, rest)" by force
  assume "handle_connection h input st = (r, st', spawn)"
  then have "st' = st \<and> spawn = None \<or> (\<exists>r. handle_request h line st = (r, st', spawn))"
    using Some lr unfolding handle_connection_def by (auto split: if_splits prod.splits)
  then show ?thesis using handle_effect [of st h line] by (auto simp: request_effect_def)
qed (simp add: handle_connection_def request_effect_def)

definition demo_evidence :: "ustr \<Rightarrow> bool" where
  "demo_evidence log \<longleftrightarrow> contains log (lit ''AxiomRT kernel booted'') \<and> contains log (lit ''RECOVERY_APPLIED'')"

definition studio_inv :: "studio \<Rightarrow> bool" where
  "studio_inv s \<longleftrightarrow>
     (case s of (st, ts) \<Rightarrow>
        (case st_busy st of
           None \<Rightarrow> ts = []
         | Some w \<Rightarrow> (\<exists>v. ts = [(w, v)] \<and> (w = Demo \<and> v = Some True \<longrightarrow> demo_evidence (jb_log (st_demo st)))))
        \<and> (\<forall>w. jb_status (job_of st w) = Some JRunning \<longleftrightarrow> st_busy st = Some w)
        \<and> (jb_status (st_demo st) = Some JOk \<longrightarrow> demo_evidence (jb_log (st_demo st))))"

lemma studio_inv_init: "studio_inv (studio_init doctor, [])"
proof -
  have "jb_status (job_of (studio_init doctor) w) = None" for w by (cases w) (simp_all add: studio_init_def Let_def)
  then show ?thesis by (simp add: studio_inv_def) (simp add: studio_init_def Let_def)
qed

lemma single_thread: "a @ x # b = [y] \<longleftrightarrow> a = [] \<and> b = [] \<and> x = y"
  by (cases a) auto

lemma demo_is_job: "st_demo st = job_of st Demo"
  by simp

lemma thread_alone: "studio_inv (st, a @ (w, v) # b) \<Longrightarrow> a = [] \<and> b = [] \<and> st_busy st = Some w
  \<and> jb_status (job_of st w) = Some JRunning"
  by (cases "st_busy st") (simp_all add: studio_inv_def single_thread)

lemma studio_inv_step: "studio_step s s' \<Longrightarrow> studio_inv s \<Longrightarrow> studio_inv s'"
proof (induction rule: studio_step.induct)
  case (request h input st r st' spawn ts)
  from connection_effect [OF request.hyps]
  consider "st' = st" "spawn = None"
    | w where "st_busy st = None" "spawn = Some w"
      "st' = job_mut w (\<lambda>j. j\<lparr>jb_status := Some JRunning, jb_log := []\<rparr>) (st\<lparr>st_busy := Some w\<rparr>)"
    by (auto simp: request_effect_def)
  then show ?case
  proof cases
    case 2
    then show ?thesis using request.prems unfolding studio_inv_def demo_is_job by (simp del: job_of.simps)
  qed (use request.prems in simp)
next
  case (line_out st a w b line)
  then show ?case using thread_alone [OF line_out] unfolding studio_inv_def demo_is_job
    by (simp add: job_line_def del: job_of.simps) (metis job_status.distinct(7) option.inject)
next
  case (ended st a w b status_ok)
  then show ?case using thread_alone [OF ended] unfolding studio_inv_def
    by (simp add: job_verdict_def demo_evidence_def)
next
  case (no_child st a w b)
  then show ?case using thread_alone [OF no_child] unfolding studio_inv_def by simp
next
  case (finished st a w ok b)
  then show ?case using thread_alone [OF finished] unfolding studio_inv_def demo_is_job
    by (simp add: job_finish_def del: job_of.simps)
qed

lemma studio_inv_reach: "studio_reach doctor s \<Longrightarrow> studio_inv s"
  by (induction rule: studio_reach.induct) (auto intro: studio_inv_init studio_inv_step)

text \<open>C21. One job at a time: in every reachable state of the server, whatever requests arrive and
  however the output of the jobs is interleaved with them, at most one job thread is alive, the server is
  busy exactly while it is, exactly the job it is busy with has the status running, and the demonstration
  has the status ok only if its log shows both the boot and the recovery.\<close>

theorem studio_jobs_exclusive:
  assumes "studio_reach doctor (st, ts)"
  shows "length ts \<le> 1 \<and> (st_busy st = None \<longleftrightarrow> ts = [])
    \<and> (\<forall>w. jb_status (job_of st w) = Some JRunning \<longleftrightarrow> st_busy st = Some w)
    \<and> (jb_status (st_demo st) = Some JOk \<longrightarrow>
         contains (jb_log (st_demo st)) (lit ''AxiomRT kernel booted'') \<and> contains (jb_log (st_demo st)) (lit ''RECOVERY_APPLIED''))"
proof (cases "st_busy st")
  case None
  then show ?thesis using studio_inv_reach [OF assms] by (simp add: studio_inv_def demo_evidence_def)
next
  case (Some w)
  then obtain v where "ts = [(w, v)]" using studio_inv_reach [OF assms] by (auto simp: studio_inv_def)
  then show ?thesis using studio_inv_reach [OF assms] Some by (simp add: studio_inv_def demo_evidence_def)
qed

definition sample_host :: host where
  "sample_host = \<lparr>ho_page = [], ho_root = lit ''/repo'', ho_files = (\<lambda>_. None), ho_listing = [], ho_release = (True, [])\<rparr>"

definition sample_input :: "u8 list" where
  "sample_input = bytes ''POST /api/run_demo HTTP/1.1'' @ [13, 10] @ bytes ''Host: localhost'' @ [13, 10, 13, 10]"

lemma sample_read:
  "read_line sample_input = Some (lit ''POST /api/run_demo HTTP/1.1'' @ [13, 10], bytes ''Host: localhost'' @ [13, 10, 13, 10])"
  "read_line (bytes ''Host: localhost'' @ [13, 10, 13, 10]) = Some (lit ''Host: localhost'' @ [13, 10], [13, 10])"
  "read_line [13, 10] = Some ([13, 10], [])"
  by code_simp+

lemma sample_drain: "drain_headers 0 (bytes ''Host: localhost'' @ [13, 10, 13, 10]) = Some (0, [])"
proof -
  have "trim_end (lit ''Host: localhost'' @ [13, 10]) = lit ''Host: localhost''"
    "expect_text (lit ''content-length:'') (ascii_lower (lit ''Host: localhost'')) = None" "trim_end [13, 10] = []"
    by code_simp+
  then show ?thesis
    by (subst drain_headers.simps, simp add: sample_read Let_def del: lit_append) (subst drain_headers.simps, simp add: sample_read)
qed

theorem studio_jobs_exclusive_witness:
  "let st = fst (snd (handle_connection sample_host sample_input (studio_init [])))
   in st_busy st = Some Demo \<and> (\<forall>w. jb_status (job_of st w) = Some JRunning \<longleftrightarrow> w = Demo)"
proof -
  obtain r st spawn where e: "handle_connection sample_host sample_input (studio_init []) = (r, st, spawn)"
    by (metis prod_cases3)
  have "handle_request sample_host (lit ''POST /api/run_demo HTTP/1.1'' @ [13, 10]) (studio_init []) =
      (case api_start Demo (studio_init []) of (r, st', spawn) \<Rightarrow> (Some r, st', spawn))"
    by (simp add: handle_request_def parse_request_line_def split_whitespace_def is_whitespace_def)
  then have b: "st_busy st = Some Demo"
    using e by (auto simp: handle_connection_def sample_read sample_drain api_start_def studio_init_def Let_def simp del: lit_append)
  have "studio_reach [] (st, [] @ (case spawn of Some w \<Rightarrow> [(w, None)] | None \<Rightarrow> []))"
    by (rule studio_reach.step [OF studio_reach.start studio_step.request [OF e]])
  from studio_jobs_exclusive [OF this] b show ?thesis unfolding Let_def e fst_conv snd_conv by auto
qed

section \<open>Files\<close>

text \<open>The files a request can reach, as paths, and the components of what follows the root.\<close>

definition served_paths :: "ustr \<Rightarrow> ustr set" where
  "served_paths root =
     path_join root ` lit ` {''evidence/v1.0/verify_all_clean.log'', ''kit/LIMITATIONS.md'', ''kit/ASSUMPTIONS_OF_USE.md'', ''kit/FINAL_REPORT.md''}
     \<union> {path_join (path_join (path_join root (lit ''evidence'')) ver) file | ver file. safe_name ver \<and> safe_name file}"

definition inner_component :: "ustr \<Rightarrow> bool" where
  "inner_component c \<longleftrightarrow> c \<noteq> [] \<and> c \<noteq> [46] \<and> c \<noteq> [46, 46]"

lemma split_on_plain: "d \<notin> set s \<Longrightarrow> split_on d s = [s]"
  by (induction s) auto

lemma split_on_cons: "d \<notin> set s \<Longrightarrow> split_on d (s @ d # t) = s # split_on d t"
  by (induction s) auto

lemma safe_name_component:
  assumes "safe_name s"
  shows "inner_component s" and "47 \<notin> set s" and "take 1 s \<noteq> [47]"
proof -
  show "inner_component s" using assms by (auto simp: safe_name_def inner_component_def)
  have "\<not> name_char 47" by (simp add: name_char_def)
  then show "47 \<notin> set s" using assms by (auto simp: safe_name_def list_all_iff)
  then show "take 1 s \<noteq> [47]" by (cases s) auto
qed

lemma path_join_join:
  assumes "a \<noteq> []" and "47 \<notin> set a" and "take 1 b \<noteq> [47]"
  shows "path_join (path_join p a) b = path_join p (a @ 47 # b)"
proof -
  have "last a \<noteq> 47" using assms(1,2) last_in_set by metis
  moreover have "take 1 a \<noteq> [47]" "take 1 (a @ 47 # b) \<noteq> [47]" using assms(1,2) by (cases a; auto)+
  ultimately show ?thesis using assms(1,3) by (simp add: path_join_def)
qed

lemma served_inside:
  assumes "p \<in> served_paths root"
  shows "\<exists>rel. p = path_join root rel \<and> list_all inner_component (split_on 47 rel)"
proof -
  have lits: "list_all inner_component (split_on 47 (lit t))"
    if "t \<in> {''evidence/v1.0/verify_all_clean.log'', ''kit/LIMITATIONS.md'', ''kit/ASSUMPTIONS_OF_USE.md'', ''kit/FINAL_REPORT.md''}" for t
    using that by (auto simp: inner_component_def)
  have "\<exists>rel. path_join (path_join (path_join root (lit ''evidence'')) v) f = path_join root rel \<and> list_all inner_component (split_on 47 rel)"
    if v: "safe_name v" and f: "safe_name f" for v f
  proof (intro exI conjI)
    have "v @ 47 # f \<noteq> []" "take 1 (v @ 47 # f) \<noteq> [47]" using safe_name_component [OF v] v by (cases v; auto simp: safe_name_def)+
    have "path_join (path_join (path_join root (lit ''evidence'')) v) f = path_join (path_join root (lit ''evidence'')) (v @ 47 # f)"
      using safe_name_component [OF v] safe_name_component [OF f] v by (intro path_join_join) (auto simp: safe_name_def)
    also have "\<dots> = path_join root (lit ''evidence'' @ 47 # v @ 47 # f)"
      using \<open>take 1 (v @ 47 # f) \<noteq> [47]\<close> by (intro path_join_join) simp_all
    finally show "path_join (path_join (path_join root (lit ''evidence'')) v) f = path_join root (lit ''evidence'' @ 47 # v @ 47 # f)" .
    have "split_on 47 (lit ''evidence'' @ 47 # v @ 47 # f) = [lit ''evidence'', v, f]"
      using split_on_cons [of 47 "lit ''evidence''"] split_on_cons [of 47 v] split_on_plain [of 47 f]
        safe_name_component(2) [OF v] safe_name_component(2) [OF f] by simp
    then show "list_all inner_component (split_on 47 (lit ''evidence'' @ 47 # v @ 47 # f))"
      using safe_name_component(1) [OF v] safe_name_component(1) [OF f] by (simp add: inner_component_def)
  qed
  then show ?thesis using assms lits unfolding served_paths_def by blast
qed

text \<open>C20. The file endpoints are confined: whatever the request line says, the response depends
  only on files that lie below the root by named components, none of them empty, \<open>.\<close> or
  \<open>..\<close>; two file systems that agree on those files cannot be told apart.\<close>

theorem studio_files_confined:
  assumes "\<And>p. p \<in> served_paths root \<Longrightarrow> files p = files' p"
  shows "handle_request (h\<lparr>ho_root := root, ho_files := files\<rparr>) line st = handle_request (h\<lparr>ho_root := root, ho_files := files'\<rparr>) line st
    \<and> (\<forall>p \<in> served_paths root. \<exists>rel. p = path_join root rel \<and> list_all inner_component (split_on 47 rel))"
proof
  have f: "serve_file files p = serve_file files' p" if "p \<in> served_paths root" for p
    using assms [OF that] by (simp add: serve_file_def)
  have names: "safe_name v \<Longrightarrow> safe_name n \<Longrightarrow> path_join (path_join (path_join root (lit ''evidence'')) v) n \<in> served_paths root" for v n
    unfolding served_paths_def by (intro UnI2) blast
  have lits: "path_join root (lit ''evidence/v1.0/verify_all_clean.log'') \<in> served_paths root"
    "path_join root (lit ''kit/LIMITATIONS.md'') \<in> served_paths root" "path_join root (lit ''kit/ASSUMPTIONS_OF_USE.md'') \<in> served_paths root"
    "path_join root (lit ''kit/FINAL_REPORT.md'') \<in> served_paths root"
    unfolding served_paths_def by (intro UnI1 imageI; simp)+
  have ev: "api_evidence_file files root query = api_evidence_file files' root query" for query
    unfolding api_evidence_file_def using f [OF names] by (auto simp del: lit_append split: option.split)
  have doc: "api_doc files root query = api_doc files' root query" for query
    unfolding api_doc_def f [OF lits(2)] f [OF lits(3)] f [OF lits(4)] ..
  have log: "api_verify_log files root st = api_verify_log files' root st" for st
    unfolding api_verify_log_def assms [OF lits(1)] ..
  have sel: "ho_files (h\<lparr>ho_root := root, ho_files := fs\<rparr>) = fs" "ho_root (h\<lparr>ho_root := root, ho_files := fs\<rparr>) = root"
    "ho_page (h\<lparr>ho_root := root, ho_files := fs\<rparr>) = ho_page h" "ho_listing (h\<lparr>ho_root := root, ho_files := fs\<rparr>) = ho_listing h"
    "ho_release (h\<lparr>ho_root := root, ho_files := fs\<rparr>) = ho_release h" for fs
    by simp_all
  show "handle_request (h\<lparr>ho_root := root, ho_files := files\<rparr>) line st = handle_request (h\<lparr>ho_root := root, ho_files := files'\<rparr>) line st"
    unfolding handle_request_def sel ev doc log ..
  show "\<forall>p \<in> served_paths root. \<exists>rel. p = path_join root rel \<and> list_all inner_component (split_on 47 rel)"
    using served_inside by blast
qed

theorem studio_files_confined_witness:
  "handle_request (sample_host\<lparr>ho_files := (\<lambda>p. if p = lit ''/etc/passwd'' then Some (lit ''root:x'') else None)\<rparr>)
     (lit ''GET /api/evidence/file?ver=..&file=passwd HTTP/1.1'') (studio_init [])
   = handle_request sample_host (lit ''GET /api/evidence/file?ver=..&file=passwd HTTP/1.1'') (studio_init [])"
proof -
  have "(if p = lit ''/etc/passwd'' then Some (lit ''root:x'') else None) = None" if served: "p \<in> served_paths (lit ''/repo'')" for p
  proof -
    obtain rel where rel: "p = path_join (lit ''/repo'') rel" "list_all inner_component (split_on 47 rel)"
      using served_inside [OF served] by blast
    have "take 1 rel \<noteq> [47]" using rel(2) by (cases rel) (auto simp: inner_component_def)
    then have "p = lit ''/repo/'' @ rel" by (simp add: rel(1) path_join_def)
    then show ?thesis by simp
  qed
  note same = studio_files_confined [where h = sample_host and root = "lit ''/repo''" and files' = "\<lambda>_. None" and
    files = "\<lambda>p. if p = lit ''/etc/passwd'' then Some (lit ''root:x'') else None", OF this, THEN conjunct1]
  have h: "sample_host\<lparr>ho_root := lit ''/repo'', ho_files := fs\<rparr> = sample_host\<lparr>ho_files := fs\<rparr>"
    "sample_host\<lparr>ho_files := (\<lambda>_. None)\<rparr> = sample_host" for fs
    by (simp_all add: sample_host_def)
  show ?thesis using same unfolding h .
qed

end
