(* ===== verification/Studio_Views.thy ===== *)
theory Studio_Views
  imports Studio
begin

text \<open>
  What the dashboard shows: which connections get an answer, how long texts are cut to size, and
  what the tables derived from a serial log say about the events of the log.
\<close>

section \<open>Long texts\<close>

lemma str_len_simps [simp]: "str_len [] = 0" "str_len (c # s) = utf8_len c + str_len s" "str_len (s @ t) = str_len s + str_len t"
  by (simp_all add: str_len_def)

lemma drop_bytes_split:
  "n \<le> str_len s \<Longrightarrow> \<exists>pre. pre @ drop_bytes n s = s \<and> n \<le> str_len pre \<and> str_len pre \<le> n + 3"
proof (induction n s rule: drop_bytes.induct)
  case (2 n c s)
  have u: "utf8_len c \<le> 4" by (simp add: utf8_len_def)
  consider "n = 0" | "n \<noteq> 0" "n \<le> utf8_len c" | "n \<noteq> 0" "utf8_len c < n" by linarith
  then show ?case
  proof cases
    case 1
    then show ?thesis by (intro exI [of _ "[]"]) simp
  next
    case 2
    have "drop_bytes 0 s = s" by (cases s) simp_all
    then show ?thesis using 2 u by (intro exI [of _ "[c]"]) simp
  next
    case 3
    have "n - utf8_len c \<le> str_len s" using "2.prems" by simp
    from "2.IH" [OF 3(1) this] obtain pre where "pre @ drop_bytes (n - utf8_len c) s = s" "n - utf8_len c \<le> str_len pre"
        "str_len pre \<le> n - utf8_len c + 3"
      by blast
    then show ?thesis using 3 by (intro exI [of _ "c # pre"]) auto
  qed
qed simp

lemma tail_split:
  assumes "4 \<le> lim" and "lim < str_len s"
  shows "\<exists>pre rest. pre @ rest = s \<and> str_len rest \<le> lim \<and> lim \<le> str_len rest + 3
    \<and> tail s lim = Some (lit ''[... truncated, showing last '' @ lit (dec_string lim) @ lit '' bytes ...]'' @ 10 # rest)"
proof -
  define rest where "rest = drop_bytes (str_len s - lim) s"
  obtain pre where pre: "pre @ rest = s" "str_len s - lim \<le> str_len pre" "str_len pre \<le> str_len s - lim + 3"
    using drop_bytes_split [of "str_len s - lim" s] unfolding rest_def by auto
  have len: "str_len s = str_len pre + str_len rest" using pre(1) by (metis str_len_simps(3))
  then have b: "str_len rest \<le> lim" "lim \<le> str_len rest + 3" using pre(2,3) assms(2) by simp_all
  then have "rest \<noteq> []" using assms(1) by auto
  then have "tail s lim = Some (lit ''[... truncated, showing last '' @ lit (dec_string lim) @ lit '' bytes ...]'' @ 10 # rest)"
    using assms unfolding tail_def rest_def [symmetric] Let_def by (simp del: lit_append)
  then show ?thesis using pre(1) b by blast
qed

text \<open>A text shown with a limit: whole when it fits, otherwise a mark and its last \<open>lim\<close> bytes, up to
  three fewer where the cut would fall inside a character.\<close>

definition shown :: "nat \<Rightarrow> ustr \<Rightarrow> ustr \<Rightarrow> bool" where
  "shown lim s body \<longleftrightarrow>
     (if str_len s \<le> lim then body = s
      else \<exists>pre rest. pre @ rest = s \<and> str_len rest \<le> lim \<and> lim \<le> str_len rest + 3
        \<and> body = lit ''[... truncated, showing last '' @ lit (dec_string lim) @ lit '' bytes ...]'' @ 10 # rest)"

lemma tail_shown: "4 \<le> lim \<Longrightarrow> \<exists>body. tail s lim = Some body \<and> shown lim s body"
  using tail_split [of lim s] by (cases "str_len s \<le> lim") (auto simp: tail_def shown_def not_le simp del: lit_append)

section \<open>Request lines\<close>

definition get_line :: "ustr \<Rightarrow> ustr" where
  "get_line target = lit ''GET '' @ target @ lit '' HTTP/1.1'' @ [13, 10]"

lemma split_ws_word: "list_all (\<lambda>c. \<not> is_whitespace c) w \<Longrightarrow> split_ws cur (w @ s) = split_ws (cur @ w) s"
  by (induction w arbitrary: cur) auto

lemma parse_get:
  assumes "list_all (\<lambda>c. \<not> is_whitespace c) target" and "take 1 target = [47]"
  shows "parse_request_line (get_line target) = Some (lit ''GET'', target)"
proof -
  have "target \<noteq> []" using assms(2) by auto
  then have "split_whitespace (get_line target) = [lit ''GET'', target, lit ''HTTP/1.1'']"
    unfolding split_whitespace_def get_line_def by (simp add: is_whitespace_def split_ws_word [OF assms(1)])
  then show ?thesis using assms(2) by (simp add: parse_request_line_def)
qed

lemma split_once_cons: "d \<notin> set a \<Longrightarrow> split_once d (a @ d # b) = Some (a, b)"
  by (induction a) auto

lemma file_query:
  assumes "38 \<notin> set v" and "38 \<notin> set f"
  shows "query_param (lit ''ver='' @ v @ lit ''&file='' @ f) ''ver'' = Some v"
    and "query_param (lit ''ver='' @ v @ lit ''&file='' @ f) ''file'' = Some f"
proof -
  have e: "lit ''ver='' @ v @ lit ''&file='' @ f = (lit ''ver='' @ v) @ 38 # (lit ''file='' @ f)" by simp
  have "split_on 38 (lit ''ver='' @ v @ lit ''&file='' @ f) = [lit ''ver='' @ v, lit ''file='' @ f]"
    unfolding e using assms by (subst split_on_cons) (auto simp: split_on_plain)
  then show "query_param (lit ''ver='' @ v @ lit ''&file='' @ f) ''ver'' = Some v"
    "query_param (lit ''ver='' @ v @ lit ''&file='' @ f) ''file'' = Some f"
    by (simp_all add: query_param_def List.map_filter_simps)
qed

lemma safe_plain: "safe_name s \<Longrightarrow> 38 \<notin> set s \<and> 63 \<notin> set s \<and> list_all (\<lambda>c. \<not> is_whitespace c) s"
  by (auto simp: safe_name_def list_all_iff name_char_def is_whitespace_def)

section \<open>Connections\<close>

text \<open>The lines of the input, each with its newline, and the connections that can be read: the request
  line is text, and so are the headers of a well-formed request up to the first blank line.\<close>

fun byte_lines :: "u8 list \<Rightarrow> u8 list list" where
  "byte_lines [] = []"
| "byte_lines (b # s) = (if b = 10 then [b] # byte_lines s else case byte_lines s of [] \<Rightarrow> [[b]] | l # ls \<Rightarrow> (b # l) # ls)"

definition blank_line :: "u8 list \<Rightarrow> bool" where
  "blank_line l \<longleftrightarrow> (case utf8_decode l of Some t \<Rightarrow> trim_end t = [] | None \<Rightarrow> False)"

definition readable :: "u8 list \<Rightarrow> bool" where
  "readable input \<longleftrightarrow>
     (case byte_lines input of
        [] \<Rightarrow> True
      | l # ls \<Rightarrow>
          (case utf8_decode l of
             None \<Rightarrow> False
           | Some t \<Rightarrow> parse_request_line t = None
               \<or> list_all (\<lambda>l. utf8_decode l \<noteq> None) (takeWhile (\<lambda>l. \<not> blank_line l) ls)))"

lemma raw_line_lines:
  "fst (raw_line input) = (case byte_lines input of [] \<Rightarrow> [] | l # _ \<Rightarrow> l)" "byte_lines (snd (raw_line input)) = tl (byte_lines input)"
  by (induction input rule: raw_line.induct) (auto split: list.split prod.split)

lemma read_line_lines:
  "byte_lines input = [] \<Longrightarrow> \<exists>rest. read_line input = Some ([], rest)"
  "byte_lines input = l # ls \<Longrightarrow> \<exists>rest. byte_lines rest = ls \<and> read_line input = map_option (\<lambda>t. (t, rest)) (utf8_decode l)"
  using raw_line_lines [of input] by (auto simp: read_line_def split_beta utf8_decode_def)

lemma drain_readable:
  "drain_headers n input = None \<longleftrightarrow> \<not> list_all (\<lambda>l. utf8_decode l \<noteq> None) (takeWhile (\<lambda>l. \<not> blank_line l) (byte_lines input))"
proof (induction n input rule: drain_headers.induct)
  case (1 n input)
  show ?case
  proof (cases "byte_lines input")
    case Nil
    then show ?thesis using read_line_lines(1) [OF Nil] by (subst drain_headers.simps) (auto simp: trim_end_def)
  next
    case (Cons l ls)
    obtain rest where rest: "byte_lines rest = ls" "read_line input = map_option (\<lambda>t. (t, rest)) (utf8_decode l)"
      using read_line_lines(2) [OF Cons] by blast
    show ?thesis
    proof (cases "utf8_decode l")
      case None
      then show ?thesis using rest by (subst drain_headers.simps) (simp add: Cons blank_line_def)
    next
      case (Some t)
      then show ?thesis using rest "1.IH" [of "(t, rest)" t rest "trim_end t"]
        by (subst drain_headers.simps) (simp add: Cons blank_line_def Let_def)
    qed
  qed
qed

definition answers_well :: "response option \<Rightarrow> bool" where
  "answers_well r \<longleftrightarrow> (case r of Some r \<Rightarrow> rs_code r \<in> {200, 400, 404, 409} | None \<Rightarrow> False)"

lemma answers_rules:
  "answers_well (Some (respond 200 t b))" "answers_well (Some (respond 400 t b))" "answers_well (Some (respond 404 t b))"
  "4 \<le> lim \<Longrightarrow> answers_well (map_option (respond 200 t) (tail s lim))"
  using tail_shown [of lim s] by (auto simp: answers_well_def respond_def)

lemma answers_files: "answers_well (serve_file files p)" "answers_well (api_evidence_file files root query)"
  "answers_well (api_doc files root query)" "answers_well (api_verify_log files root st)"
proof -
  show f: "answers_well (serve_file files p)" for p by (simp add: serve_file_def answers_rules split: option.split)
  show "answers_well (api_evidence_file files root query)" "answers_well (api_doc files root query)"
    by (simp_all add: api_evidence_file_def api_doc_def Let_def f answers_rules split: option.split)
  show "answers_well (api_verify_log files root st)"
    unfolding api_verify_log_def Let_def by (rule answers_rules) simp
qed

lemma answers_request: "answers_well (fst (handle_request h line st))"
proof -
  have "answers_well (Some (api_state st))" "answers_well (Some (api_events st))" "answers_well (Some (api_evidence l))"
    "answers_well (Some (api_release_check out))" "answers_well (Some (fst (api_start w st)))" for l out w
    by (simp_all add: answers_well_def api_state_def api_events_def api_evidence_def api_release_check_def api_start_def respond_def
        Let_def split_beta)
  then show ?thesis unfolding handle_request_def Let_def
    by (cases "parse_request_line line") (simp_all add: answers_rules answers_files split_beta)
qed

lemma get_route:
  assumes "parse_request_line line = Some (lit ''GET'', path)" and "split_once 63 path = None"
  shows "path = lit ''/api/log'' \<Longrightarrow> handle_request h line st =
      (map_option (respond 200 ''text/plain; charset=utf-8'') (tail (jb_log (st_demo st)) 200000), st, None)"
    and "path = lit ''/api/verify_log'' \<Longrightarrow> handle_request h line st = (api_verify_log (ho_files h) (ho_root h) st, st, None)"
  using assms by (simp_all add: handle_request_def)

lemma get_file:
  assumes "parse_request_line line = Some (lit ''GET'', lit ''/api/evidence/file'' @ 63 # query)"
  shows "handle_request h line st = (api_evidence_file (ho_files h) (ho_root h) query, st, None)"
  using assms by (simp add: handle_request_def)

lemma evidence_line:
  assumes "safe_name ver" and "safe_name fname"
  shows "handle_request h (get_line (lit ''/api/evidence/file?ver='' @ ver @ lit ''&file='' @ fname)) st =
    (serve_file (ho_files h) (path_join (path_join (path_join (ho_root h) (lit ''evidence'')) ver) fname), st, None)"
proof -
  let ?query = "lit ''ver='' @ ver @ lit ''&file='' @ fname"
  let ?target = "lit ''/api/evidence/file'' @ 63 # ?query"
  have e: "lit ''/api/evidence/file?ver='' @ ver @ lit ''&file='' @ fname = ?target" by simp
  have "parse_request_line (get_line ?target) = Some (lit ''GET'', ?target)"
    using safe_plain [OF assms(1)] safe_plain [OF assms(2)] by (intro parse_get) (simp_all add: is_whitespace_def)
  from get_file [OF this] show ?thesis
    unfolding e api_evidence_file_def using file_query [where v = ver and f = fname] safe_plain [OF assms(1)] safe_plain [OF assms(2)] assms
    by (simp del: lit_append)
qed

text \<open>C30. Every connection that can be read is answered, and long texts are cut to size. For all
  bytes a client may send, the handler never panics; it answers with one of its four status codes exactly
  when the request line is UTF-8 text and, for a well-formed request, every header up to the blank line is
  too; otherwise the connection is dropped without an answer and nothing changes. The demonstration log
  and the verification log (the live one, else the archived one) are shown with a limit of 200000 bytes
  and an evidence file with a limit of 400000: whole when they fit, otherwise as their last bytes, at most
  three fewer than the limit, never cut inside a character and marked as truncated.\<close>

theorem studio_answers_and_cuts:
  "(case handle_connection h input st of (res, st', spawn) \<Rightarrow>
      (case res of
         Answered r \<Rightarrow> readable input \<and> rs_code r \<in> {200, 400, 404, 409}
       | Dropped \<Rightarrow> \<not> readable input \<and> st' = st \<and> spawn = None
       | Panicked \<Rightarrow> False))
   \<and> (\<exists>body. handle_request h (get_line (lit ''/api/log'')) st = (Some (respond 200 ''text/plain; charset=utf-8'' body), st, None)
        \<and> shown 200000 (jb_log (st_demo st)) body)
   \<and> (\<exists>body. handle_request h (get_line (lit ''/api/verify_log'')) st = (Some (respond 200 ''text/plain; charset=utf-8'' body), st, None)
        \<and> shown 200000
            (if jb_log (st_verify st) \<noteq> [] then jb_log (st_verify st)
             else case ho_files h (path_join (ho_root h) (lit ''evidence/v1.0/verify_all_clean.log'')) of
                 Some log \<Rightarrow> lit ''[archived evidence/v1.0/verify_all_clean.log]'' @ 10 # log
               | None \<Rightarrow> lit ''no verify log yet '' @ 0x2014 # lit '' run the sweep'') body)
   \<and> (safe_name ver \<and> safe_name fname \<longrightarrow>
        (case ho_files h (path_join (path_join (path_join (ho_root h) (lit ''evidence'')) ver) fname) of
           Some content \<Rightarrow> \<exists>body. shown 400000 content body
             \<and> handle_request h (get_line (lit ''/api/evidence/file?ver='' @ ver @ lit ''&file='' @ fname)) st =
                 (Some (respond 200 ''text/plain; charset=utf-8'' body), st, None)
         | None \<Rightarrow> handle_request h (get_line (lit ''/api/evidence/file?ver='' @ ver @ lit ''&file='' @ fname)) st =
             (Some (respond 404 ''text/plain'' (lit ''no such file'')), st, None)))"
  (is "?conn \<and> ?log \<and> ?verify \<and> ?file")
proof (intro conjI)
  have a: "handle_request h line st \<noteq> (None, st', spawn)"
    "handle_request h line st = (Some r, st', spawn) \<Longrightarrow> rs_code r \<in> {200, 400, 404, 409}" for line r st' spawn
    using answers_request [of h line st] by (auto simp: answers_well_def)
  have r: "readable input \<longleftrightarrow> (case read_line input of None \<Rightarrow> False | Some (t, rest) \<Rightarrow>
      parse_request_line t = None \<or> drain_headers 0 rest \<noteq> None)"
  proof (cases "byte_lines input")
    case Nil
    then show ?thesis using read_line_lines(1) [OF Nil] by (auto simp: readable_def parse_request_line_def split_whitespace_def)
  next
    case (Cons l ls)
    then show ?thesis using read_line_lines(2) [OF Cons] by (cases "utf8_decode l") (auto simp: readable_def drain_readable)
  qed
  show ?conn unfolding handle_connection_def r using a by (auto split: option.splits prod.splits if_splits simp del: insert_iff)
  have l: "parse_request_line (get_line (lit ''/api/log'')) = Some (lit ''GET'', lit ''/api/log'')"
    "parse_request_line (get_line (lit ''/api/verify_log'')) = Some (lit ''GET'', lit ''/api/verify_log'')"
    by (rule parse_get; simp add: is_whitespace_def)+
  have n: "split_once 63 (lit ''/api/log'') = None" "split_once 63 (lit ''/api/verify_log'') = None" by simp_all
  show ?log using tail_shown [of 200000 "jb_log (st_demo st)"] by (auto simp: get_route(1) [OF l(1) n(1) refl] simp del: lit_append)
  show ?verify
    using tail_shown [of 200000 "if jb_log (st_verify st) \<noteq> [] then jb_log (st_verify st)
             else case ho_files h (path_join (ho_root h) (lit ''evidence/v1.0/verify_all_clean.log'')) of
                 Some log \<Rightarrow> lit ''[archived evidence/v1.0/verify_all_clean.log]'' @ 10 # log
               | None \<Rightarrow> lit ''no verify log yet '' @ 0x2014 # lit '' run the sweep''"]
    by (cases "jb_log (st_verify st) = []") (auto simp: get_route(2) [OF l(2) n(2) refl] api_verify_log_def simp del: lit_append)
  have f: "\<exists>body. shown 400000 c body \<and> map_option g (tail c 400000) = Some (g body)" for c and g :: "ustr \<Rightarrow> response"
    using tail_shown [of 400000 c] by auto
  show ?file
    by (auto simp: evidence_line serve_file_def f simp del: lit_append option.map_sel map_option_eq_Some split: option.split)
qed

theorem studio_answers_and_cuts_witness:
  "\<exists>body. handle_request (sample_host\<lparr>ho_files := (\<lambda>p. if p = lit ''/repo/evidence/v0.9/log.txt'' then Some (lit ''PASS'') else None)\<rparr>)
       (get_line (lit ''/api/evidence/file?ver='' @ lit ''v0.9'' @ lit ''&file='' @ lit ''log.txt'')) (studio_init [])
     = (Some (respond 200 ''text/plain; charset=utf-8'' body), studio_init [], None) \<and> shown 400000 (lit ''PASS'') body"
proof -
  let ?h = "sample_host\<lparr>ho_files := (\<lambda>p. if p = lit ''/repo/evidence/v0.9/log.txt'' then Some (lit ''PASS'') else None)\<rparr>"
  have s: "safe_name (lit ''v0.9'')" "safe_name (lit ''log.txt'')" by code_simp+
  have "ho_files ?h (path_join (path_join (path_join (ho_root ?h) (lit ''evidence'')) (lit ''v0.9'')) (lit ''log.txt'')) = Some (lit ''PASS'')"
    by (simp add: sample_host_def path_join_def)
  then show ?thesis
    using studio_answers_and_cuts [where h = ?h and st = "studio_init []" and ver = "lit ''v0.9''" and fname = "lit ''log.txt''"] s by (auto simp del: lit_append)
qed

section \<open>Derived views\<close>

text \<open>What the log says about tasks, event by event: the task and the state an event reports, given the events
  before it. A recovery with the policy \<open>Kill\<close> is about the task of the latest fault.\<close>

definition fault_task :: "log_event \<Rightarrow> ustr option" where
  "fault_task ev = (if among (ev_kind ev) [''FAULT'', ''TASK_FAULTED''] then event_field ev ''task'' else None)"

definition latest_fault :: "log_event list \<Rightarrow> ustr option" where
  "latest_fault past = (case rev (List.map_filter fault_task past) of t # _ \<Rightarrow> Some t | [] \<Rightarrow> None)"

definition report :: "log_event list \<Rightarrow> log_event \<Rightarrow> (ustr \<times> string) option" where
  "report past ev =
     (if ev_kind ev = lit ''TASK_STARTED'' then map_option (\<lambda>t. (t, ''running'')) (event_field ev ''task'')
      else if ev_kind ev = lit ''TASK_EXITED'' then map_option (\<lambda>t. (t, ''exited'')) (event_field ev ''task'')
      else if fault_task ev \<noteq> None then map_option (\<lambda>t. (t, ''faulted'')) (fault_task ev)
      else if ev_kind ev = lit ''RECOVERY_APPLIED'' \<and> event_field ev ''policy'' = Some (lit ''Kill'')
      then map_option (\<lambda>t. (t, ''killed'')) (latest_fault past)
      else None)"

definition reports :: "log_event list \<Rightarrow> (ustr \<times> string) list" where
  "reports evs = List.map_filter (\<lambda>i. report (take i evs) (evs ! i)) [0..<length evs]"

definition history :: "ustr \<Rightarrow> (ustr \<times> string) list \<Rightarrow> string list" where
  "history t rs = map snd (filter (\<lambda>r. fst r = t) rs)"

text \<open>The last state reported since the first start, further starts aside.\<close>

definition last_state :: "string list \<Rightarrow> string" where
  "last_state h = last (''running'' # filter (\<lambda>s. s \<noteq> ''running'') (dropWhile (\<lambda>s. s \<noteq> ''running'') h))"

definition started_task :: "log_event \<Rightarrow> ustr list" where
  "started_task ev = (if ev_kind ev = lit ''TASK_STARTED'' then case event_field ev ''task'' of Some t \<Rightarrow> [t] | None \<Rightarrow> [] else [])"

text \<open>The table a sequence of reports leaves, and what it shows.\<close>

definition apply_report :: "(ustr \<times> ustr) list \<Rightarrow> ustr \<times> string \<Rightarrow> (ustr \<times> ustr) list" where
  "apply_report tasks r = (if snd r = ''running'' then tasks @ [(fst r, lit ''running'')] else set_task_state tasks (fst r) (snd r))"

lemma reports_snoc: "reports (evs @ [ev]) = reports evs @ (case report evs ev of Some r \<Rightarrow> [r] | None \<Rightarrow> [])"
proof -
  have "List.map_filter (\<lambda>i. report (take i (evs @ [ev])) ((evs @ [ev]) ! i)) [0..<length evs] = reports evs"
    unfolding reports_def map_filter_def by (intro map_cong filter_cong) (auto simp: nth_append)
  then show ?thesis
    by (simp add: reports_def map_filter_def nth_append split: option.split)
qed

lemma latest_fault_snoc: "latest_fault (evs @ [ev]) = (case fault_task ev of Some t \<Rightarrow> Some t | None \<Rightarrow> latest_fault evs)"
  by (simp add: latest_fault_def map_filter_def split: option.split)

lemma task_event_report:
  "task_event (tasks, latest_fault past) ev =
     (case report past ev of Some r \<Rightarrow> apply_report tasks r | None \<Rightarrow> tasks, latest_fault (past @ [ev]))"
  unfolding task_event_def report_def latest_fault_snoc fault_task_def apply_report_def
  by (auto split: option.split)

lemma derive_reports: "foldl task_event ([], None) evs = (foldl apply_report [] (reports evs), latest_fault evs)"
proof (induction evs rule: rev_induct)
  case Nil
  show ?case by (simp add: reports_def latest_fault_def map_filter_def)
next
  case (snoc ev evs)
  then show ?case by (simp add: task_event_report reports_snoc split: option.split)
qed

lemma set_state_names [simp]: "map fst (set_task_state tasks name state) = map fst tasks"
  by (induction tasks name state rule: set_task_state.induct) auto

lemma set_state_nth:
  "j < length tasks \<Longrightarrow> set_task_state tasks t s ! j =
     (if fst (tasks ! j) = t \<and> t \<notin> fst ` set (take j tasks) then (t, lit s) else tasks ! j)"
proof (induction tasks t s arbitrary: j rule: set_task_state.induct)
  case (2 n st tasks name state)
  then show ?case by (cases j) auto
qed simp

lemma last_state_snoc:
  "''running'' \<in> set h \<Longrightarrow> last_state (h @ [s]) = (if s = ''running'' then last_state h else s)"
  by (simp add: last_state_def dropWhile_append1 [where x = "''running''"])

lemma last_state_first: "''running'' \<notin> set h \<Longrightarrow> last_state (h @ [''running'']) = ''running''"
  by (subst last_state_def, subst dropWhile_append2) auto

definition row_shown :: "(ustr \<times> string) list \<Rightarrow> (ustr \<times> ustr) list \<Rightarrow> nat \<Rightarrow> bool" where
  "row_shown rs tasks j \<longleftrightarrow>
     snd (tasks ! j) = lit (if fst (tasks ! j) \<in> fst ` set (take j tasks) then ''running'' else last_state (history (fst (tasks ! j)) rs))"

lemma table_of_reports:
  "let tasks = foldl apply_report [] rs
   in map fst tasks = map fst (filter (\<lambda>r. snd r = ''running'') rs) \<and> (\<forall>j < length tasks. row_shown rs tasks j)"
proof (induction rs rule: rev_induct)
  case (snoc r rs)
  define tasks where "tasks = foldl apply_report [] rs"
  obtain t s where r: "r = (t, s)" by force
  have names: "map fst tasks = map fst (filter (\<lambda>r. snd r = ''running'') rs)"
    and rows: "\<And>j. j < length tasks \<Longrightarrow> row_shown rs tasks j"
    using snoc by (simp_all add: tasks_def Let_def)
  have started: "u \<in> fst ` set tasks \<longleftrightarrow> ''running'' \<in> set (history u rs)" for u
    using arg_cong [OF names, of set] by (auto simp: history_def image_iff)
  have hist: "history u (rs @ [r]) = (if u = t then history u rs @ [s] else history u rs)" for u
    by (simp add: history_def r)
  have old: "''running'' \<in> set (history (fst (tasks ! j)) rs)" if "j < length tasks" for j
    using that started [of "fst (tasks ! j)"] by auto
  show ?case
  proof (cases "s = ''running''")
    case True
    have e: "foldl apply_report [] (rs @ [r]) = tasks @ [(t, lit ''running'')]" by (simp add: tasks_def apply_report_def r True)
    have "row_shown (rs @ [r]) (tasks @ [(t, lit ''running'')]) j" if "j < Suc (length tasks)" for j
    proof (cases "j < length tasks")
      case j: True
      then show ?thesis using rows [OF j] old [OF j] True by (auto simp: row_shown_def nth_append hist last_state_snoc)
    next
      case False
      then show ?thesis using that started [of t] True by (auto simp: row_shown_def nth_append hist last_state_first less_Suc_eq)
    qed
    then show ?thesis unfolding e Let_def using names True by (simp add: r)
  next
    case False
    have e: "foldl apply_report [] (rs @ [r]) = set_task_state tasks t s" by (simp add: tasks_def apply_report_def r False)
    have len: "length (set_task_state tasks t s) = length tasks" by (metis length_map set_state_names)
    have pre: "fst ` set (take j (set_task_state tasks t s)) = fst ` set (take j tasks)" for j
      by (metis set_map set_state_names take_map)
    have fst: "fst (set_task_state tasks t s ! j) = fst (tasks ! j)" if "j < length tasks" for j
      using that by (simp add: set_state_nth)
    have "row_shown (rs @ [r]) (set_task_state tasks t s) j" if j: "j < length tasks" for j
      using rows [OF j] old [OF j] False unfolding row_shown_def pre fst [OF j] hist
      by (auto simp: set_state_nth [OF j] last_state_snoc)
    then show ?thesis unfolding e Let_def len using names False by (simp add: r)
  qed
qed simp

lemma started_reports: "map fst (filter (\<lambda>r. snd r = ''running'') (reports evs)) = concat (map started_task evs)"
proof (induction evs rule: rev_induct)
  case (snoc ev evs)
  have "map fst (filter (\<lambda>r. snd r = ''running'') (case report evs ev of Some r \<Rightarrow> [r] | None \<Rightarrow> [])) = started_task ev"
    by (auto simp: report_def started_task_def split: option.split)
  then show ?case using snoc by (simp add: reports_snoc)
qed (simp add: reports_def map_filter_def)

lemma last_state_report: "last_state (history t (reports evs)) \<in> {''running'', ''exited'', ''faulted'', ''killed''}"
proof -
  have "last_state h \<in> insert ''running'' (set h)" for h
  proof -
    let ?xs = "''running'' # filter (\<lambda>s. s \<noteq> ''running'') (dropWhile (\<lambda>s. s \<noteq> ''running'') h)"
    have "set ?xs \<subseteq> insert ''running'' (set h)" by (auto dest: set_dropWhileD)
    then show ?thesis unfolding last_state_def using last_in_set [of ?xs] by blast
  qed
  moreover have "snd ` set (reports evs) \<subseteq> {''running'', ''exited'', ''faulted'', ''killed''}"
    unfolding reports_def map_filter_def by (auto simp: report_def split: if_splits)
  ultimately show ?thesis by (force simp: history_def)
qed

definition net_faulted :: "log_event \<Rightarrow> bool" where
  "net_faulted ev \<longleftrightarrow> ev_category ev = CNetwork \<and> ev_kind ev = lit ''NET_DRIVER'' \<and> event_field ev ''state'' = Some (lit ''faulted'')"

definition net_restarted :: "log_event \<Rightarrow> bool" where
  "net_restarted ev \<longleftrightarrow> ev_category ev = CNetwork \<and> ev_kind ev = lit ''NET_DRIVER'' \<and> \<not> net_faulted ev
     \<and> event_field ev ''restarted'' \<noteq> None"

definition net_number :: "string \<Rightarrow> string \<Rightarrow> log_event \<Rightarrow> nat option" where
  "net_number kind k ev = (if ev_kind ev = lit kind then Option.bind (event_field ev k) parse_u64 else None)"

lemma network_event_counts:
  assumes "ev_category ev = CNetwork"
  shows "nv_faults (network_event v ev) = nv_faults v + (if net_faulted ev then 1 else 0)"
    and "nv_restarts (network_event v ev) = nv_restarts v + (if net_restarted ev then 1 else 0)"
    and "nv_tx (network_event v ev) =
      (if net_restarted ev then 0 else case net_number ''NET_TX'' ''tx'' ev of Some n \<Rightarrow> n | None \<Rightarrow> nv_tx v)"
    and "nv_rx (network_event v ev) =
      (if net_restarted ev then 0 else case net_number ''NET_RX'' ''rx'' ev of Some n \<Rightarrow> n | None \<Rightarrow> nv_rx v)"
  using assms
  by (auto simp: network_event_def net_faulted_def net_restarted_def net_number_def Let_def split: option.splits)

text \<open>The state and the mode an event of the network reports.\<close>

definition net_state_report :: "log_event \<Rightarrow> ustr option" where
  "net_state_report ev =
     (if ev_kind ev = lit ''NET_SERVICE'' then event_field ev ''state''
      else if ev_kind ev \<noteq> lit ''NET_DRIVER'' then None
      else if event_field ev ''state'' = Some (lit ''faulted'') then Some (lit ''faulted'')
      else if event_field ev ''restarted'' \<noteq> None \<or> event_field ev ''started'' \<noteq> None then Some (lit ''up'')
      else None)"

definition net_mode_report :: "log_event \<Rightarrow> ustr option" where
  "net_mode_report ev = (if ev_kind ev = lit ''NET_SERVICE'' then event_field ev ''mode'' else None)"

lemma network_event_reports:
  "nv_state (network_event v ev) = (case net_state_report ev of Some s \<Rightarrow> s | None \<Rightarrow> nv_state v)"
  "nv_mode (network_event v ev) = (case net_mode_report ev of Some s \<Rightarrow> s | None \<Rightarrow> nv_mode v)"
  "nv_last_event (network_event v ev) = ev_raw ev"
  by (auto simp: network_event_def net_state_report_def net_mode_report_def Let_def split: option.splits)

text \<open>The latest number of a list of events since the latest reset.\<close>

definition latest :: "(log_event \<Rightarrow> nat option) \<Rightarrow> log_event list \<Rightarrow> nat" where
  "latest num evs =
     (case List.map_filter num (takeWhile (\<lambda>ev. \<not> net_restarted ev) (rev evs)) of [] \<Rightarrow> 0 | n # _ \<Rightarrow> n)"

lemma latest_snoc:
  "latest num (evs @ [ev]) = (if net_restarted ev then 0 else case num ev of Some n \<Rightarrow> n | None \<Rightarrow> latest num evs)"
  by (simp add: latest_def List.map_filter_simps split: option.split)

lemma last_report_snoc:
  "last (x # List.map_filter f (evs @ [ev])) = (case f ev of Some y \<Rightarrow> y | None \<Rightarrow> last (x # List.map_filter f evs))"
  by (simp add: map_filter_def split: option.split)

lemma last_cons_snoc: "last (x # xs @ [y]) = y"
  by simp

definition network_seen :: "log_event list \<Rightarrow> network_view" where
  "network_seen nets =
     \<lparr>nv_state = last (lit ''not_observed'' # List.map_filter net_state_report nets),
      nv_tx = latest (net_number ''NET_TX'' ''tx'') nets, nv_rx = latest (net_number ''NET_RX'' ''rx'') nets,
      nv_mode = last (lit ''not_observed'' # List.map_filter net_mode_report nets),
      nv_faults = length (filter net_faulted nets), nv_restarts = length (filter net_restarted nets),
      nv_last_event = last (lit ''no network event in this log'' # map ev_raw nets)\<rparr>"

lemma network_fold:
  "list_all (\<lambda>ev. ev_category ev = CNetwork) nets \<Longrightarrow> foldl network_event network_view_default nets = network_seen nets"
proof (induction nets rule: rev_induct)
  case Nil
  show ?case by (simp add: network_view_default_def network_seen_def latest_def List.map_filter_simps)
next
  case (snoc ev nets)
  then have c: "ev_category ev = CNetwork" and ih: "foldl network_event network_view_default nets = network_seen nets" by simp_all
  show ?case unfolding foldl_append foldl.simps ih
    by (rule network_view.equality)
      (simp_all add: network_event_counts [OF c] network_event_reports latest_snoc last_report_snoc last_cons_snoc network_seen_def
        del: last.simps lit_append split: option.split)
qed

text \<open>C31. The derived views say what the log says. The task table has one row for each start of a
  task, in order. The first row of a task shows the last state that the log reports of it after its first
  start: \<open>exited\<close>, \<open>faulted\<close>, or \<open>killed\<close> when a
  \<open>Kill\<close> recovery follows while its fault is the latest one, and \<open>running\<close> when
  nothing is reported; a further row, from a second start of the same task, shows \<open>running\<close>
  whatever is reported. No row shows \<open>blocked\<close>, a state the documentation lists. The network
  view shows the last state, mode and event reported, counts the faults and the restarts of the driver,
  and its packet counters are the latest numbers reported since the latest restart.\<close>

theorem derived_views_faithful:
  "map fst (derive_tasks evs) = concat (map started_task evs)
   \<and> (\<forall>j < length (derive_tasks evs). case derive_tasks evs ! j of (t, shown_state) \<Rightarrow>
        shown_state = lit (if t \<in> set (take j (concat (map started_task evs))) then ''running''
                           else last_state (history t (reports evs))))
   \<and> snd ` set (derive_tasks evs) \<subseteq> lit ` {''running'', ''exited'', ''faulted'', ''killed''}
   \<and> derive_network evs = network_seen (filter (\<lambda>ev. ev_category ev = CNetwork) evs)"
proof (intro conjI)
  have d: "derive_tasks evs = foldl apply_report [] (reports evs)" by (simp add: derive_tasks_def derive_reports)
  show names: "map fst (derive_tasks evs) = concat (map started_task evs)"
    using table_of_reports [of "reports evs"] unfolding d Let_def started_reports by blast
  have "fst ` set (take j (derive_tasks evs)) = set (take j (concat (map started_task evs)))" for j
    unfolding names [symmetric] by (simp add: take_map)
  then show rows: "\<forall>j < length (derive_tasks evs). case derive_tasks evs ! j of (t, shown_state) \<Rightarrow>
        shown_state = lit (if t \<in> set (take j (concat (map started_task evs))) then ''running''
                           else last_state (history t (reports evs)))"
    using table_of_reports [of "reports evs"] unfolding d [symmetric] Let_def row_shown_def split_beta by metis
  show "snd ` set (derive_tasks evs) \<subseteq> lit ` {''running'', ''exited'', ''faulted'', ''killed''}"
  proof
    fix s assume "s \<in> snd ` set (derive_tasks evs)"
    then obtain j where "j < length (derive_tasks evs)" "s = snd (derive_tasks evs ! j)" by (auto simp: in_set_conv_nth)
    then show "s \<in> lit ` {''running'', ''exited'', ''faulted'', ''killed''}"
      using rows last_state_report [of "fst (derive_tasks evs ! j)" evs] by (auto simp: split_beta simp del: lit_append)
  qed
  show "derive_network evs = network_seen (filter (\<lambda>ev. ev_category ev = CNetwork) evs)"
    unfolding derive_network_def by (rule network_fold) (simp add: list_all_iff)
qed

definition sample_event :: "nat \<Rightarrow> category \<Rightarrow> string \<Rightarrow> (string \<times> string) list \<Rightarrow> log_event" where
  "sample_event n c k fs = \<lparr>ev_seq = n, ev_category = c, ev_kind = lit k, ev_flags = [], ev_fields = map (\<lambda>(k, v). (lit k, lit v)) fs, ev_raw = []\<rparr>"

definition sample_events :: "log_event list" where
  "sample_events =
     [sample_event 1 CTask ''TASK_STARTED'' [(''task'', ''supervisor_task'')], sample_event 2 CTask ''TASK_STARTED'' [(''task'', ''faulty_task'')],
      sample_event 3 CTask ''TASK_STARTED'' [(''task'', ''critical_task'')],
      sample_event 4 CFault ''FAULT'' [(''type'', ''WatchdogTimeout''), (''task'', ''faulty_task'')],
      sample_event 5 CRecovery ''RECOVERY_APPLIED'' [(''policy'', ''Kill'')], sample_event 6 CScheduler ''SCHED'' [(''selected'', ''critical_task'')]]"

theorem derived_views_faithful_witness:
  "map fst (derive_tasks sample_events) = [lit ''supervisor_task'', lit ''faulty_task'', lit ''critical_task'']
   \<and> derive_tasks sample_events ! 1 = (lit ''faulty_task'', lit ''killed'')"
proof
  have e: "concat (map started_task sample_events) = [lit ''supervisor_task'', lit ''faulty_task'', lit ''critical_task'']"
    "last_state (history (lit ''faulty_task'') (reports sample_events)) = ''killed''"
    by code_simp+
  show n: "map fst (derive_tasks sample_events) = [lit ''supervisor_task'', lit ''faulty_task'', lit ''critical_task'']"
    using derived_views_faithful [of sample_events] unfolding e(1) by (rule conjunct1)
  have len: "1 < length (derive_tasks sample_events)" using arg_cong [OF n, of length] unfolding length_map by simp
  have t: "fst (derive_tasks sample_events ! 1) = lit ''faulty_task''"
    using arg_cong [OF n, of "\<lambda>xs. xs ! 1"] unfolding nth_map [OF len] by simp
  have "lit ''faulty_task'' \<notin> set (take 1 [lit ''supervisor_task'', lit ''faulty_task'', lit ''critical_task''])" by simp
  then show "derive_tasks sample_events ! 1 = (lit ''faulty_task'', lit ''killed'')"
    using derived_views_faithful [of sample_events] len t unfolding e(1)
    by (cases "derive_tasks sample_events ! 1") (auto simp: e(2) simp del: lit_append)
qed

end
