(* ===== verification/Spec2Isabelle.thy ===== *)
theory Spec2Isabelle
  imports Ax_Prelude Caps Threads Sched Ipc Faults Memory_Model Paging Devices Monitor Network
    Address_Spaces Kernel_State Dispatch_Sched Dispatch_Ipc Dispatch_Device Dispatch_Os Trap
    Authority Machine Os_Boot User_Code App_Loader File_Services Driver_Services Driver_Manager
    Shell_Services Service_System Image_Record Service_Chain Event_Log Axiomctl Studio Studio_Views
begin

text \<open>
  A verification development of AxiomRT, a capability-based microkernel for RISC-V (Sv39, one hart)
  with its boot flow, its user services and its host tools.

  \<^bold>\<open>The program.\<close> The repository has four layers. The portable kernel modules
  (\<open>kernel/src/caps\<close>, \<open>thread\<close>, \<open>sched\<close>, \<open>ipc\<close>, \<open>fault\<close>, \<open>memory\<close>, \<open>device\<close>, \<open>loader\<close>,
  \<open>monitor\<close>, \<open>network.rs\<close>) are pure Rust that also runs on the host and states the rules of the
  system. The target layer (\<open>kernel/src/arch/riscv64\<close>) is what runs: \<open>trap.rs\<close> receives every
  trap, \<open>timer.rs\<close> the ticks, \<open>dispatch.rs\<close> holds tasks, endpoints, devices and the service table
  and implements eighteen of the twenty system calls (\<open>sys_reply\<close> and \<open>sys_cap_query\<close> are stubs), \<open>paging.rs\<close>, \<open>sv39.rs\<close> and \<open>paging_hw.rs\<close> build the
  address spaces, and \<open>os_boot.rs\<close> starts the first task. The user layer is the second half of
  \<open>os_boot.rs\<close>: sixteen tasks that trap into the kernel and serve each other over endpoints, from the
  console and the shell to the application loader, the file system, the storage service and the
  drivers; a fault of one is reported to the supervisor and logger services. The host layer reads
  the serial output: \<open>tools/axiomctl\<close> parses and exports it, \<open>studio\<close> shows it on a local web page.

  \<^bold>\<open>Theories of the portable modules.\<close>
  \<^item> \<open>Ax_Prelude\<close>: word types, the \<open>result\<close> type, checked arithmetic, byte encodings and list lemmas
    the components share.
  \<^item> \<open>Caps\<close> (\<open>caps/\<close>): rights, capabilities and the 32-slot table; the contract \<open>cap_store\<close> and its
    interpretation; provenance of every successful lookup; derivation never amplifies.
  \<^item> \<open>Threads\<close> (\<open>thread/\<close>): the life cycle relation and what runs can do after a fault.
  \<^item> \<open>Sched\<close> (\<open>sched/\<close>): ring buffers and the eight-level ready queue refine lists; selection.
  \<^item> \<open>Ipc\<close> (\<open>ipc/\<close>): endpoints with a sender slot or a receiver slot; conservation of messages, round
    trips, and the capability-checked forms.
  \<^item> \<open>Faults\<close> (\<open>fault/\<close>, \<open>userland/supervisor\<close>): fault events, wire format, containment,
    notification, acknowledgement, and the supervisor's poll step.
  \<^item> \<open>Memory_Model\<close> (\<open>memory/\<close>, \<open>user/image.rs\<close>): frames, ownership, page table model, isolation.
  \<^item> \<open>Paging\<close> (\<open>sv39.rs\<close>, \<open>paging.rs\<close>): entry encoding, the table arena, mapping, the walk. A table
    walk that leaves the arena is \<open>None\<close>.
  \<^item> \<open>Devices\<close> (\<open>device/\<close>, \<open>loader/\<close>), \<open>Monitor\<close> (\<open>monitor/\<close>), \<open>Network\<close> (\<open>network.rs\<close>).

  \<^bold>\<open>Theories of the target layer.\<close>
  \<^item> \<open>Address_Spaces\<close> (\<open>paging_hw.rs\<close>): which addresses a service can reach in user mode.
  \<^item> \<open>Kernel_State\<close>: the record \<open>kernel\<close> holds every static of \<open>dispatch.rs\<close>, \<open>timer.rs\<close> and
    \<open>trap.rs\<close>, the registers that matter (status, active table), user memory per address space, the
    serial line and a log of device register accesses; \<open>platform\<close> holds what the build and the
    hardware fix. The invariant \<open>kinv\<close> and the rules for its preservation are here.
  \<^item> \<open>Dispatch_Sched\<close>, \<open>Dispatch_Ipc\<close>, \<open>Dispatch_Device\<close>, \<open>Dispatch_Os\<close> (\<open>dispatch.rs\<close>): scheduling,
    watchdog and fault paths; send and receive; device calls; task control, console, introspection.
    Every handler maps a state and a trap frame to \<open>'a outcome option\<close>: \<open>None\<close> is a panic (an index
    out of range, a failed \<open>expect\<close>), \<open>Ret\<close> returns with the live frame, \<open>Halt\<close> and \<open>PowerOff\<close> are
    the two final loops. Each handler has a lemma named \<open>..._step\<close>: from \<open>kinv\<close> it does not panic,
    and when it returns \<open>kinv\<close> holds and user memory changed only where it may.
  \<^item> \<open>Trap\<close> (\<open>trap.rs\<close>, \<open>timer.rs\<close>, \<open>syscall/mod.rs\<close>): the system call switch, the fallback table,
    the tick and \<open>trap_handler\<close>; what one trap preserves.
  \<^item> \<open>Authority\<close>: capabilities against system calls; what a trap can do to them.
  \<^item> \<open>Machine\<close>: user code and traps as a transition system; the interfaces \<open>safe_machine\<close> and
    \<open>guided_machine\<close> turn facts about steps into facts about runs.
  \<^item> \<open>Os_Boot\<close> (\<open>os_boot.rs\<close>): the service table with its grants, and \<open>os_boot\<close>.
  \<^item> this theory: properties of every run of the booted system.

  \<^bold>\<open>Theories of the user layer\<close> (\<open>os_boot.rs\<close>).
  \<^item> \<open>User_Code\<close>: a task body is a computation in the state monad whose state is the log of its system
    calls with their answers; the answers are an arbitrary function \<open>env\<close>, so that the results hold
    for every kernel and every peer. \<open>serve n step\<close> is the first \<open>n\<close> rounds of a service loop. Here
    are also the logic of event logs (\<open>does\<close>, \<open>ensures\<close>, \<open>speaks\<close>, \<open>tells\<close>) and the contract
    \<open>request_server\<close>: a receive without data is passed over, a request gets exactly one reply of at
    most 128 bytes that its command table permits, and a fatal request ends the dialogue.
  \<^item> \<open>App_Loader\<close>, \<open>File_Services\<close>, \<open>Driver_Services\<close>, \<open>Driver_Manager\<close>, \<open>Shell_Services\<close>: the bodies,
    function by function, each service an interpretation of \<open>request_server\<close>; the loader starts
    only applications it has validated or was told to run by name.
  \<^item> \<open>Image_Record\<close>: the record parser of the loader accepts exactly a grammar.
  \<^item> \<open>Service_Chain\<close>: loader, file system and storage composed; the outcome of a load request as a
    function of the name and of the loader's table; a message that does not fit the waiting buffer is dropped,
    as \<open>ipc_send\<close> does.
  \<^item> \<open>Service_System\<close>: every task against its row of the boot table: which calls it makes, and that it
    holds the capability for each but the deliberate probes; the dialogue of every server.

  \<^bold>\<open>Theories of the host layer.\<close>
  \<^item> \<open>Event_Log\<close> (\<open>tools/axiomctl/src/events.rs\<close>): line and log parsing, JSON export, summary; the
    contracts \<open>codec\<close> and \<open>item_codec\<close> for text that can be read back; agreement with \<open>Monitor\<close>.
  \<^item> \<open>Axiomctl\<close> (\<open>tools/axiomctl/src/main.rs\<close>): the command table, the export and the release check.
  \<^item> \<open>Studio\<close> (\<open>studio/src/main.rs\<close>): connections from the bytes of the request on, endpoints, derived views,
    and the job threads as a step relation; \<open>Studio_Views\<close>: which connections are answered, how long texts
    are cut, and what the task table and the network view say about a log.

  \<^bold>\<open>Modelling.\<close> Rust integers are words of their width with wrap-around; \<open>usize\<close> values that index
  or count are \<open>nat\<close>, with the conversions from registers written out. Output is a byte list that
  only grows; input is a list the environment may replace. A \<open>while\<close> loop is structural recursion, a
  fold over its range or a \<open>function\<close> with a termination measure; loops whose end depends on address arithmetic are \<open>partial_function\<close>s with
  a proof that they end. No fuel is used. Linker symbols, addresses of task bodies, device register
  contents, the trap cause and the clock are parameters.

  \<^bold>\<open>Assumptions.\<close> The hypothesis \<open>bootable\<close> says that the sixteen address spaces of the image can be
  built; it is a computation on the layout, and a concrete layout that satisfies it is evaluated in
  \<open>Os_Boot\<close>. The status register starts with user access closed. In \<open>machine_step\<close> user code changes
  only memory of its own address space, which \<open>Address_Spaces\<close> justifies, and traps with a frame
  of user mode.

  In the user layer a buffer with its length is a byte list, a value of the kernel is an integer and
  an answer fills at most the buffer of its call. In the host layer a \<open>str\<close> is a list of Unicode
  scalar values and the methods of \<open>str\<close> are written out; the file system, the output of \<open>git\<close> and
  of child processes and the HTML page are parameters. Readers of JSON, which the program does not
  have, are part of the specification: they bound their recursion by the number of characters,
  which is never less than the number of items.

  \<^bold>\<open>Not modelled.\<close> Assembly entry code (\<open>boot.S\<close>, \<open>trap.S\<close>, \<open>user_entry.S\<close>) and CSR writes that only
  enable hardware; the UART status polling loop; interrupts inside the kernel (it runs with
  interrupts off); the feature-gated demonstrations, which register tasks and print, over mechanisms
  that are modelled; the banner and panic printing of \<open>main.rs\<close> and \<open>panic.rs\<close>; the commands of
  \<open>axiomctl\<close> that start scripts; sockets, failed writes and child processes of \<open>studio\<close>. The user layer is verified against arbitrary answers of the kernel and the kernel
  against arbitrary user code; their joint execution is not a single transition system.
\<close>

section \<open>Properties of the booted system\<close>

text \<open>C1. The booted system never panics: after \<open>os_boot\<close> of a bootable image,
  whatever user code does with its registers and its own memory between traps, whatever arrives on the
  serial line and whatever traps are taken in whatever order, every reachable state satisfies the kernel
  invariant and the kernel takes the next trap without a panic. A panic is a Rust panic, the value
  \<open>None\<close>; the paths of \<open>trap.rs\<close> that print a \<open>PANIC\<close> line and stop
  on purpose are \<open>Halt\<close>, an end of the run.\<close>

theorem booted_system_never_panics:
  assumes "bootable pl bm" and "\<not> bit sstatus 18"
    and "os_boot pl bm (reset_kernel sstatus root umem console input) = Some (k, entry, sp)" and "user_frame f"
    and "(machine_step pl)\<^sup>*\<^sup>* (k, f) (k', f')"
  shows "kinv pl k' f' \<and> (\<forall>ti. \<exists>out. trap_handler pl ti k' f' = Some out)"
  using boot_run_safe [OF os_boot_state [OF assms(1-4)] assms(5)]
  by (simp add: boot_safe_def machine_inv_def takes_traps_def)

theorem booted_system_never_panics_witness:
  "\<exists>k entry sp. os_boot sample_platform sample_boot (reset_kernel 0 0 (\<lambda>_ _. 0) [] []) = Some (k, entry, sp)
     \<and> (\<forall>ti. \<exists>out. trap_handler sample_platform ti (k\<lparr>k_umem := (k_umem k)(k_satp_root k := \<lambda>_. 1), k_input := [65]\<rparr>) sample_frame = Some out)"
proof -
  obtain k e sp where b: "os_boot sample_platform sample_boot (reset_kernel 0 0 (\<lambda>_ _. 0) [] []) = Some (k, e, sp)"
    using os_boot_eq [OF sample_bootable refl, of 0 0 "\<lambda>_ _. 0" "[]" "[]"] by blast
  have f: "user_frame sample_frame" by (simp add: user_frame_def sample_frame_def is_from_user_def)
  have "(machine_step sample_platform)\<^sup>*\<^sup>* (k, sample_frame) (k\<lparr>k_umem := (k_umem k)(k_satp_root k := \<lambda>_. 1), k_input := [65]\<rparr>, sample_frame)"
    by (rule r_into_rtranclp) (rule machine_step.user [OF f])
  then show ?thesis using booted_system_never_panics [OF sample_bootable _ b f] b by auto
qed

text \<open>C3. Authority after boot is what the boot table grants: in every reachable state the capability
  slots of every task are empty or exactly those of its row, so that task control, which starts,
  kills and restarts tasks and powers the machine off, is held by the initial task, the shell, the
  application loader and the driver manager and by no other task.\<close>

theorem booted_authority_is_fixed:
  assumes "bootable pl bm" and "\<not> bit sstatus 18"
    and "os_boot pl bm (reset_kernel sstatus root umem console input) = Some (k, entry, sp)" and "user_frame f"
    and "(machine_step pl)\<^sup>*\<^sup>* (k, f) (k', f')" and "i < MAX_TASKS"
  shows "t_caps (k_tasks k' ! i) \<in> {padded [], padded (slot_grant i)}
    \<and> (need_met (needed SYS_SHUTDOWN) (t_caps (k_tasks k' ! i)) ci \<longrightarrow> i \<in> {0, 4, 6, 12})"
proof -
  have a: "boot_authority k'"
    using boot_run_safe(1) [OF os_boot_state [OF assms(1-4)] assms(5)] by (simp add: boot_safe_def)
  have "needed SYS_SHUTDOWN = InAny OTYPE_CONTROL RIGHT_CONTROL" by (simp add: needed_def sys_consts)
  then show ?thesis using a boot_control [OF a assms(6)] assms(6) by (auto simp: boot_authority_def)
qed

theorem booted_authority_is_fixed_witness:
  "\<exists>k entry sp. os_boot sample_platform sample_boot (reset_kernel 0 0 (\<lambda>_ _. 0) [] []) = Some (k, entry, sp)
     \<and> t_caps (k_tasks k ! 4) \<in> {padded [], padded (slot_grant 4)}"
proof -
  obtain k e sp where b: "os_boot sample_platform sample_boot (reset_kernel 0 0 (\<lambda>_ _. 0) [] []) = Some (k, e, sp)"
    using os_boot_eq [OF sample_bootable refl, of 0 0 "\<lambda>_ _. 0" "[]" "[]"] by blast
  have "user_frame sample_frame" by (simp add: user_frame_def sample_frame_def is_from_user_def)
  from booted_authority_is_fixed [OF sample_bootable _ b this rtranclp.rtrancl_refl, of 4] b
  show ?thesis by (simp add: MAX_TASKS_def)
qed

text \<open>C27. Devices stay behind the kernel: over every run of the booted system no device register
  is ever written through a device call, and every register read through one lies inside the 512-byte
  window of the block device. These are the accesses of tasks, logged in \<open>k_mmio\<close>; the writes
  of the kernel to its own UART are console output.\<close>

theorem booted_devices_are_read_only:
  assumes "bootable pl bm" and "\<not> bit sstatus 18"
    and "os_boot pl bm (reset_kernel sstatus root umem console input) = Some (k, entry, sp)" and "user_frame f"
    and "(machine_step pl)\<^sup>*\<^sup>* (k, f) (k', f')"
  shows "list_all window_read (k_mmio k')"
  using boot_run_safe(1) [OF os_boot_state [OF assms(1-4)] assms(5)] by (simp add: boot_safe_def)

theorem booted_devices_are_read_only_witness:
  "\<exists>k entry sp. os_boot sample_platform sample_boot (reset_kernel 0 0 (\<lambda>_ _. 0) [] []) = Some (k, entry, sp)
     \<and> list_all window_read (k_mmio k)"
proof -
  obtain k e sp where b: "os_boot sample_platform sample_boot (reset_kernel 0 0 (\<lambda>_ _. 0) [] []) = Some (k, e, sp)"
    using os_boot_eq [OF sample_bootable refl, of 0 0 "\<lambda>_ _. 0" "[]" "[]"] by blast
  have "user_frame sample_frame" by (simp add: user_frame_def sample_frame_def is_from_user_def)
  from booted_devices_are_read_only [OF sample_bootable _ b this rtranclp.rtrancl_refl] b show ?thesis by simp
qed

end
